(* ===== verification/Prelude.thy ===== *)
theory Prelude
  imports Main "HOL-Library.DAList" "HOL-Library.Word"
begin

text \<open>
  Shared vocabulary of the development: the machine types of the program
  (\<open>u128\<close> process identifiers, \<open>i64\<close> counters), panics as values, and the standard
  library's \<open>HashMap\<close>.

  A \<open>HashMap\<close> is an association list with unique keys (the library type
  \<open>('k, 'v) alist\<close>): the list order is the order in which the program's iterators
  visit the entries. Rust leaves that order open, and so do the theorems: they quantify
  over the whole map value, hence over every iteration order.
\<close>

named_theorems hm_simps "lookup, key and length facts about hash maps"
named_theorems hm_eval "equations that evaluate closed hash maps"
named_theorems exec_simps "facts about computations that may panic"


section \<open>Machine integers\<close>

type_synonym pid = "128 word"
type_synonym counter = int
type_synonym u64 = "64 word"

abbreviation i64_max :: int where
  "i64_max \<equiv> 9223372036854775807"

abbreviation i64_min :: int where
  "i64_min \<equiv> - 9223372036854775808"

definition is_i64 :: "int \<Rightarrow> bool" where
  "is_i64 x \<longleftrightarrow> i64_min \<le> x \<and> x \<le> i64_max"

text \<open>Plain \<open>+\<close> on \<open>i64\<close> wraps around in an optimised build.\<close>

definition i64_add :: "int \<Rightarrow> int \<Rightarrow> int" where
  "i64_add a b = (a + b + 9223372036854775808) mod 18446744073709551616 - 9223372036854775808"

definition i64_saturating_add :: "int \<Rightarrow> int \<Rightarrow> int" where
  "i64_saturating_add a b = max i64_min (min i64_max (a + b))"

lemma i64_add_exact: "is_i64 (a + b) \<Longrightarrow> i64_add a b = a + b"
  by (simp add: i64_add_def is_i64_def)

lemma is_i64_add [simp]: "is_i64 (i64_add a b)"
proof -
  let ?m = "(a + b + 9223372036854775808) mod 18446744073709551616"
  have "0 \<le> ?m" "?m < 18446744073709551616" by simp_all
  then show ?thesis unfolding is_i64_def i64_add_def by linarith
qed

lemma is_i64_saturating_add [simp]: "is_i64 (i64_saturating_add a b)"
  by (simp add: is_i64_def i64_saturating_add_def)

lemma i64_add_1: "is_i64 c \<Longrightarrow> c < i64_max \<Longrightarrow> i64_add c 1 = c + 1"
  by (rule i64_add_exact) (simp add: is_i64_def)


section \<open>Panics as values\<close>

datatype panic =
    AssertFailed string
  | UnwrapNone
  | ExpectFailed string
  | PanicMessage string

datatype 'a exec = Done 'a | Panicked panic

primrec exec_bind :: "'a exec \<Rightarrow> ('a \<Rightarrow> 'b exec) \<Rightarrow> 'b exec" where
  "exec_bind (Done x) f = f x"
| "exec_bind (Panicked p) f = Panicked p"

primrec exec_map :: "('a \<Rightarrow> 'b) \<Rightarrow> 'a exec \<Rightarrow> 'b exec" where
  "exec_map f (Done x) = Done (f x)"
| "exec_map f (Panicked p) = Panicked p"

text \<open>\<open>Option::unwrap\<close> and \<open>Option::expect\<close>.\<close>

primrec unwrap :: "'a option \<Rightarrow> 'a exec" where
  "unwrap (Some x) = Done x"
| "unwrap None = Panicked UnwrapNone"

primrec expect :: "string \<Rightarrow> 'a option \<Rightarrow> 'a exec" where
  "expect msg (Some x) = Done x"
| "expect msg None = Panicked (ExpectFailed msg)"

text \<open>A loop whose body may panic.\<close>

primrec exec_fold :: "('a \<Rightarrow> 's \<Rightarrow> 's exec) \<Rightarrow> 'a list \<Rightarrow> 's \<Rightarrow> 's exec" where
  "exec_fold f [] s = Done s"
| "exec_fold f (x # xs) s = exec_bind (f x s) (exec_fold f xs)"

lemma exec_bind_Done_iff [exec_simps]:
  "exec_bind m f = Done y \<longleftrightarrow> (\<exists>x. m = Done x \<and> f x = Done y)"
  by (cases m) auto

lemma exec_bind_Panicked_iff [exec_simps]:
  "exec_bind m f = Panicked p \<longleftrightarrow> m = Panicked p \<or> (\<exists>x. m = Done x \<and> f x = Panicked p)"
  by (cases m) auto

lemma exec_map_Done_iff [exec_simps]:
  "exec_map f m = Done y \<longleftrightarrow> (\<exists>x. m = Done x \<and> y = f x)"
  by (cases m) auto

lemma exec_bind_total_iff:
  assumes "(\<exists>x. m = Done x) \<longleftrightarrow> P" and "\<And>x. m = Done x \<Longrightarrow> (\<exists>y. f x = Done y) \<longleftrightarrow> Q"
  shows "(\<exists>y. exec_bind m f = Done y) \<longleftrightarrow> P \<and> Q"
  using assms by (cases m) auto

lemma exec_map_bind: "exec_map f m = exec_bind m (\<lambda>x. Done (f x))"
  by (cases m) simp_all

lemma exec_bind_assoc: "exec_bind (exec_bind m f) g = exec_bind m (\<lambda>x. exec_bind (f x) g)"
  by (cases m) simp_all

lemma exec_bind_map: "exec_bind (exec_map f m) g = exec_bind m (\<lambda>x. g (f x))"
  by (cases m) simp_all

lemma unwrap_Done_iff [exec_simps]: "unwrap x = Done y \<longleftrightarrow> x = Some y"
  by (cases x) auto

lemma expect_Done_iff [exec_simps]: "expect msg x = Done y \<longleftrightarrow> x = Some y"
  by (cases x) auto

lemma exec_fold_append [exec_simps]:
  "exec_fold f (xs @ ys) s = exec_bind (exec_fold f xs s) (exec_fold f ys)"
proof (induction xs arbitrary: s)
  case (Cons x xs)
  then show ?case by (cases "f x s") simp_all
qed simp

lemma exec_fold_invariant:
  assumes "\<And>x s t. x \<in> set xs \<Longrightarrow> P s \<Longrightarrow> f x s = Done t \<Longrightarrow> P t"
    and "P s" and "exec_fold f xs s = Done t"
  shows "P t"
  using assms
proof (induction xs arbitrary: s)
  case (Cons x xs)
  from Cons.prems(3) obtain u where u: "f x s = Done u" "exec_fold f xs u = Done t"
    by (auto simp: exec_simps)
  from Cons.prems(1)[of x s u] Cons.prems(2) u(1) have "P u" by simp
  with Cons.IH[OF _ _ u(2)] Cons.prems(1) show ?case by (metis list.set_intros(2))
qed simp


section \<open>Hash maps\<close>

type_synonym ('k, 'v) hashmap = "('k, 'v) alist"

definition hm_new :: "('k, 'v) hashmap" where
  "hm_new = DAList.empty"

definition hm_get :: "('k, 'v) hashmap \<Rightarrow> 'k \<Rightarrow> 'v option" where
  "hm_get m k = DAList.lookup m k"

definition hm_insert :: "('k, 'v) hashmap \<Rightarrow> 'k \<Rightarrow> 'v \<Rightarrow> ('k, 'v) hashmap" where
  "hm_insert m k v = DAList.update k v m"

definition hm_remove :: "('k, 'v) hashmap \<Rightarrow> 'k \<Rightarrow> ('k, 'v) hashmap" where
  "hm_remove m k = DAList.delete k m"

definition hm_iter :: "('k, 'v) hashmap \<Rightarrow> ('k \<times> 'v) list" where
  "hm_iter m = DAList.impl_of m"

lift_definition hm_values_mut :: "('v \<Rightarrow> 'v) \<Rightarrow> ('k, 'v) hashmap \<Rightarrow> ('k, 'v) hashmap"
  is "\<lambda>f. AList.map_ran (\<lambda>_. f)"
  by (simp add: distinct_map_ran)

lift_definition hm_retain :: "('k \<Rightarrow> 'v \<Rightarrow> bool) \<Rightarrow> ('k, 'v) hashmap \<Rightarrow> ('k, 'v) hashmap"
  is "\<lambda>P. List.filter (\<lambda>(k, v). P k v)"
  by (simp add: distinct_map_fst_filter)

definition hm_contains_key :: "('k, 'v) hashmap \<Rightarrow> 'k \<Rightarrow> bool" where
  "hm_contains_key m k \<longleftrightarrow> hm_get m k \<noteq> None"

definition hm_keys :: "('k, 'v) hashmap \<Rightarrow> 'k list" where
  "hm_keys m = map fst (hm_iter m)"

definition hm_values :: "('k, 'v) hashmap \<Rightarrow> 'v list" where
  "hm_values m = map snd (hm_iter m)"

definition hm_len :: "('k, 'v) hashmap \<Rightarrow> nat" where
  "hm_len m = length (hm_iter m)"

definition hm_is_empty :: "('k, 'v) hashmap \<Rightarrow> bool" where
  "hm_is_empty m \<longleftrightarrow> hm_iter m = []"

text \<open>\<open>HashMap::eq\<close>: the same number of entries, and every entry is found in the other map.\<close>

definition hm_eq :: "('k, 'v) hashmap \<Rightarrow> ('k, 'v) hashmap \<Rightarrow> bool" where
  "hm_eq a b \<longleftrightarrow> hm_len a = hm_len b \<and> list_all (\<lambda>(k, v). hm_get b k = Some v) (hm_iter a)"

text \<open>\<open>entry(k).and_modify(f).or_insert(v)\<close> and \<open>entry(k).or_default()\<close> followed by an update.\<close>

definition hm_modify_or_insert ::
  "('k, 'v) hashmap \<Rightarrow> 'k \<Rightarrow> ('v \<Rightarrow> 'v) \<Rightarrow> 'v \<Rightarrow> ('k, 'v) hashmap" where
  "hm_modify_or_insert m k f v =
     hm_insert m k (case hm_get m k of Some x \<Rightarrow> f x | None \<Rightarrow> v)"

subsection \<open>Lookup\<close>

lemma hm_get_new [simp, hm_simps]: "hm_get hm_new k = None"
  by (simp add: hm_get_def hm_new_def)

lemma hm_get_insert [simp, hm_simps]:
  "hm_get (hm_insert m k v) k' = (if k' = k then Some v else hm_get m k')"
  by (auto simp: hm_get_def hm_insert_def lookup_update)

lemma hm_get_remove [simp, hm_simps]:
  "hm_get (hm_remove m k) k' = (if k' = k then None else hm_get m k')"
  by (simp add: hm_get_def hm_remove_def)

lemma hm_get_values_mut [simp, hm_simps]:
  "hm_get (hm_values_mut f m) k = map_option f (hm_get m k)"
  unfolding hm_get_def by transfer (simp add: map_ran_conv)

lemma map_of_filter_distinct:
  "distinct (map fst xs) \<Longrightarrow>
   map_of (filter (\<lambda>(k, v). P k v) xs) k =
     (case map_of xs k of Some v \<Rightarrow> if P k v then Some v else None | None \<Rightarrow> None)"
  by (induction xs) (auto simp: map_of_eq_None_iff image_iff split: option.splits)

lemma hm_get_retain [simp, hm_simps]:
  "hm_get (hm_retain P m) k =
     (case hm_get m k of Some v \<Rightarrow> if P k v then Some v else None | None \<Rightarrow> None)"
  unfolding hm_get_def by transfer (simp add: map_of_filter_distinct)

lemma hm_get_modify_or_insert [simp, hm_simps]:
  "hm_get (hm_modify_or_insert m k f v) k' =
     (if k' = k then Some (case hm_get m k of Some x \<Rightarrow> f x | None \<Rightarrow> v) else hm_get m k')"
  by (simp add: hm_modify_or_insert_def)

lemma hm_contains_key_iff [simp]: "hm_contains_key m k \<longleftrightarrow> (\<exists>v. hm_get m k = Some v)"
  by (simp add: hm_contains_key_def)

subsection \<open>Iteration\<close>

lemma hm_get_iter: "hm_get m k = map_of (hm_iter m) k"
  by (simp add: hm_get_def hm_iter_def DAList.lookup.rep_eq)

lemma distinct_hm_keys [simp]: "distinct (hm_keys m)"
  by (simp add: hm_keys_def hm_iter_def)

lemma distinct_hm_iter [simp]: "distinct (map fst (hm_iter m))"
  by (simp add: hm_iter_def)

lemma in_hm_iter_iff [simp]: "(k, v) \<in> set (hm_iter m) \<longleftrightarrow> hm_get m k = Some v"
  by (simp add: hm_get_iter)

lemma set_hm_keys [simp, hm_simps]: "set (hm_keys m) = {k. hm_get m k \<noteq> None}"
proof -
  have "set (hm_keys m) = fst ` set (hm_iter m)" by (simp add: hm_keys_def)
  also have "\<dots> = dom (map_of (hm_iter m))" by (simp only: dom_map_of_conv_image_fst)
  finally show ?thesis by (simp only: dom_def hm_get_iter)
qed

lemma set_hm_values [simp, hm_simps]: "set (hm_values m) = {v. \<exists>k. hm_get m k = Some v}"
proof -
  have "set (hm_values m) = {v. \<exists>k. (k, v) \<in> set (hm_iter m)}"
    by (simp add: hm_values_def snd_eq_Range Range_iff set_eq_iff)
  then show ?thesis by simp
qed

lemma hm_is_empty_iff: "hm_is_empty m \<longleftrightarrow> (\<forall>k. hm_get m k = None)"
proof
  assume "\<forall>k. hm_get m k = None"
  then have "set (hm_keys m) = {}" by simp
  then show "hm_is_empty m" by (simp add: hm_is_empty_def hm_keys_def del: set_hm_keys)
qed (simp add: hm_is_empty_def hm_get_iter)

lemma hm_is_empty_new [simp]: "hm_is_empty hm_new"
  by (simp add: hm_is_empty_iff)

lemma hm_len_eq_card: "hm_len m = card {k. hm_get m k \<noteq> None}"
proof -
  have "hm_len m = length (hm_keys m)" by (simp add: hm_len_def hm_keys_def)
  also have "\<dots> = card (set (hm_keys m))" by (simp only: distinct_card distinct_hm_keys)
  finally show ?thesis by simp
qed

lemma finite_hm_dom [simp]: "finite {k. hm_get m k \<noteq> None}"
  using finite_set[of "hm_keys m"] by simp

lemma finite_hm_dom' [simp]: "finite {k. \<exists>v. hm_get m k = Some v}"
  using finite_hm_dom[of m] by simp

lemma hm_eq_iff: "hm_eq a b \<longleftrightarrow> hm_get a = hm_get b"
proof
  assume eq: "hm_eq a b"
  have sub: "hm_get b k = Some v" if "hm_get a k = Some v" for k v
    using eq that unfolding hm_eq_def list_all_iff by (metis (mono_tags) case_prodD in_hm_iter_iff)
  then have "{k. hm_get a k \<noteq> None} \<subseteq> {k. hm_get b k \<noteq> None}" by auto
  moreover from eq have "card {k. hm_get a k \<noteq> None} = card {k. hm_get b k \<noteq> None}"
    by (simp only: hm_eq_def hm_len_eq_card)
  ultimately have dom: "{k. hm_get a k \<noteq> None} = {k. hm_get b k \<noteq> None}"
    by (intro card_subset_eq finite_hm_dom)
  show "hm_get a = hm_get b"
  proof
    fix k
    from dom have "hm_get a k = None \<longleftrightarrow> hm_get b k = None" by blast
    then show "hm_get a k = hm_get b k" using sub by (cases "hm_get a k") auto
  qed
next
  assume "hm_get a = hm_get b"
  then show "hm_eq a b"
    by (auto simp add: hm_eq_def hm_len_eq_card list_all_iff)
qed

lemma hm_eq_refl [simp]: "hm_eq m m"
  by (simp add: hm_eq_iff)

lemma hm_eq_sym: "hm_eq a b \<Longrightarrow> hm_eq b a"
  by (simp add: hm_eq_iff)

subsection \<open>Evaluation of closed maps\<close>

lemma hm_iter_new [simp, hm_eval]: "hm_iter hm_new = []"
  by (simp add: hm_iter_def hm_new_def DAList.empty.rep_eq)

lemma hm_iter_insert [hm_eval]: "hm_iter (hm_insert m k v) = AList.update k v (hm_iter m)"
  by (simp add: hm_iter_def hm_insert_def DAList.update.rep_eq)

lemma hm_iter_remove [hm_eval]: "hm_iter (hm_remove m k) = AList.delete k (hm_iter m)"
  by (simp add: hm_iter_def hm_remove_def DAList.delete.rep_eq)

lemma hm_iter_values_mut [hm_eval]:
  "hm_iter (hm_values_mut f m) = AList.map_ran (\<lambda>_. f) (hm_iter m)"
  by (simp add: hm_iter_def hm_values_mut.rep_eq)

lemma hm_iter_retain [hm_eval]:
  "hm_iter (hm_retain P m) = filter (\<lambda>(k, v). P k v) (hm_iter m)"
  by (simp add: hm_iter_def hm_retain.rep_eq)

lemmas hm_eval_defs [hm_eval] =
  hm_keys_def hm_values_def hm_len_def hm_is_empty_def hm_modify_or_insert_def

section \<open>The map interface\<close>

text \<open>
  What the program relies on of a map, whichever container implements it: a lookup sees
  the last insertion or removal of its key and nothing else. A loop that rewrites the
  entry of each key it visits, reading nothing but that entry, then has a result that
  does not depend on the order of the visit.
\<close>

locale map_api =
  fixes get :: "'m \<Rightarrow> 'k \<Rightarrow> 'v option"
    and ins :: "'m \<Rightarrow> 'k \<Rightarrow> 'v \<Rightarrow> 'm"
    and rem :: "'m \<Rightarrow> 'k \<Rightarrow> 'm"
  assumes get_ins: "get (ins m k v) k' = (if k' = k then Some v else get m k')"
    and get_rem: "get (rem m k) k' = (if k' = k then None else get m k')"
begin

lemma get_fold_ins:
  assumes "distinct ks"
  shows "get (fold (\<lambda>k m. ins m k (g k (get m k))) ks m) k =
    (if k \<in> set ks then Some (g k (get m k)) else get m k)"
  using assms by (induction ks arbitrary: m) (auto simp: get_ins)

lemma get_fold_ins_const:
  "get (fold (\<lambda>k m. ins m k v) ks m) k = (if k \<in> set ks then Some v else get m k)"
  by (induction ks arbitrary: m) (auto simp: get_ins)

lemma get_fold_rem:
  "get (fold (\<lambda>k m. rem m k) ks m) k = (if k \<in> set ks then None else get m k)"
  by (induction ks arbitrary: m) (auto simp: get_rem)

lemma get_fold_modify:
  assumes "distinct (map fst kvs)"
  shows "get (fold (\<lambda>(k, v) m. ins m k (case get m k of Some x \<Rightarrow> f v x | None \<Rightarrow> v)) kvs m) k =
    (case map_of kvs k of
       Some v \<Rightarrow> Some (case get m k of Some x \<Rightarrow> f v x | None \<Rightarrow> v)
     | None \<Rightarrow> get m k)"
  using assms
proof (induction kvs arbitrary: m)
  case (Cons kv kvs)
  obtain k0 v0 where kv: "kv = (k0, v0)" by (cases kv)
  have "map_of kvs k0 = None" using Cons.prems kv by (simp add: map_of_eq_None_iff)
  then show ?case using Cons by (auto simp: kv get_ins split: option.splits)
qed simp

end

interpretation hm: map_api hm_get hm_insert hm_remove
  by unfold_locales simp_all

text \<open>\<open>into_iter().collect()\<close> into a hash map.\<close>

definition hm_collect :: "('k \<times> 'v) list \<Rightarrow> ('k, 'v) hashmap" where
  "hm_collect kvs = fold (\<lambda>(k, v) m. hm_insert m k v) kvs hm_new"

lemma hm_get_collect [simp]:
  assumes "distinct (map fst kvs)"
  shows "hm_get (hm_collect kvs) k = map_of kvs k"
proof -
  have const: "(case x of None \<Rightarrow> v | Some _ \<Rightarrow> v) = v" for x :: "'c option" and v :: 'c
    by (cases x) simp_all
  show ?thesis using hm.get_fold_modify[OF assms, where f = "\<lambda>v x. v" and m = hm_new and k = k]
    by (simp add: hm_collect_def const split: option.splits)
qed

end
