(* ===== verification/Dots.thy ===== *)
theory Dots
  imports Prelude
begin

text \<open>
  Dots and dot sets (\<^verbatim>\<open>src/src/dots.rs\<close>, first half): a dot names one mutation by the
  process that made it and a counter; a \<open>DotSet\<close> is a version vector, the greatest
  counter seen of each process. The main facts: \<open>merge\<close> is the least upper bound of two
  version vectors, \<open>pointwise_min\<close> their greatest lower bound with a missing process
  read as \<open>-1\<close>, and \<open>increment_and_get\<close> hands out dots never seen before.
\<close>

section \<open>Dots\<close>

datatype dot = Dot (dot_pid: pid) (dot_counter: counter)

text \<open>The derived \<open>Ord\<close> of the struct: by process first, then by counter.\<close>

instantiation dot :: linorder
begin

definition less_eq_dot :: "dot \<Rightarrow> dot \<Rightarrow> bool" where
  "less_eq_dot a b \<longleftrightarrow>
     dot_pid a < dot_pid b \<or> dot_pid a = dot_pid b \<and> dot_counter a \<le> dot_counter b"

definition less_dot :: "dot \<Rightarrow> dot \<Rightarrow> bool" where
  "less_dot a b \<longleftrightarrow>
     dot_pid a < dot_pid b \<or> dot_pid a = dot_pid b \<and> dot_counter a < dot_counter b"

instance
  by standard (auto simp: less_eq_dot_def less_dot_def intro: dot.expand)

end

text \<open>The identifier under which the runtime files the garbage-collection epoch.\<close>

definition STABLE_REPLICA_PID :: pid where
  "STABLE_REPLICA_PID = 0"


section \<open>Dot sets\<close>

type_synonym dot_set = "(pid, counter) hashmap"

datatype ordering = Less | Equal | Greater

definition dotset_new :: dot_set where
  "dotset_new = hm_new"

definition dotset_eq :: "dot_set \<Rightarrow> dot_set \<Rightarrow> bool" where
  "dotset_eq self other = hm_eq self other"

definition dotset_get :: "dot_set \<Rightarrow> pid \<Rightarrow> counter" where
  "dotset_get self p = (case hm_get self p of Some c \<Rightarrow> c | None \<Rightarrow> -1)"

definition dotset_cmp :: "dot_set \<Rightarrow> dot_set \<Rightarrow> ordering" where
  "dotset_cmp self other =
     (let (has_lower, has_greater) =
        fold (\<lambda>(p, c) (lower, greater).
                if c > dotset_get other p then (lower, True)
                else if c < dotset_get other p then (True, greater)
                else (lower, greater))
             (hm_iter self) (False, False)
      in if has_lower \<and> has_greater then Equal
         else if has_lower then Less
         else Greater)"

definition dotset_merge :: "dot_set \<Rightarrow> dot_set \<Rightarrow> dot_set" where
  "dotset_merge self other =
     fold (\<lambda>(p, c) s. hm_modify_or_insert s p (\<lambda>c0. max c0 c) c) (hm_iter other) self"

definition set_counter :: "dot_set \<Rightarrow> pid \<Rightarrow> counter \<Rightarrow> dot_set" where
  "set_counter self p c = hm_insert self p c"

definition remove_pid :: "dot_set \<Rightarrow> pid \<Rightarrow> dot_set" where
  "remove_pid self p = hm_remove self p"

definition pids :: "dot_set \<Rightarrow> pid list" where
  "pids self = hm_keys self"

definition pointwise_min :: "dot_set \<Rightarrow> dot_set \<Rightarrow> dot_set" where
  "pointwise_min self other =
     fold (\<lambda>p s. set_counter s p (min (dotset_get s p) (dotset_get other p)))
          (remdups (pids self @ pids other)) self"

definition counter_of :: "dot_set \<Rightarrow> pid \<Rightarrow> counter option" where
  "counter_of self p = hm_get self p"

definition dotset_insert :: "dot_set \<Rightarrow> dot \<Rightarrow> dot_set exec" where
  "dotset_insert self d =
     (let inserted = hm_insert self (dot_pid d) (dot_counter d)
      in case hm_get self (dot_pid d) of
           Some previous_value \<Rightarrow>
             if i64_add previous_value 1 = dot_counter d then Done inserted
             else Panicked (AssertFailed ''DotSet in invalid state'')
         | None \<Rightarrow> Done (hm_insert inserted (dot_pid d) (dot_counter d)))"

definition increment_and_get :: "dot_set \<Rightarrow> pid \<Rightarrow> (dot_set \<times> dot) exec" where
  "increment_and_get self p =
     (case hm_get self p of
        Some count \<Rightarrow>
          (let count' = i64_add count 1 in Done (hm_insert self p count', Dot p count'))
      | None \<Rightarrow>
          (let d = Dot p 0
           in exec_bind (dotset_insert self d) (\<lambda>self'. Done (self', d))))"

definition is_concurrent_with :: "dot_set \<Rightarrow> dot_set \<Rightarrow> bool" where
  "is_concurrent_with self other \<longleftrightarrow> dotset_cmp self other = Equal"

definition dotset_contains :: "dot_set \<Rightarrow> dot \<Rightarrow> bool" where
  "dotset_contains self d =
     (case hm_get self (dot_pid d) of Some c \<Rightarrow> c \<ge> dot_counter d | None \<Rightarrow> False)"

definition gc_counter :: "dot_set \<Rightarrow> counter" where
  "gc_counter self = dotset_get self STABLE_REPLICA_PID"


section \<open>Lookup laws\<close>

lemma hm_get_dotset_new [simp]: "hm_get dotset_new p = None"
  by (simp add: dotset_new_def)

lemma hm_get_set_counter [simp]:
  "hm_get (set_counter s p c) q = (if q = p then Some c else hm_get s q)"
  by (simp add: set_counter_def)

lemma hm_get_remove_pid [simp]:
  "hm_get (remove_pid s p) q = (if q = p then None else hm_get s q)"
  by (simp add: remove_pid_def)

lemma dotset_get_set_counter [simp]:
  "dotset_get (set_counter s p c) q = (if q = p then c else dotset_get s q)"
  by (simp add: dotset_get_def)

lemma dotset_get_remove_pid [simp]:
  "dotset_get (remove_pid s p) q = (if q = p then -1 else dotset_get s q)"
  by (simp add: dotset_get_def)

lemma gc_counter_set_counter [simp]:
  "gc_counter (set_counter s p c) = (if p = STABLE_REPLICA_PID then c else gc_counter s)"
  by (simp add: gc_counter_def)

lemma dotset_eq_iff: "dotset_eq a b \<longleftrightarrow> hm_get a = hm_get b"
  by (simp add: dotset_eq_def hm_eq_iff)

lemma dotset_contains_get:
  "dotset_contains s d \<longleftrightarrow> hm_get s (dot_pid d) \<noteq> None \<and> dot_counter d \<le> dotset_get s (dot_pid d)"
  by (auto simp: dotset_contains_def dotset_get_def split: option.splits)

lemma dotset_contains_nonneg:
  "0 \<le> dot_counter d \<Longrightarrow> dotset_contains s d \<longleftrightarrow> dot_counter d \<le> dotset_get s (dot_pid d)"
  by (auto simp: dotset_contains_def dotset_get_def split: option.splits)

lemma hm_get_merge [simp]:
  "hm_get (dotset_merge a b) p =
    (case hm_get b p of
       Some c \<Rightarrow> Some (case hm_get a p of Some c0 \<Rightarrow> max c0 c | None \<Rightarrow> c)
     | None \<Rightarrow> hm_get a p)"
  unfolding dotset_merge_def hm_modify_or_insert_def
  by (subst hm.get_fold_modify[where f = "\<lambda>c c0. max c0 c"]) (simp_all add: hm_get_iter[symmetric])

lemma hm_get_pointwise_min [simp]:
  "hm_get (pointwise_min a b) p =
    (if hm_get a p = None \<and> hm_get b p = None then None
     else Some (min (dotset_get a p) (dotset_get b p)))"
  unfolding pointwise_min_def set_counter_def dotset_get_def
  by (subst hm.get_fold_ins[where
        g = "\<lambda>p x. min (case x of Some c \<Rightarrow> c | None \<Rightarrow> -1) (case hm_get b p of Some c \<Rightarrow> c | None \<Rightarrow> -1)"])
    (auto simp: pids_def)

lemma dotset_get_pointwise_min [simp]:
  "dotset_get (pointwise_min a b) p = min (dotset_get a p) (dotset_get b p)"
  by (auto simp: dotset_get_def[of "pointwise_min a b"]) (simp_all add: dotset_get_def)

lemma dotset_contains_merge [simp]:
  "dotset_contains (dotset_merge a b) d \<longleftrightarrow> dotset_contains a d \<or> dotset_contains b d"
  by (auto simp: dotset_contains_def split: option.splits)


section \<open>The order of version vectors\<close>

text \<open>One version vector is below another when every dot it contains is in the other.\<close>

definition dotset_le :: "dot_set \<Rightarrow> dot_set \<Rightarrow> bool" where
  "dotset_le a b \<longleftrightarrow> (\<forall>d. dotset_contains a d \<longrightarrow> dotset_contains b d)"

text \<open>
  The contract of a join of observed sets: it observes what either side observed. Merging
  then is a least upper bound, commutative, associative and idempotent up to what is
  observed, which is what lets replicas exchange version vectors in any order.
\<close>

locale observed_join =
  fixes observes :: "'s \<Rightarrow> 'd \<Rightarrow> bool"
    and join :: "'s \<Rightarrow> 's \<Rightarrow> 's"
  assumes observes_join: "observes (join a b) d \<longleftrightarrow> observes a d \<or> observes b d"
begin

definition below :: "'s \<Rightarrow> 's \<Rightarrow> bool" where
  "below a b \<longleftrightarrow> (\<forall>d. observes a d \<longrightarrow> observes b d)"

lemma below_refl: "below a a"
  by (simp add: below_def)

lemma below_trans: "below a b \<Longrightarrow> below b c \<Longrightarrow> below a c"
  by (simp add: below_def)

lemma join_least: "below (join a b) c \<longleftrightarrow> below a c \<and> below b c"
  by (auto simp: below_def observes_join)

lemma join_commute: "observes (join a b) = observes (join b a)"
  by (auto simp: observes_join)

lemma join_assoc: "observes (join (join a b) c) = observes (join a (join b c))"
  by (auto simp: observes_join)

lemma join_idem: "observes (join a a) = observes a"
  by (auto simp: observes_join)

lemma fold_join_commute: "observes (fold (\<lambda>x acc. join acc x) xs a) d \<longleftrightarrow>
    observes a d \<or> (\<exists>x\<in>set xs. observes x d)"
  by (induction xs arbitrary: a) (auto simp: observes_join)

end

interpretation vv: observed_join dotset_contains dotset_merge
  rewrites "observed_join.below dotset_contains = dotset_le"
proof -
  show "observed_join dotset_contains dotset_merge" by unfold_locales simp
  then show "observed_join.below dotset_contains = dotset_le"
    by (simp add: observed_join.below_def dotset_le_def fun_eq_iff)
qed

lemma dotset_le_iff:
  "dotset_le a b \<longleftrightarrow>
   (\<forall>p c. hm_get a p = Some c \<longrightarrow> (\<exists>c'. hm_get b p = Some c' \<and> c \<le> c'))"
proof
  assume le: "dotset_le a b"
  show "\<forall>p c. hm_get a p = Some c \<longrightarrow> (\<exists>c'. hm_get b p = Some c' \<and> c \<le> c')"
  proof (intro allI impI)
    fix p c assume "hm_get a p = Some c"
    then have "dotset_contains a (Dot p c)" by (simp add: dotset_contains_def)
    with le have "dotset_contains b (Dot p c)" by (simp add: dotset_le_def)
    then show "\<exists>c'. hm_get b p = Some c' \<and> c \<le> c'"
      by (auto simp: dotset_contains_def split: option.splits)
  qed
qed (fastforce simp: dotset_le_def dotset_contains_def split: option.splits)

lemma dotset_le_contains: "dotset_le a b \<Longrightarrow> dotset_contains a d \<Longrightarrow> dotset_contains b d"
  by (simp add: dotset_le_def)


section \<open>Operations on every branch\<close>

lemma dotset_insert_Done_iff:
  "dotset_insert s d = Done t \<longleftrightarrow>
    (\<forall>c. hm_get s (dot_pid d) = Some c \<longrightarrow> dot_counter d = i64_add c 1) \<and>
    t = (case hm_get s (dot_pid d) of
           Some _ \<Rightarrow> hm_insert s (dot_pid d) (dot_counter d)
         | None \<Rightarrow> hm_insert (hm_insert s (dot_pid d) (dot_counter d)) (dot_pid d) (dot_counter d))"
  by (auto simp: dotset_insert_def Let_def split: option.splits)

lemma hm_get_dotset_insert:
  "dotset_insert s d = Done t \<Longrightarrow>
   hm_get t p = (if p = dot_pid d then Some (dot_counter d) else hm_get s p)"
  by (auto simp: dotset_insert_Done_iff split: option.splits)

lemma dotset_insert_succeeds:
  "(case hm_get s (dot_pid d) of Some c \<Rightarrow> dot_counter d = i64_add c 1 | None \<Rightarrow> True) \<Longrightarrow>
   \<exists>t. dotset_insert s d = Done t"
  by (auto simp: dotset_insert_def Let_def split: option.splits)

lemma increment_and_get_total:
  "\<exists>t. increment_and_get s p = Done (t, Dot p (i64_add (dotset_get s p) 1)) \<and>
       (\<forall>q. hm_get t q = (if q = p then Some (i64_add (dotset_get s p) 1) else hm_get s q))"
proof (cases "hm_get s p")
  case None
  then show ?thesis
    by (simp add: increment_and_get_def Let_def dotset_insert_def dotset_get_def i64_add_def)
next
  case (Some c)
  then show ?thesis by (simp add: increment_and_get_def Let_def dotset_get_def)
qed


text \<open>Building a version vector from a list of entries, for closed examples.\<close>

definition dotset_of :: "(pid \<times> counter) list \<Rightarrow> dot_set" where
  "dotset_of entries = fold (\<lambda>(p, c) s. set_counter s p c) entries dotset_new"


section \<open>Properties\<close>

text \<open>
  Merging version vectors is a least upper bound. A merged vector contains exactly the
  dots of its two arguments, and it is below a vector exactly when both arguments are.
\<close>

theorem merge_least_upper_bound:
  "(dotset_contains (dotset_merge a b) d \<longleftrightarrow> dotset_contains a d \<or> dotset_contains b d) \<and>
   (dotset_le (dotset_merge a b) c \<longleftrightarrow> dotset_le a c \<and> dotset_le b c)"
  by (simp add: vv.join_least)

text \<open>
  \<open>pointwise_min\<close> is the pointwise minimum in which a process missing on one side counts
  as \<open>-1\<close>, and it records every process of either side.
\<close>

theorem pointwise_min_spec:
  "dotset_get (pointwise_min a b) p = min (dotset_get a p) (dotset_get b p) \<and>
   (counter_of (pointwise_min a b) p = None \<longleftrightarrow> counter_of a p = None \<and> counter_of b p = None)"
  by (simp add: counter_of_def)

text \<open>
  Below the largest \<open>i64\<close>, \<open>increment_and_get\<close> never panics and returns the next dot of
  the process: one the vector did not contain and now does, while every dot it contained
  stays contained.
\<close>

theorem increment_and_get_fresh:
  assumes "is_i64 (dotset_get s p)" "dotset_get s p < i64_max"
  shows "\<exists>t d. increment_and_get s p = Done (t, d) \<and> d = Dot p (dotset_get s p + 1) \<and>
    \<not> dotset_contains s d \<and> dotset_contains t d \<and> dotset_le s t"
proof -
  let ?c = "dotset_get s p + 1"
  obtain t where t: "increment_and_get s p = Done (t, Dot p ?c)"
    "\<And>q. hm_get t q = (if q = p then Some ?c else hm_get s q)"
    using increment_and_get_total[of s p] i64_add_1[OF assms] by auto
  have "\<not> dotset_contains s (Dot p ?c)" by (simp add: dotset_contains_get)
  moreover have "dotset_contains t (Dot p ?c)" by (simp add: dotset_contains_def t)
  moreover have "dotset_le s t" by (auto simp: dotset_le_iff t dotset_get_def)
  ultimately show ?thesis using t(1) by blast
qed

theorem increment_and_get_fresh_witness:
  "is_i64 (dotset_get (dotset_of [(5, 3)]) 5) \<and> dotset_get (dotset_of [(5, 3)]) 5 < i64_max \<and>
   (\<exists>t d. increment_and_get (dotset_of [(5, 3)]) 5 = Done (t, d) \<and>
      d = Dot 5 (dotset_get (dotset_of [(5, 3)]) 5 + 1) \<and>
      \<not> dotset_contains (dotset_of [(5, 3)]) d \<and> dotset_contains t d \<and> dotset_le (dotset_of [(5, 3)]) t)"
proof -
  have h: "is_i64 (dotset_get (dotset_of [(5, 3)]) 5)" "dotset_get (dotset_of [(5, 3)]) 5 < i64_max"
    by (simp_all add: dotset_of_def is_i64_def)
  show ?thesis using h increment_and_get_fresh[OF h] by blast
qed

text \<open>
  \<open>DotSet::insert\<close> succeeds exactly on a process it has no entry for or on the very next
  counter of one it has; any gap or repetition trips the assertion \<open>DotSet in invalid state\<close>.
\<close>

theorem dotset_insert_contiguous:
  "(case hm_get s p of
      None \<Rightarrow> \<exists>t. dotset_insert s (Dot p c) = Done t \<and> hm_get t = (hm_get s)(p \<mapsto> c)
    | Some previous \<Rightarrow>
        (if c = i64_add previous 1
         then \<exists>t. dotset_insert s (Dot p c) = Done t \<and> hm_get t = (hm_get s)(p \<mapsto> c)
         else dotset_insert s (Dot p c) = Panicked (AssertFailed ''DotSet in invalid state'')))"
  by (auto simp: dotset_insert_def Let_def fun_eq_iff split: option.splits)

text \<open>
  \<open>is_concurrent_with\<close> is not the concurrency its documentation promises. It only looks
  at the processes of its own side, so two vectors that each contain a dot the other lacks
  may be reported as ordered; and the order of a vector with itself is \<open>Greater\<close>.
\<close>

theorem is_concurrent_with_incomplete:
  "\<not> dotset_le (dotset_of [(1, 0)]) (dotset_of [(2, 0)]) \<and>
   \<not> dotset_le (dotset_of [(2, 0)]) (dotset_of [(1, 0)]) \<and>
   \<not> is_concurrent_with (dotset_of [(1, 0)]) (dotset_of [(2, 0)]) \<and>
   dotset_cmp (dotset_of [(1, 0)]) (dotset_of [(1, 0)]) = Greater"
  by (simp add: dotset_le_iff dotset_of_def set_counter_def is_concurrent_with_def dotset_cmp_def
      dotset_get_def hm_eval dotset_new_def)

end
