(* ===== verification/Version_Matrix.thy ===== *)
theory Version_Matrix
  imports Dots
begin

text \<open>
  The version matrix (\<^verbatim>\<open>src/src/dots.rs\<close>, \<open>VersionMatrix\<close>): what this replica knows
  about what every replica has seen. Row \<open>p\<close> is the last version vector received from
  \<open>p\<close>; the row \<open>STABLE_REPLICA_PID\<close> is the frontier of the last garbage collection.
  The stable frontier is the pointwise minimum of the rows of all replicas that still take
  part; a departed replica is dropped only when its final dot is below an installed frontier.
\<close>

section \<open>State and operations\<close>

record version_matrix =
  own_pid :: pid
  matrix :: "(pid, dot_set) hashmap"
  final_dots :: "(pid, counter) hashmap"

definition vm_new :: "pid \<Rightarrow> version_matrix" where
  "vm_new p =
     (let initial_vector = set_counter (set_counter dotset_new p (-1)) STABLE_REPLICA_PID (-1)
      in \<lparr>own_pid = p, matrix = hm_insert hm_new p initial_vector, final_dots = hm_new\<rparr>)"

definition vm_update :: "version_matrix \<Rightarrow> pid \<Rightarrow> dot_set \<Rightarrow> version_matrix exec" where
  "vm_update self p version_vector =
     exec_bind (unwrap (hm_get (matrix self) (own_pid self))) (\<lambda>own_row.
       if gc_counter own_row \<le> gc_counter version_vector
       then Done (self\<lparr>matrix := hm_insert (matrix self) p version_vector\<rparr>)
       else Done self)"

definition vm_insert_pid :: "version_matrix \<Rightarrow> pid \<Rightarrow> counter \<Rightarrow> version_matrix" where
  "vm_insert_pid self p gc =
     (if p = STABLE_REPLICA_PID then self
      else case hm_get (matrix self) p of
             Some _ \<Rightarrow> self
           | None \<Rightarrow>
               self\<lparr>matrix := hm_insert (matrix self) p
                  (set_counter (set_counter dotset_new p (-1)) STABLE_REPLICA_PID gc)\<rparr>)"

definition vm_rebind_own_pid :: "version_matrix \<Rightarrow> pid \<Rightarrow> dot_set \<Rightarrow> version_matrix" where
  "vm_rebind_own_pid self p version_vector =
     self\<lparr>own_pid := p, matrix := hm_insert (matrix self) p version_vector\<rparr>"

definition own_gc_counter :: "version_matrix \<Rightarrow> counter exec" where
  "own_gc_counter self =
     exec_map (\<lambda>row. dotset_get row STABLE_REPLICA_PID) (unwrap (hm_get (matrix self) (own_pid self)))"

text \<open>The body of the loop of \<open>remove_pids\<close>, for one process.\<close>

definition vm_forget_pid :: "version_matrix \<Rightarrow> pid \<Rightarrow> version_matrix" where
  "vm_forget_pid self p =
     self\<lparr>matrix := hm_values_mut (\<lambda>version_vector. hm_remove version_vector p)
                     (hm_remove (matrix self) p),
          final_dots := hm_remove (final_dots self) p\<rparr>"

definition vm_remove_pids_step :: "dot_set \<Rightarrow> pid \<Rightarrow> version_matrix \<Rightarrow> version_matrix" where
  "vm_remove_pids_step stable_vv p self =
     (case hm_get (final_dots self) p of
        Some c \<Rightarrow> if \<not> dotset_contains stable_vv (Dot p c) then self else vm_forget_pid self p
      | None \<Rightarrow> vm_forget_pid self p)"

definition vm_remove_pids :: "version_matrix \<Rightarrow> pid list \<Rightarrow> version_matrix" where
  "vm_remove_pids self ps =
     (case hm_get (matrix self) STABLE_REPLICA_PID of
        Some stable_vv \<Rightarrow> fold (vm_remove_pids_step stable_vv) ps self
      | None \<Rightarrow> self)"

definition vm_apply_gc_marker ::
  "version_matrix \<Rightarrow> dot_set \<Rightarrow> pid list option \<Rightarrow> counter \<Rightarrow> version_matrix exec" where
  "vm_apply_gc_marker self stable_ds departed_pids gc =
     (let self1 = (case departed_pids of Some ps \<Rightarrow> vm_remove_pids self ps | None \<Rightarrow> self);
          stable_vv = set_counter stable_ds STABLE_REPLICA_PID gc;
          self2 = self1\<lparr>matrix := hm_insert (matrix self1) STABLE_REPLICA_PID stable_vv\<rparr>
      in exec_bind (expect ''version matrix must contain its own row''
                      (hm_get (matrix self2) (own_pid self2))) (\<lambda>row.
           Done (self2\<lparr>matrix := hm_insert (matrix self2) (own_pid self2)
                          (set_counter row STABLE_REPLICA_PID gc)\<rparr>)))"

definition get_observer_rows :: "version_matrix \<Rightarrow> (pid \<times> dot_set) list exec" where
  "get_observer_rows self =
     exec_bind (unwrap (hm_get (matrix self) (own_pid self))) (\<lambda>own_vv.
       Done (filter (\<lambda>(p, vv).
               p \<noteq> STABLE_REPLICA_PID \<and>
               \<not> (case hm_get (final_dots self) p of
                     Some final_counter \<Rightarrow> dotset_contains own_vv (Dot p final_counter)
                   | None \<Rightarrow> False))
             (hm_iter (matrix self))))"

definition vm_departed_pids :: "version_matrix \<Rightarrow> pid list" where
  "vm_departed_pids self =
     (case hm_get (matrix self) STABLE_REPLICA_PID of
        Some stable_vv \<Rightarrow>
          sort (map fst (filter (\<lambda>(p, final_counter). dotset_contains stable_vv (Dot p final_counter))
                               (hm_iter (final_dots self))))
      | None \<Rightarrow> [])"

definition vm_frontier :: "(pid \<times> dot_set) list \<Rightarrow> dot_set" where
  "vm_frontier observer_rows =
     (let stable_ds = fold (\<lambda>(_, vv) s. pointwise_min s vv) (tl observer_rows)
                        (snd (hd observer_rows))
      in fold (\<lambda>(p, _) s. if counter_of s p = None then set_counter s p (-1) else s)
              observer_rows stable_ds)"

definition get_stable :: "version_matrix \<Rightarrow> (dot_set option \<times> pid list option) exec" where
  "get_stable self =
     exec_bind (get_observer_rows self) (\<lambda>observer_rows.
       if observer_rows = [] then Done (None, None)
       else
         (let stable_ds = vm_frontier observer_rows;
              departed_pids = vm_departed_pids self;
              stable_ds' = fold (\<lambda>p s. remove_pid s p) departed_pids stable_ds
          in Done (Some stable_ds', if departed_pids \<noteq> [] then Some departed_pids else None)))"

definition insert_final_dot :: "version_matrix \<Rightarrow> dot \<Rightarrow> version_matrix" where
  "insert_final_dot self d =
     self\<lparr>final_dots := hm_insert (final_dots self) (dot_pid d) (dot_counter d)\<rparr>"

definition contains_final_dot :: "version_matrix \<Rightarrow> dot \<Rightarrow> bool" where
  "contains_final_dot self d \<longleftrightarrow> hm_get (final_dots self) (dot_pid d) = Some (dot_counter d)"

lemmas vm_defs =
  vm_new_def vm_update_def vm_insert_pid_def vm_rebind_own_pid_def insert_final_dot_def


section \<open>The own row\<close>

text \<open>
  Every operation that reads the own row unwraps it; the invariant of the matrix is that
  the own row is there, and that the own identifier is not the reserved one.
\<close>

definition vm_inv :: "version_matrix \<Rightarrow> bool" where
  "vm_inv m \<longleftrightarrow> hm_get (matrix m) (own_pid m) \<noteq> None \<and> own_pid m \<noteq> STABLE_REPLICA_PID"

lemma vm_inv_own_row: "vm_inv m \<Longrightarrow> \<exists>row. hm_get (matrix m) (own_pid m) = Some row"
  by (simp add: vm_inv_def)

lemma vm_inv_new: "p \<noteq> STABLE_REPLICA_PID \<Longrightarrow> vm_inv (vm_new p)"
  by (simp add: vm_inv_def vm_new_def Let_def)

lemma vm_update_Done:
  assumes "vm_inv m"
  shows "\<exists>m'. vm_update m p v = Done m' \<and> vm_inv m'"
proof -
  from vm_inv_own_row[OF assms] obtain row where row: "hm_get (matrix m) (own_pid m) = Some row" ..
  show ?thesis
  proof (cases "gc_counter row \<le> gc_counter v")
    case True
    then show ?thesis using assms row by (simp add: vm_update_def vm_inv_def)
  next
    case False
    then show ?thesis using assms row by (simp add: vm_update_def vm_inv_def)
  qed
qed

lemma vm_inv_insert_pid: "vm_inv m \<Longrightarrow> vm_inv (vm_insert_pid m p gc)"
  by (auto simp: vm_inv_def vm_insert_pid_def split: option.splits)

lemma vm_inv_rebind: "p \<noteq> STABLE_REPLICA_PID \<Longrightarrow> vm_inv (vm_rebind_own_pid m p v)"
  by (simp add: vm_inv_def vm_rebind_own_pid_def)

lemma vm_inv_insert_final_dot: "vm_inv m \<Longrightarrow> vm_inv (insert_final_dot m d)"
  by (simp add: vm_inv_def insert_final_dot_def)

lemma own_pid_remove_pids_step [simp]: "own_pid (vm_remove_pids_step vv p m) = own_pid m"
  by (simp add: vm_remove_pids_step_def vm_forget_pid_def split: option.splits)

lemma own_pid_fold_remove_pids [simp]: "own_pid (fold (vm_remove_pids_step vv) ps m) = own_pid m"
  by (induction ps arbitrary: m) auto

lemma own_pid_remove_pids [simp]: "own_pid (vm_remove_pids m ps) = own_pid m"
  by (simp add: vm_remove_pids_def split: option.splits)

lemma row_remove_pids_step:
  "hm_get (matrix m) q = Some row \<Longrightarrow> q \<noteq> p \<Longrightarrow>
   hm_get (matrix (vm_remove_pids_step vv p m)) q = Some row \<or>
   hm_get (matrix (vm_remove_pids_step vv p m)) q = Some (hm_remove row p)"
  by (auto simp: vm_remove_pids_step_def vm_forget_pid_def split: option.splits)

lemma row_fold_remove_pids:
  "hm_get (matrix m) q \<noteq> None \<Longrightarrow> q \<notin> set ps \<Longrightarrow>
   hm_get (matrix (fold (vm_remove_pids_step vv) ps m)) q \<noteq> None"
proof (induction ps arbitrary: m)
  case (Cons p ps)
  then have "hm_get (matrix (vm_remove_pids_step vv p m)) q \<noteq> None"
    by (metis list.set_intros(1) not_Some_eq row_remove_pids_step)
  with Cons show ?case by simp
qed simp

lemma vm_inv_remove_pids:
  "vm_inv m \<Longrightarrow> own_pid m \<notin> set ps \<Longrightarrow> vm_inv (vm_remove_pids m ps)"
  using row_fold_remove_pids[of m "own_pid m" ps]
  by (simp add: vm_inv_def vm_remove_pids_def split: option.splits)


section \<open>The stable frontier\<close>

text \<open>The rows that take part in the frontier, as a predicate on the matrix.\<close>

definition observer :: "version_matrix \<Rightarrow> pid \<Rightarrow> dot_set \<Rightarrow> bool" where
  "observer m p vv \<longleftrightarrow> hm_get (matrix m) p = Some vv \<and> p \<noteq> STABLE_REPLICA_PID \<and>
     (\<forall>own c. hm_get (matrix m) (own_pid m) = Some own \<longrightarrow> hm_get (final_dots m) p = Some c \<longrightarrow>
        \<not> dotset_contains own (Dot p c))"

lemma get_observer_rows_set:
  assumes "get_observer_rows m = Done rows"
  shows "(p, vv) \<in> set rows \<longleftrightarrow> observer m p vv"
  using assms
  by (auto simp: get_observer_rows_def observer_def exec_simps split: option.splits)

lemma get_observer_rows_distinct:
  "get_observer_rows m = Done rows \<Longrightarrow> distinct (map fst rows)"
  by (auto simp: get_observer_rows_def exec_simps distinct_map_fst_filter)

lemma get_observer_rows_Done: "vm_inv m \<Longrightarrow> \<exists>rows. get_observer_rows m = Done rows"
  by (auto simp: get_observer_rows_def vm_inv_def)

lemma get_fold_pointwise_min:
  "dotset_get (fold (\<lambda>(_, vv) s. pointwise_min s vv) rows s0) p =
   Min (insert (dotset_get s0 p) ((\<lambda>(_, vv). dotset_get vv p) ` set rows))"
proof (induction rows arbitrary: s0)
  case (Cons r rows)
  obtain q vv where r: "r = (q, vv)" by (cases r)
  let ?A = "(\<lambda>(_, vv). dotset_get vv p) ` set rows"
  have "dotset_get (fold (\<lambda>(_, vv) s. pointwise_min s vv) (r # rows) s0) p =
        Min (insert (min (dotset_get s0 p) (dotset_get vv p)) ?A)"
    using Cons[of "pointwise_min s0 vv"] by (simp add: r)
  also have "\<dots> = Min (insert (dotset_get s0 p) (insert (dotset_get vv p) ?A))"
    by (cases "?A = {}") (simp_all add: min.assoc)
  finally show ?case by (simp add: r)
qed simp

lemma fold_default_counter:
  "hm_get (fold (\<lambda>(q, _) s. if counter_of s q = None then set_counter s q (-1) else s) rows s0) p =
   (if hm_get s0 p = None \<and> p \<in> fst ` set rows then Some (-1) else hm_get s0 p)"
proof (induction rows arbitrary: s0)
  case (Cons r rows)
  obtain q vv where r: "r = (q, vv)" by (cases r)
  show ?case
    using Cons by (cases "hm_get s0 q") (auto simp: r counter_of_def simp del: not_None_eq)
qed simp

lemma dotset_get_frontier:
  assumes "rows \<noteq> []"
  shows "dotset_get (vm_frontier rows) p = Min ((\<lambda>(_, vv). dotset_get vv p) ` set rows)"
proof -
  obtain r rs where rows: "rows = r # rs" using assms by (cases rows) auto
  let ?s = "fold (\<lambda>(_, vv) s. pointwise_min s vv) rs (snd r)"
  have "dotset_get (vm_frontier rows) p = dotset_get ?s p"
    by (simp only: vm_frontier_def Let_def rows dotset_get_def fold_default_counter list.sel)
      (simp split: option.splits)
  also have "\<dots> = Min (insert (dotset_get (snd r) p) ((\<lambda>(_, vv). dotset_get vv p) ` set rs))"
    by (rule get_fold_pointwise_min)
  finally show ?thesis by (simp add: rows split_beta)
qed

lemma frontier_le_row:
  assumes "(q, vv) \<in> set rows"
  shows "dotset_get (vm_frontier rows) p \<le> dotset_get vv p"
proof -
  from assms have "rows \<noteq> []" by auto
  then show ?thesis using assms by (auto simp: dotset_get_frontier intro: Min_le)
qed

lemma frontier_attained:
  assumes "rows \<noteq> []"
  shows "\<exists>(q, vv)\<in>set rows. dotset_get (vm_frontier rows) p = dotset_get vv p"
proof -
  have "dotset_get (vm_frontier rows) p \<in> (\<lambda>(_, vv). dotset_get vv p) ` set rows"
    unfolding dotset_get_frontier[OF assms] using assms by (intro Min_in) auto
  then show ?thesis by auto
qed

lemma frontier_ge_iff:
  assumes "rows \<noteq> []"
  shows "c \<le> dotset_get (vm_frontier rows) p \<longleftrightarrow> (\<forall>(q, vv)\<in>set rows. c \<le> dotset_get vv p)"
  using assms by (auto simp: dotset_get_frontier)

subsection \<open>Departed replicas\<close>

lemma set_departed_pids:
  "p \<in> set (vm_departed_pids m) \<longleftrightarrow>
    (\<exists>stable_vv c. hm_get (matrix m) STABLE_REPLICA_PID = Some stable_vv \<and>
       hm_get (final_dots m) p = Some c \<and> dotset_contains stable_vv (Dot p c))"
  by (force simp: vm_departed_pids_def split: option.splits)

lemma sorted_departed_pids: "sorted (vm_departed_pids m)"
  by (simp add: vm_departed_pids_def split: option.splits)

lemma distinct_departed_pids: "distinct (vm_departed_pids m)"
  by (simp add: vm_departed_pids_def distinct_map_fst_filter split: option.splits)

lemma get_stable_Some:
  assumes "get_stable m = Done (Some st, departed)"
  shows "\<exists>rows. get_observer_rows m = Done rows \<and> rows \<noteq> [] \<and>
    st = fold (\<lambda>p s. remove_pid s p) (vm_departed_pids m) (vm_frontier rows) \<and>
    departed = (if vm_departed_pids m \<noteq> [] then Some (vm_departed_pids m) else None)"
  using assms by (auto simp: get_stable_def exec_simps Let_def split: if_splits)

lemma dotset_get_stable:
  assumes "get_stable m = Done (Some st, departed)"
    and "get_observer_rows m = Done rows"
  shows "dotset_get st p =
    (if p \<in> set (vm_departed_pids m) then -1 else dotset_get (vm_frontier rows) p)"
proof -
  from get_stable_Some[OF assms(1)] assms(2)
  have st: "st = fold (\<lambda>p s. hm_remove s p) (vm_departed_pids m) (vm_frontier rows)"
    by (simp add: remove_pid_def)
  show ?thesis unfolding st dotset_get_def hm.get_fold_rem by simp
qed

lemma get_stable_Done: "vm_inv m \<Longrightarrow> \<exists>r. get_stable m = Done r"
  using get_observer_rows_Done[of m] by (auto simp: get_stable_def Let_def)

lemma get_stable_None_iff:
  assumes "vm_inv m"
  shows "(\<exists>departed. get_stable m = Done (None, departed)) \<longleftrightarrow> (\<forall>p vv. \<not> observer m p vv)"
proof -
  obtain rows where rows: "get_observer_rows m = Done rows"
    using get_observer_rows_Done[OF assms] ..
  have "(\<exists>departed. get_stable m = Done (None, departed)) \<longleftrightarrow> rows = []"
    by (simp add: get_stable_def rows Let_def)
  also have "\<dots> \<longleftrightarrow> (\<forall>p vv. (p, vv) \<notin> set rows)" by (cases rows) auto
  finally show ?thesis by (simp add: get_observer_rows_set[OF rows])
qed


section \<open>Forgetting departed replicas\<close>

lemma vm_forget_pid_gone:
  "hm_get (matrix (vm_forget_pid m p)) p = None"
  "hm_get (final_dots (vm_forget_pid m p)) p = None"
  "hm_get (matrix (vm_forget_pid m p)) q = Some row \<Longrightarrow> hm_get row p = None"
  by (auto simp: vm_forget_pid_def split: if_splits)

text \<open>Nothing of process \<open>p\<close> is left in the matrix.\<close>

definition vm_forgotten :: "version_matrix \<Rightarrow> pid \<Rightarrow> bool" where
  "vm_forgotten m p \<longleftrightarrow> hm_get (matrix m) p = None \<and> hm_get (final_dots m) p = None \<and>
     (\<forall>q row. hm_get (matrix m) q = Some row \<longrightarrow> hm_get row p = None)"

lemma vm_forgotten_step: "vm_forgotten m p \<Longrightarrow> vm_forgotten (vm_remove_pids_step vv q m) p"
  by (auto simp: vm_forgotten_def vm_remove_pids_step_def vm_forget_pid_def
      split: option.splits if_splits)

lemma vm_forgotten_fold: "vm_forgotten m p \<Longrightarrow> vm_forgotten (fold (vm_remove_pids_step vv) ps m) p"
  by (induction ps arbitrary: m) (auto intro: vm_forgotten_step)

lemma final_dots_step:
  "hm_get (final_dots (vm_remove_pids_step vv q m)) p = hm_get (final_dots m) p \<or>
   hm_get (final_dots (vm_remove_pids_step vv q m)) p = None"
  by (auto simp: vm_remove_pids_step_def vm_forget_pid_def split: option.splits)

lemma fold_remove_pids_forgotten:
  assumes "p \<in> set ps"
    and "\<forall>c. hm_get (final_dots m) p = Some c \<longrightarrow> dotset_contains vv (Dot p c)"
  shows "vm_forgotten (fold (vm_remove_pids_step vv) ps m) p"
  using assms
proof (induction ps arbitrary: m)
  case (Cons q ps)
  let ?m = "vm_remove_pids_step vv q m"
  show ?case
  proof (cases "p = q")
    case True
    with Cons.prems have "vm_forgotten ?m p"
      by (auto simp: vm_remove_pids_step_def vm_forgotten_def vm_forget_pid_gone split: option.splits)
    then show ?thesis by (simp add: vm_forgotten_fold)
  next
    case False
    with Cons.prems have "p \<in> set ps" by simp
    moreover have "\<forall>c. hm_get (final_dots ?m) p = Some c \<longrightarrow> dotset_contains vv (Dot p c)"
      using Cons.prems(2) final_dots_step[of vv q m p] by auto
    ultimately show ?thesis using Cons.IH by simp
  qed
qed simp

lemma vm_remove_pids_forgotten:
  assumes "p \<in> set ps" and "hm_get (matrix m) STABLE_REPLICA_PID = Some vv"
    and "\<forall>c. hm_get (final_dots m) p = Some c \<longrightarrow> dotset_contains vv (Dot p c)"
  shows "vm_forgotten (vm_remove_pids m ps) p"
  using fold_remove_pids_forgotten[OF assms(1,3)] by (simp add: vm_remove_pids_def assms(2))


section \<open>Applying a marker\<close>

definition departed_list :: "pid list option \<Rightarrow> pid list" where
  "departed_list departed = (case departed of Some ps \<Rightarrow> ps | None \<Rightarrow> [])"

lemma departed_list_simps [simp]: "departed_list None = []" "departed_list (Some ps) = ps"
  by (simp_all add: departed_list_def)

text \<open>The matrix after the departed replicas of a marker have been dropped.\<close>

definition vm_drop_departed :: "version_matrix \<Rightarrow> pid list option \<Rightarrow> version_matrix" where
  "vm_drop_departed m departed = (case departed of Some ps \<Rightarrow> vm_remove_pids m ps | None \<Rightarrow> m)"

lemma own_pid_drop_departed [simp]: "own_pid (vm_drop_departed m departed) = own_pid m"
  by (simp add: vm_drop_departed_def split: option.splits)

lemma vm_inv_drop_departed:
  "vm_inv m \<Longrightarrow> own_pid m \<notin> set (departed_list departed) \<Longrightarrow> vm_inv (vm_drop_departed m departed)"
  by (cases departed) (simp_all add: vm_drop_departed_def vm_inv_remove_pids)

lemma vm_apply_gc_marker_eq:
  "vm_apply_gc_marker m st departed gc =
   (let m1 = vm_drop_departed m departed;
        rows = hm_insert (matrix m1) STABLE_REPLICA_PID (set_counter st STABLE_REPLICA_PID gc)
    in case hm_get rows (own_pid m) of
         Some row \<Rightarrow> Done (m1\<lparr>matrix := hm_insert rows (own_pid m) (set_counter row STABLE_REPLICA_PID gc)\<rparr>)
       | None \<Rightarrow> Panicked (ExpectFailed ''version matrix must contain its own row''))"
proof -
  have fold_drop: "(case departed of Some ps \<Rightarrow> vm_remove_pids m ps | None \<Rightarrow> m) = vm_drop_departed m departed"
    by (simp add: vm_drop_departed_def)
  show ?thesis
    by (simp only: vm_apply_gc_marker_def Let_def fold_drop) (auto split: option.splits)
qed

lemma vm_apply_gc_marker_Done:
  assumes "vm_inv m" and "own_pid m \<notin> set (departed_list departed)"
  obtains m' own_row where "vm_apply_gc_marker m st departed gc = Done m'"
    and "own_pid m' = own_pid m"
    and "final_dots m' = final_dots (vm_drop_departed m departed)"
    and "hm_get (matrix (vm_drop_departed m departed)) (own_pid m) = Some own_row"
    and "\<And>p. hm_get (matrix m') p =
      (if p = own_pid m then Some (set_counter own_row STABLE_REPLICA_PID gc)
       else if p = STABLE_REPLICA_PID then Some (set_counter st STABLE_REPLICA_PID gc)
       else hm_get (matrix (vm_drop_departed m departed)) p)"
proof -
  let ?m1 = "vm_drop_departed m departed"
  from vm_inv_drop_departed[OF assms] obtain row
    where row: "hm_get (matrix ?m1) (own_pid m) = Some row" "own_pid m \<noteq> STABLE_REPLICA_PID"
    by (auto simp: vm_inv_def)
  show ?thesis
  proof (rule that)
    show "vm_apply_gc_marker m st departed gc =
      Done (?m1\<lparr>matrix := hm_insert (hm_insert (matrix ?m1) STABLE_REPLICA_PID
              (set_counter st STABLE_REPLICA_PID gc)) (own_pid m) (set_counter row STABLE_REPLICA_PID gc)\<rparr>)"
      using row by (simp add: vm_apply_gc_marker_eq Let_def)
  qed (use row in auto)
qed

lemma vm_apply_gc_marker_inv:
  assumes "vm_inv m" "own_pid m \<notin> set (departed_list departed)"
    "vm_apply_gc_marker m st departed gc = Done m'"
  shows "vm_inv m' \<and> own_pid m' = own_pid m \<and>
    (\<exists>row. hm_get (matrix m') (own_pid m') = Some row \<and> gc_counter row = gc)"
  by (rule vm_apply_gc_marker_Done[OF assms(1,2), of st gc])
    (use assms in \<open>auto simp: vm_inv_def\<close>)

lemma vm_apply_gc_marker_own_departed:
  assumes "vm_inv m" "hm_get (matrix m) STABLE_REPLICA_PID = Some stable_vv"
    and "own_pid m \<in> set ps"
    and "\<forall>c. hm_get (final_dots m) (own_pid m) = Some c \<longrightarrow> dotset_contains stable_vv (Dot (own_pid m) c)"
  shows "vm_apply_gc_marker m st (Some ps) gc =
    Panicked (ExpectFailed ''version matrix must contain its own row'')"
proof -
  have "vm_forgotten (vm_remove_pids m ps) (own_pid m)"
    using vm_remove_pids_forgotten[OF assms(3,2,4)] .
  then show ?thesis using assms(1)
    by (simp add: vm_apply_gc_marker_eq vm_drop_departed_def vm_forgotten_def vm_inv_def Let_def)
qed

lemma vm_apply_gc_marker_forgotten:
  assumes "vm_inv m" "own_pid m \<notin> set ps" "p \<in> set ps" "p \<noteq> STABLE_REPLICA_PID"
    and "hm_get st p = None" "hm_get (matrix m) STABLE_REPLICA_PID = Some stable_vv"
    and "\<forall>c. hm_get (final_dots m) p = Some c \<longrightarrow> dotset_contains stable_vv (Dot p c)"
    and "vm_apply_gc_marker m st (Some ps) gc = Done m'"
  shows "vm_forgotten m' p"
proof -
  have gone: "vm_forgotten (vm_remove_pids m ps) p"
    using vm_remove_pids_forgotten[OF assms(3,6,7)] .
  show ?thesis
    by (rule vm_apply_gc_marker_Done[OF assms(1), of "Some ps" st gc])
      (use assms gone in \<open>auto simp: vm_forgotten_def vm_drop_departed_def split: if_splits\<close>)
qed


section \<open>Properties\<close>

text \<open>A matrix of three replicas after some exchange, for closed examples.\<close>

definition example_matrix :: version_matrix where
  "example_matrix =
     \<lparr>own_pid = 1,
      matrix = hm_insert (hm_insert (hm_insert (hm_insert hm_new
          1 (dotset_of [(0, 0), (1, 4), (2, 5), (3, 2)]))
          2 (dotset_of [(0, 0), (1, 1), (2, 5), (3, 0)]))
          3 (dotset_of [(0, 0), (1, 3), (2, 5), (3, 2)]))
          0 (dotset_of [(0, 0), (1, 1), (2, 5), (3, 0)]),
      final_dots = hm_insert hm_new 2 5\<rparr>"

lemma example_matrix_inv: "vm_inv example_matrix"
  by code_simp

lemma example_matrix_stable:
  "get_stable example_matrix = Done (Some (dotset_of [(0, 0), (1, 3), (3, 2)]), Some [2])"
  by code_simp

text \<open>
  C5: the stable frontier is exact. For a process that is not reported as departed, a dot
  is in the frontier exactly when every observing row contains it: nothing is collected
  that an observer still misses, and everything all observers have seen is covered.
\<close>

theorem stable_frontier_exact:
  assumes "get_stable m = Done (Some st, departed)"
    and "dot_pid d \<notin> set (departed_list departed)" and "0 \<le> dot_counter d"
  shows "dotset_contains st d \<longleftrightarrow> (\<forall>p vv. observer m p vv \<longrightarrow> dotset_contains vv d)"
proof -
  obtain rows where rows: "get_observer_rows m = Done rows" "rows \<noteq> []"
    and dep: "departed = (if vm_departed_pids m \<noteq> [] then Some (vm_departed_pids m) else None)"
    using get_stable_Some[OF assms(1)] by blast
  have "dot_pid d \<notin> set (vm_departed_pids m)"
    using assms(2) by (auto simp: dep split: if_splits)
  then have "dotset_contains st d \<longleftrightarrow> dot_counter d \<le> dotset_get (vm_frontier rows) (dot_pid d)"
    by (simp add: dotset_contains_nonneg[OF assms(3)] dotset_get_stable[OF assms(1) rows(1)])
  also have "\<dots> \<longleftrightarrow> (\<forall>(q, vv)\<in>set rows. dotset_contains vv d)"
    by (simp add: frontier_ge_iff[OF rows(2)] dotset_contains_nonneg[OF assms(3)])
  finally show ?thesis using get_observer_rows_set[OF rows(1)] by fast
qed

theorem stable_frontier_exact_witness:
  "get_stable example_matrix = Done (Some (dotset_of [(0, 0), (1, 3), (3, 2)]), Some [2]) \<and>
   dot_pid (Dot 1 3) \<notin> set (departed_list (Some [2])) \<and> (0::int) \<le> dot_counter (Dot 1 3) \<and>
   (dotset_contains (dotset_of [(0, 0), (1, 3), (3, 2)]) (Dot 1 3) \<longleftrightarrow>
     (\<forall>p vv. observer example_matrix p vv \<longrightarrow> dotset_contains vv (Dot 1 3)))"
  using stable_frontier_exact[OF example_matrix_stable, of "Dot 1 3"] example_matrix_stable by simp

text \<open>
  \<open>get_stable\<close> reports a replica as departed exactly when its final dot is recorded and
  below the frontier that an earlier collection installed (departure takes two rounds);
  the report is sorted, without repetition, and the frontier has no column for it.
\<close>

theorem departed_report_exact:
  assumes "get_stable m = Done (Some st, departed)"
  shows "set (departed_list departed) =
      {p. \<exists>installed c. hm_get (matrix m) STABLE_REPLICA_PID = Some installed \<and>
         hm_get (final_dots m) p = Some c \<and> dotset_contains installed (Dot p c)} \<and>
    sorted (departed_list departed) \<and> distinct (departed_list departed) \<and>
    departed \<noteq> Some [] \<and> (\<forall>p \<in> set (departed_list departed). counter_of st p = None)"
proof -
  obtain rows where st: "st = fold (\<lambda>p s. hm_remove s p) (vm_departed_pids m) (vm_frontier rows)"
    and dep: "departed = (if vm_departed_pids m \<noteq> [] then Some (vm_departed_pids m) else None)"
    using get_stable_Some[OF assms] by (auto simp: remove_pid_def)
  have "departed_list departed = vm_departed_pids m" "departed \<noteq> Some []" by (simp_all add: dep)
  then show ?thesis
    by (simp add: set_departed_pids[symmetric] sorted_departed_pids distinct_departed_pids
        counter_of_def st hm.get_fold_rem) (auto simp: set_departed_pids)
qed

theorem departed_report_exact_witness:
  "get_stable example_matrix = Done (Some (dotset_of [(0, 0), (1, 3), (3, 2)]), Some [2]) \<and>
   set (departed_list (Some [2])) =
      {p. \<exists>installed c. hm_get (matrix example_matrix) STABLE_REPLICA_PID = Some installed \<and>
         hm_get (final_dots example_matrix) p = Some c \<and> dotset_contains installed (Dot p c)} \<and>
    sorted (departed_list (Some [2::pid])) \<and> distinct (departed_list (Some [2::pid])) \<and>
    Some [2] \<noteq> Some ([] :: pid list) \<and>
    counter_of (dotset_of [(0, 0), (1, 3), (3, 2)]) 2 = None"
proof -
  have "(2::pid) \<in> set (departed_list (Some [2]))" by simp
  then show ?thesis using departed_report_exact[OF example_matrix_stable] example_matrix_stable by blast
qed

text \<open>
  Applying the marker of a round forgets each replica the round reported as departed:
  its row, its final dot and its column in every remaining row are gone, and it is not
  reported again by the next \<open>get_stable\<close>.
\<close>

theorem departed_replica_forgotten:
  assumes "vm_inv m" and "get_stable m = Done (Some st, Some ps)"
    and "p \<in> set ps" "p \<noteq> STABLE_REPLICA_PID" "own_pid m \<notin> set ps"
  shows "\<exists>m'. vm_apply_gc_marker m st (Some ps) gc = Done m' \<and> vm_inv m' \<and> vm_forgotten m' p \<and>
    p \<notin> set (vm_departed_pids m')"
proof -
  have own: "own_pid m \<notin> set (departed_list (Some ps))" using assms(5) by simp
  obtain m' where m': "vm_apply_gc_marker m st (Some ps) gc = Done m'"
    by (rule vm_apply_gc_marker_Done[OF assms(1) own])
  obtain rows where st: "st = fold (\<lambda>p s. hm_remove s p) (vm_departed_pids m) (vm_frontier rows)"
    and ps: "ps = vm_departed_pids m"
    using get_stable_Some[OF assms(2)] by (auto simp: remove_pid_def split: if_splits)
  have none: "hm_get st p = None" using assms(3) by (simp add: st ps hm.get_fold_rem)
  obtain installed c where "hm_get (matrix m) STABLE_REPLICA_PID = Some installed"
    "hm_get (final_dots m) p = Some c" "dotset_contains installed (Dot p c)"
    using assms(3) by (auto simp: ps set_departed_pids)
  then have "vm_forgotten m' p"
    using vm_apply_gc_marker_forgotten[OF assms(1,5,3,4) none _ _ m'] by simp
  moreover from this have "p \<notin> set (vm_departed_pids m')"
    by (simp add: vm_forgotten_def set_departed_pids)
  ultimately show ?thesis using m' vm_apply_gc_marker_inv[OF assms(1) own m'] by blast
qed

theorem departed_replica_forgotten_witness:
  "vm_inv example_matrix \<and>
   get_stable example_matrix = Done (Some (dotset_of [(0, 0), (1, 3), (3, 2)]), Some [2]) \<and>
   (2::pid) \<in> set [2] \<and> 2 \<noteq> STABLE_REPLICA_PID \<and> own_pid example_matrix \<notin> set [2] \<and>
   (\<exists>m'. vm_apply_gc_marker example_matrix (dotset_of [(0, 0), (1, 3), (3, 2)]) (Some [2]) 1 = Done m' \<and>
      vm_inv m' \<and> vm_forgotten m' 2 \<and> 2 \<notin> set (vm_departed_pids m'))"
proof -
  have h: "(2::pid) \<in> set [2]" "2 \<noteq> STABLE_REPLICA_PID" "own_pid example_matrix \<notin> set [2]"
    by (simp_all add: STABLE_REPLICA_PID_def example_matrix_def)
  show ?thesis
    using departed_replica_forgotten[OF example_matrix_inv example_matrix_stable h, of 1]
      example_matrix_inv example_matrix_stable h by blast
qed

text \<open>
  The own row survives. Every operation on a matrix that has its own row succeeds and
  keeps that row, collections included as long as the own replica is not among the
  departed.
\<close>

theorem own_row_invariant:
  assumes "vm_inv m"
  shows "(\<exists>m'. vm_update m p vv = Done m' \<and> vm_inv m') \<and>
    vm_inv (vm_insert_pid m p gc) \<and> vm_inv (insert_final_dot m d) \<and>
    (p \<noteq> STABLE_REPLICA_PID \<longrightarrow> vm_inv (vm_rebind_own_pid m p vv)) \<and>
    (own_pid m \<notin> set ps \<longrightarrow> vm_inv (vm_remove_pids m ps) \<and>
       (\<exists>m'. vm_apply_gc_marker m vv (Some ps) gc = Done m' \<and> vm_inv m')) \<and>
    (\<exists>r. get_stable m = Done r)"
proof -
  have "\<exists>m'. vm_apply_gc_marker m vv (Some ps) gc = Done m' \<and> vm_inv m'" if "own_pid m \<notin> set ps"
  proof -
    have own: "own_pid m \<notin> set (departed_list (Some ps))" using that by simp
    obtain m' where "vm_apply_gc_marker m vv (Some ps) gc = Done m'"
      by (rule vm_apply_gc_marker_Done[OF assms own])
    then show ?thesis using vm_apply_gc_marker_inv[OF assms own] by blast
  qed
  then show ?thesis
    using vm_update_Done[OF assms] vm_inv_insert_pid[OF assms] vm_inv_insert_final_dot[OF assms]
      vm_inv_rebind vm_inv_remove_pids[OF assms] get_stable_Done[OF assms] by blast
qed

theorem own_row_invariant_witness:
  "vm_inv example_matrix \<and>
   (\<exists>m'. vm_update example_matrix 2 (dotset_of [(0, 0), (2, 6)]) = Done m' \<and> vm_inv m') \<and>
   vm_inv (vm_insert_pid example_matrix 2 0) \<and> vm_inv (insert_final_dot example_matrix (Dot 3 2)) \<and>
   vm_inv (vm_rebind_own_pid example_matrix 2 (dotset_of [(0, 0), (2, 6)])) \<and>
   vm_inv (vm_remove_pids example_matrix [3]) \<and>
   (\<exists>m'. vm_apply_gc_marker example_matrix (dotset_of [(0, 0), (2, 6)]) (Some [3]) 0 = Done m' \<and> vm_inv m') \<and>
   (\<exists>r. get_stable example_matrix = Done r)"
proof -
  have "2 \<noteq> STABLE_REPLICA_PID" "own_pid example_matrix \<notin> set [3]"
    by (simp_all add: STABLE_REPLICA_PID_def example_matrix_def)
  then show ?thesis using own_row_invariant[OF example_matrix_inv] example_matrix_inv by blast
qed

text \<open>
  C34: a replica that is told its own departure dies. If the own identifier is among the
  departed of a marker and its recorded final dot, if any, is below the installed
  frontier, the own row is dropped and the collection panics. Nothing in
  \<open>get_stable\<close> keeps the own identifier out of the report.
\<close>

theorem own_departure_panics:
  assumes "vm_inv m" "hm_get (matrix m) STABLE_REPLICA_PID = Some installed"
    and "hm_get (final_dots m) (own_pid m) = Some c" "dotset_contains installed (Dot (own_pid m) c)"
    and "observer m q vv"
  shows "\<exists>st ps. get_stable m = Done (Some st, Some ps) \<and> own_pid m \<in> set ps \<and>
    vm_apply_gc_marker m st (Some ps) gc =
      Panicked (ExpectFailed ''version matrix must contain its own row'')"
proof -
  have own: "own_pid m \<in> set (vm_departed_pids m)" using assms(2-4) by (auto simp: set_departed_pids)
  obtain rows where rows: "get_observer_rows m = Done rows"
    using get_observer_rows_Done[OF assms(1)] ..
  have "(q, vv) \<in> set rows" using assms(5) get_observer_rows_set[OF rows] by simp
  then have "rows \<noteq> []" by auto
  moreover have "vm_departed_pids m \<noteq> []" using own by (metis empty_iff empty_set)
  ultimately obtain st where "get_stable m = Done (Some st, Some (vm_departed_pids m))"
    by (simp add: get_stable_def rows Let_def)
  moreover have "vm_apply_gc_marker m st (Some (vm_departed_pids m)) gc =
      Panicked (ExpectFailed ''version matrix must contain its own row'')"
    using assms(3,4) by (intro vm_apply_gc_marker_own_departed[OF assms(1,2) own]) simp
  ultimately show ?thesis using own by blast
qed

theorem own_departure_panics_witness:
  "\<exists>m installed c q vv. vm_inv m \<and> hm_get (matrix m) STABLE_REPLICA_PID = Some installed \<and>
     hm_get (final_dots m) (own_pid m) = Some c \<and> dotset_contains installed (Dot (own_pid m) c) \<and>
     observer m q vv \<and>
     (\<exists>st ps. get_stable m = Done (Some st, Some ps) \<and> own_pid m \<in> set ps \<and>
        vm_apply_gc_marker m st (Some ps) 1 =
          Panicked (ExpectFailed ''version matrix must contain its own row''))"
proof -
  let ?m = "example_matrix\<lparr>own_pid := 2\<rparr>"
  have h: "vm_inv ?m" "hm_get (matrix ?m) STABLE_REPLICA_PID = Some (dotset_of [(0, 0), (1, 1), (2, 5), (3, 0)])"
    "hm_get (final_dots ?m) (own_pid ?m) = Some 5"
    "dotset_contains (dotset_of [(0, 0), (1, 1), (2, 5), (3, 0)]) (Dot (own_pid ?m) 5)"
    by code_simp+
  have o: "observer ?m 1 (dotset_of [(0, 0), (1, 4), (2, 5), (3, 2)])"
    by (simp add: observer_def example_matrix_def STABLE_REPLICA_PID_def)
  show ?thesis using h o own_departure_panics[OF h o, of 1] by blast
qed

end
