(* ===== verification/Dot_Map.thy ===== *)
theory Dot_Map
  imports Dots "HOL-Library.Multiset"
begin

text \<open>
  The delta log (\<^verbatim>\<open>src/src/dots.rs\<close>, \<open>DotMap\<close>): per process, the dots of its mutations
  in the order they were logged, with a value each. Reads use the standard library's binary
  search; the main fact is that on a log whose counters increase it finds exactly the
  entries a version vector does not cover.
\<close>

section \<open>State and operations\<close>

type_synonym 'v dot_map = "(pid, (dot \<times> 'v) list) hashmap"

definition dotmap_new :: "'v dot_map" where
  "dotmap_new = hm_new"

definition dotmap_is_empty :: "'v dot_map \<Rightarrow> bool" where
  "dotmap_is_empty self = hm_is_empty self"

definition dotmap_len :: "'v dot_map \<Rightarrow> nat" where
  "dotmap_len self = sum_list (map length (hm_values self))"

definition dotmap_insert :: "'v dot_map \<Rightarrow> dot \<Rightarrow> 'v \<Rightarrow> 'v dot_map" where
  "dotmap_insert self d v =
     (let vec = (case hm_get self (dot_pid d) of Some vec \<Rightarrow> vec | None \<Rightarrow> [])
      in hm_insert self (dot_pid d) (vec @ [(d, v)]))"

text \<open>
  The standard library's \<open>binary_search_by\<close> for a key function: halve the window until it
  holds one element, then compare that element. \<open>Inr i\<close> is \<open>Ok(i)\<close>, \<open>Inl i\<close> is \<open>Err(i)\<close>.
\<close>

function bsearch_window :: "('a \<Rightarrow> int) \<Rightarrow> int \<Rightarrow> 'a list \<Rightarrow> nat \<Rightarrow> nat \<Rightarrow> nat" where
  "bsearch_window key k xs base n =
     (if n > 1 then
        (let half = n div 2; mid = base + half
         in bsearch_window key k xs (if key (xs ! mid) > k then base else mid) (n - half))
      else base)"
  by pat_completeness auto
termination
  by (relation "measure (\<lambda>(key, k, xs, base, n). n)") auto

declare bsearch_window.simps [simp del]

definition binary_search_by :: "('a \<Rightarrow> int) \<Rightarrow> int \<Rightarrow> 'a list \<Rightarrow> nat + nat" where
  "binary_search_by key k xs =
     (if xs = [] then Inl 0
      else
        (let base = bsearch_window key k xs 0 (length xs); x = key (xs ! base)
         in if x = k then Inr base else if x < k then Inl (base + 1) else Inl base))"

definition get_greater_iter :: "'v dot_map \<Rightarrow> dot \<Rightarrow> (dot \<times> 'v) list" where
  "get_greater_iter self d =
     (case hm_get self (dot_pid d) of
        Some all_entries \<Rightarrow>
          (let idx = (case binary_search_by (\<lambda>(x, _). dot_counter x) (dot_counter d) all_entries of
                        Inr pos \<Rightarrow> pos + 1
                      | Inl pos \<Rightarrow> pos)
           in drop idx all_entries)
      | None \<Rightarrow> [])"

definition get_all_greater_iter :: "'v dot_map \<Rightarrow> dot_set \<Rightarrow> (dot \<times> 'v) list" where
  "get_all_greater_iter self dots =
     concat (map (\<lambda>(p, c). get_greater_iter self (Dot p c)) (hm_iter dots)) @
     concat (map (\<lambda>(p, vec). if hm_contains_key dots p then [] else vec) (hm_iter self))"

definition dotmap_retain :: "(dot \<Rightarrow> 'v \<Rightarrow> bool) \<Rightarrow> 'v dot_map \<Rightarrow> 'v dot_map" where
  "dotmap_retain predicate self =
     hm_retain (\<lambda>_ values. values \<noteq> [])
       (hm_values_mut (filter (\<lambda>(d, v). predicate d v)) self)"


section \<open>Binary search\<close>

abbreviation keys_increasing :: "('a \<Rightarrow> int) \<Rightarrow> 'a list \<Rightarrow> bool" where
  "keys_increasing key xs \<equiv> sorted_wrt (\<lambda>a b. key a < key b) xs"

text \<open>
  The window invariant: everything left of the window has a key at most \<open>k\<close>, everything
  right of it a key above \<open>k\<close>; the search then ends at the last key at most \<open>k\<close>, or at
  the first element when there is none.
\<close>

lemma bsearch_window_bounds:
  "0 < n \<Longrightarrow> base + n \<le> length xs \<Longrightarrow>
   base \<le> bsearch_window key k xs base n \<and> bsearch_window key k xs base n < base + n"
proof (induction key k xs base n rule: bsearch_window.induct)
  case (1 key k xs base n)
  show ?case
  proof (cases "n > 1")
    case True
    define b where "b = (if key (xs ! (base + n div 2)) > k then base else base + n div 2)"
    have rec: "bsearch_window key k xs base n = bsearch_window key k xs b (n - n div 2)"
      by (simp add: bsearch_window.simps[of key k xs base n] True Let_def b_def)
    have b: "base \<le> b" "b + (n - n div 2) \<le> base + n" "0 < n - n div 2"
      using True by (auto simp: b_def)
    have "b \<le> bsearch_window key k xs b (n - n div 2) \<and>
          bsearch_window key k xs b (n - n div 2) < b + (n - n div 2)"
      unfolding b_def
      by (rule "1.IH"[OF True refl refl]) (use b "1.prems" in \<open>auto simp: b_def\<close>)
    with b rec show ?thesis by simp
  next
    case False
    then show ?thesis using "1.prems" by (simp add: bsearch_window.simps[of key k xs base n])
  qed
qed

lemma bsearch_window_split:
  assumes "keys_increasing key xs"
  shows "0 < n \<Longrightarrow> base + n \<le> length xs \<Longrightarrow>
    (\<forall>i < base. key (xs ! i) \<le> k) \<Longrightarrow> (0 < base \<longrightarrow> key (xs ! base) \<le> k) \<Longrightarrow>
    (\<forall>i. base + n \<le> i \<and> i < length xs \<longrightarrow> k < key (xs ! i)) \<Longrightarrow>
    (\<forall>i < bsearch_window key k xs base n. key (xs ! i) \<le> k) \<and>
    (0 < bsearch_window key k xs base n \<longrightarrow> key (xs ! bsearch_window key k xs base n) \<le> k) \<and>
    (\<forall>i. bsearch_window key k xs base n < i \<and> i < length xs \<longrightarrow> k < key (xs ! i))"
  using assms
proof (induction key k xs base n rule: bsearch_window.induct)
  case (1 key k xs base n)
  note mono = sorted_wrt_nth_less[OF "1.prems"(6)]
  show ?case
  proof (cases "n > 1")
    case True
    let ?mid = "base + n div 2"
    define b where "b = (if key (xs ! ?mid) > k then base else ?mid)"
    have rec: "bsearch_window key k xs base n = bsearch_window key k xs b (n - n div 2)"
      by (simp add: bsearch_window.simps[of key k xs base n] True Let_def b_def)
    have mid: "?mid < length xs" "base < ?mid" using True "1.prems"(2) by linarith+
    have size: "0 < n - n div 2" "b + (n - n div 2) \<le> length xs"
      using True "1.prems"(2) by (auto simp: b_def)
    note IH = "1.IH"[OF True refl refl, folded b_def, OF size _ _ _ "1.prems"(6), folded rec]
    show ?thesis
    proof (cases "key (xs ! ?mid) > k")
      case gt: True
      then have b: "b = base" by (simp add: b_def)
      have right: "k < key (xs ! i)" if i: "b + (n - n div 2) \<le> i" "i < length xs" for i
      proof -
        from i have "?mid \<le> i" by (simp add: b)
        then show ?thesis using gt mono[of ?mid i] i by (cases "i = ?mid") auto
      qed
      show ?thesis by (rule IH) (use "1.prems"(3,4) right b in simp_all)
    next
      case le: False
      then have b: "b = ?mid" by (simp add: b_def)
      have left: "key (xs ! i) \<le> k" if "i < b" for i
        using le mono[of i ?mid] mid that by (simp add: b)
      have "b + (n - n div 2) = base + n" using True by (simp add: b)
      with "1.prems"(5) le left b show ?thesis by (intro IH) simp_all
    qed
  next
    case False
    then show ?thesis using "1.prems" by (simp add: bsearch_window.simps[of key k xs base n])
  qed
qed

text \<open>The index from which \<open>get_greater_iter\<close> copies.\<close>

definition greater_index :: "('a \<Rightarrow> int) \<Rightarrow> int \<Rightarrow> 'a list \<Rightarrow> nat" where
  "greater_index key k xs = (case binary_search_by key k xs of Inr pos \<Rightarrow> pos + 1 | Inl pos \<Rightarrow> pos)"

lemma greater_index_split:
  assumes "keys_increasing key xs"
  shows "(\<forall>i < greater_index key k xs. i < length xs \<longrightarrow> key (xs ! i) \<le> k) \<and>
    (\<forall>i. greater_index key k xs \<le> i \<and> i < length xs \<longrightarrow> k < key (xs ! i))"
proof (cases "xs = []")
  case False
  let ?b = "bsearch_window key k xs 0 (length xs)"
  have b: "(\<forall>i < ?b. key (xs ! i) \<le> k) \<and> (0 < ?b \<longrightarrow> key (xs ! ?b) \<le> k) \<and>
      (\<forall>i. ?b < i \<and> i < length xs \<longrightarrow> k < key (xs ! i))"
    using bsearch_window_split[OF assms, of "length xs" 0 k] False by simp
  have g: "greater_index key k xs = (if key (xs ! ?b) \<le> k then ?b + 1 else ?b)"
    using False by (simp add: greater_index_def binary_search_by_def Let_def)
  show ?thesis
  proof (cases "key (xs ! ?b) \<le> k")
    case True
    then show ?thesis using b by (auto simp: g less_Suc_eq)
  next
    case gt: False
    with b have "?b = 0" by auto
    then show ?thesis using b gt by (auto simp: g) (metis gr0I linorder_not_less)
  qed
qed (simp add: greater_index_def binary_search_by_def)

lemma drop_greater_index:
  assumes "keys_increasing key xs"
  shows "drop (greater_index key k xs) xs = filter (\<lambda>x. k < key x) xs"
proof -
  let ?g = "greater_index key k xs"
  note split = greater_index_split[OF assms, of k]
  have "filter (\<lambda>x. k < key x) (take ?g xs) = []"
    using split by (auto simp: filter_empty_conv in_set_conv_nth simp flip: not_le)
  moreover have "filter (\<lambda>x. k < key x) (drop ?g xs) = drop ?g xs"
    using split by (intro filter_True) (auto simp: in_set_conv_nth)
  ultimately show ?thesis
    by (metis append_Nil append_take_drop_id filter_append)
qed


section \<open>Well-formed logs\<close>

text \<open>Every chain holds dots of its own process, in increasing order, and is not empty.\<close>

definition dotmap_wf :: "'v dot_map \<Rightarrow> bool" where
  "dotmap_wf m \<longleftrightarrow> (\<forall>p vec. hm_get m p = Some vec \<longrightarrow>
     vec \<noteq> [] \<and> (\<forall>x \<in> set vec. dot_pid (fst x) = p) \<and> keys_increasing (\<lambda>x. dot_counter (fst x)) vec)"

text \<open>The logged pairs, and the chain of one process.\<close>

definition dotmap_entries :: "'v dot_map \<Rightarrow> (dot \<times> 'v) set" where
  "dotmap_entries m = (\<Union>vec \<in> set (hm_values m). set vec)"

definition dotmap_chain :: "'v dot_map \<Rightarrow> pid \<Rightarrow> (dot \<times> 'v) list" where
  "dotmap_chain m p = (case hm_get m p of Some vec \<Rightarrow> vec | None \<Rightarrow> [])"

lemma dotmap_chain_pid:
  "dotmap_wf m \<Longrightarrow> x \<in> set (dotmap_chain m p) \<Longrightarrow> dot_pid (fst x) = p"
  by (cases "hm_get m p") (auto simp: dotmap_wf_def dotmap_chain_def)

lemma dotmap_chain_increasing:
  "dotmap_wf m \<Longrightarrow> keys_increasing (\<lambda>x. dot_counter (fst x)) (dotmap_chain m p)"
  by (auto simp: dotmap_wf_def dotmap_chain_def split: option.splits)

lemma in_dotmap_entries_iff:
  assumes "dotmap_wf m"
  shows "(d, v) \<in> dotmap_entries m \<longleftrightarrow> (d, v) \<in> set (dotmap_chain m (dot_pid d))"
proof
  assume "(d, v) \<in> dotmap_entries m"
  then obtain p vec where vec: "hm_get m p = Some vec" "(d, v) \<in> set vec"
    by (auto simp: dotmap_entries_def)
  with assms have "dot_pid d = p" by (fastforce simp: dotmap_wf_def)
  with vec show "(d, v) \<in> set (dotmap_chain m (dot_pid d))" by (simp add: dotmap_chain_def)
next
  assume "(d, v) \<in> set (dotmap_chain m (dot_pid d))"
  then show "(d, v) \<in> dotmap_entries m"
    by (cases "hm_get m (dot_pid d)") (auto simp: dotmap_chain_def dotmap_entries_def)
qed

lemma dotmap_chain_distinct:
  assumes "dotmap_wf m"
  shows "distinct (map fst (dotmap_chain m p))"
proof -
  have "sorted_wrt (<) (map (dot_counter \<circ> fst) (dotmap_chain m p))"
    using dotmap_chain_increasing[OF assms] by (simp add: sorted_wrt_map comp_def)
  then have "distinct (map dot_counter (map fst (dotmap_chain m p)))"
    by (simp add: strict_sorted_iff)
  then show ?thesis by (rule distinct_map[THEN iffD1, THEN conjunct1])
qed

lemma dotmap_wf_new [simp]: "dotmap_wf dotmap_new"
  by (simp add: dotmap_wf_def dotmap_new_def)

lemma dotmap_chain_new [simp]: "dotmap_chain dotmap_new p = []"
  by (simp add: dotmap_chain_def dotmap_new_def)

lemma dotmap_chain_insert [simp]:
  "dotmap_chain (dotmap_insert m d v) p =
   (if p = dot_pid d then dotmap_chain m p @ [(d, v)] else dotmap_chain m p)"
  by (simp add: dotmap_chain_def dotmap_insert_def Let_def)

lemma dotmap_wf_insert:
  assumes "dotmap_wf m"
    and "\<And>d' v'. (d', v') \<in> set (dotmap_chain m (dot_pid d)) \<Longrightarrow> dot_counter d' < dot_counter d"
  shows "dotmap_wf (dotmap_insert m d v)"
  using assms
  by (fastforce simp: dotmap_wf_def dotmap_insert_def dotmap_chain_def Let_def sorted_wrt_append
      split: option.splits)

lemma dotmap_chain_retain [simp]:
  "dotmap_chain (dotmap_retain P m) p = filter (\<lambda>x. P (fst x) (snd x)) (dotmap_chain m p)"
  by (auto simp: dotmap_chain_def dotmap_retain_def split_beta' split: option.splits)

lemma dotmap_wf_retain: "dotmap_wf m \<Longrightarrow> dotmap_wf (dotmap_retain P m)"
  by (fastforce simp: dotmap_wf_def dotmap_retain_def sorted_wrt_filter split: option.splits if_splits)


section \<open>Reading the log\<close>

lemma get_greater_iter_eq:
  assumes "dotmap_wf m"
  shows "get_greater_iter m d =
    filter (\<lambda>x. dot_counter d < dot_counter (fst x)) (dotmap_chain m (dot_pid d))"
proof (cases "hm_get m (dot_pid d)")
  case (Some vec)
  let ?key = "\<lambda>x :: dot \<times> 'a. dot_counter (fst x)"
  have "get_greater_iter m d = drop (greater_index ?key (dot_counter d) vec) vec"
    by (simp add: get_greater_iter_def Some greater_index_def split_beta')
  also have "\<dots> = filter (\<lambda>x. dot_counter d < ?key x) vec"
    using assms Some by (intro drop_greater_index) (auto simp: dotmap_wf_def)
  finally show ?thesis by (simp add: dotmap_chain_def Some)
qed (simp add: get_greater_iter_def dotmap_chain_def)

lemma concat_map_key:
  "distinct (map fst kvs) \<Longrightarrow>
   concat (map (\<lambda>(k, v). if k = p then f v else []) kvs) =
     (case map_of kvs p of Some v \<Rightarrow> f v | None \<Rightarrow> [])"
proof (induction kvs)
  case (Cons kv kvs)
  then show ?case by (cases kv) (auto simp: map_of_eq_None_iff[symmetric] split: option.splits)
qed simp

lemma filter_chain_pid:
  assumes "dotmap_wf m"
  shows "filter (\<lambda>x. dot_pid (fst x) = p) (filter Q (dotmap_chain m q)) =
    (if q = p then filter Q (dotmap_chain m q) else [])"
proof (cases "q = p")
  case True
  then show ?thesis using dotmap_chain_pid[OF assms, of _ p] by (auto intro!: filter_cong)
next
  case False
  then show ?thesis using dotmap_chain_pid[OF assms, of _ q] by (auto simp: filter_empty_conv)
qed

text \<open>
  For each process, a read returns the uncovered part of its chain, in order: the entries
  of different processes may come in any order, those of one process never do.
\<close>

lemma get_all_greater_iter_by_pid:
  assumes "dotmap_wf m"
  shows "filter (\<lambda>x. dot_pid (fst x) = p) (get_all_greater_iter m ds) =
    filter (\<lambda>x. \<not> dotset_contains ds (fst x)) (dotmap_chain m p)"
proof -
  let ?P = "\<lambda>x :: dot \<times> 'a. dot_pid (fst x) = p"
  have vec: "filter ?P vec = (if q = p then vec else [])" if "hm_get m q = Some vec" for q vec
    using filter_chain_pid[OF assms, of p "\<lambda>_. True" q] that
    by (auto simp: dotmap_chain_def split: if_splits)
  have existing: "filter ?P (concat (map (\<lambda>(q, c). get_greater_iter m (Dot q c)) (hm_iter ds))) =
      (case hm_get ds p of Some c \<Rightarrow> filter (\<lambda>x. c < dot_counter (fst x)) (dotmap_chain m p) | None \<Rightarrow> [])"
  proof -
    have "filter ?P (concat (map (\<lambda>(q, c). get_greater_iter m (Dot q c)) (hm_iter ds))) =
      concat (map (\<lambda>(q, c). if q = p then filter (\<lambda>x. c < dot_counter (fst x)) (dotmap_chain m p) else [])
        (hm_iter ds))"
      by (auto simp: filter_concat comp_def get_greater_iter_eq[OF assms] filter_chain_pid[OF assms]
          simp del: filter_filter intro!: arg_cong[of _ _ concat])
    then show ?thesis by (simp add: concat_map_key hm_get_iter[symmetric])
  qed
  have missing: "filter ?P (concat (map (\<lambda>(q, vec). if hm_contains_key ds q then [] else vec) (hm_iter m))) =
      (if hm_get ds p = None then dotmap_chain m p else [])"
  proof -
    have "filter ?P (concat (map (\<lambda>(q, vec). if hm_contains_key ds q then [] else vec) (hm_iter m))) =
      concat (map (\<lambda>(q, vec). if q = p then (if hm_get ds p = None then vec else []) else []) (hm_iter m))"
      by (auto simp: filter_concat comp_def vec intro!: arg_cong[of _ _ concat])
    then show ?thesis by (simp add: concat_map_key hm_get_iter[symmetric] dotmap_chain_def split: option.splits)
  qed
  have cover: "dotset_contains ds d \<longleftrightarrow> (case hm_get ds p of Some c \<Rightarrow> \<not> c < dot_counter d | None \<Rightarrow> False)"
    if "(d, v) \<in> set (dotmap_chain m p)" for d v
    using dotmap_chain_pid[OF assms that] by (auto simp: dotset_contains_def split: option.splits)
  have "filter ?P (get_all_greater_iter m ds) =
      (case hm_get ds p of Some c \<Rightarrow> filter (\<lambda>x. c < dot_counter (fst x)) (dotmap_chain m p) | None \<Rightarrow> []) @
      (if hm_get ds p = None then dotmap_chain m p else [])"
    by (simp only: get_all_greater_iter_def filter_append existing missing)
  also have "\<dots> = filter (\<lambda>x. \<not> dotset_contains ds (fst x)) (dotmap_chain m p)"
    using cover by (cases "hm_get ds p") (auto intro!: filter_cong filter_True[symmetric])
  finally show ?thesis .
qed

lemma set_get_all_greater_iter:
  assumes "dotmap_wf m"
  shows "(d, v) \<in> set (get_all_greater_iter m ds) \<longleftrightarrow>
    (d, v) \<in> dotmap_entries m \<and> \<not> dotset_contains ds d"
proof -
  have "(d, v) \<in> set (get_all_greater_iter m ds) \<longleftrightarrow>
    (d, v) \<in> set (filter (\<lambda>x. dot_pid (fst x) = dot_pid d) (get_all_greater_iter m ds))"
    by simp
  also have "\<dots> \<longleftrightarrow> (d, v) \<in> set (dotmap_chain m (dot_pid d)) \<and> \<not> dotset_contains ds d"
    by (simp only: get_all_greater_iter_by_pid[OF assms]) simp
  finally show ?thesis by (simp add: in_dotmap_entries_iff[OF assms])
qed


section \<open>Properties\<close>

text \<open>A log with two processes, for closed examples.\<close>

definition example_log :: "nat dot_map" where
  "example_log = dotmap_insert (dotmap_insert (dotmap_insert (dotmap_insert dotmap_new
     (Dot 1 0) 10) (Dot 2 0) 20) (Dot 1 1) 11) (Dot 1 2) 12"

lemma example_log_wf: "dotmap_wf example_log"
  unfolding example_log_def by (intro dotmap_wf_insert dotmap_wf_new) (auto split: if_splits)

text \<open>
  C25: reading the log past a version vector is exact. On a log whose chains increase, the
  binary searches of \<open>get_all_greater_iter\<close> return, for every process and in the order of
  the log, exactly the entries whose dot the version vector does not contain, each once.
\<close>

theorem log_read_exact:
  assumes "dotmap_wf m"
  shows "filter (\<lambda>x. dot_pid (fst x) = p) (get_all_greater_iter m ds) =
      filter (\<lambda>x. \<not> dotset_contains ds (fst x)) (dotmap_chain m p) \<and>
    ((d, v) \<in> set (get_all_greater_iter m ds) \<longleftrightarrow>
      (d, v) \<in> dotmap_entries m \<and> \<not> dotset_contains ds d)"
  using get_all_greater_iter_by_pid[OF assms] set_get_all_greater_iter[OF assms] by blast

theorem log_read_exact_witness:
  "dotmap_wf example_log \<and>
   filter (\<lambda>x. dot_pid (fst x) = 1) (get_all_greater_iter example_log (dotset_of [(1, 0)])) =
     filter (\<lambda>x. \<not> dotset_contains (dotset_of [(1, 0)]) (fst x)) (dotmap_chain example_log 1) \<and>
   ((Dot 2 0, 20) \<in> set (get_all_greater_iter example_log (dotset_of [(1, 0)])) \<longleftrightarrow>
     (Dot 2 0, 20) \<in> dotmap_entries example_log \<and> \<not> dotset_contains (dotset_of [(1, 0)]) (Dot 2 0))"
  using example_log_wf log_read_exact[OF example_log_wf] by blast

text \<open>
  Garbage-collecting the log keeps it well formed and keeps, in order, exactly the
  entries the predicate accepts; a process without entries left has no chain at all.
\<close>

theorem log_retain_exact:
  assumes "dotmap_wf m"
  shows "dotmap_wf (dotmap_retain P m) \<and>
    dotmap_chain (dotmap_retain P m) p = filter (\<lambda>x. P (fst x) (snd x)) (dotmap_chain m p) \<and>
    (hm_get (dotmap_retain P m) p = None \<longleftrightarrow> (\<forall>(d, v) \<in> set (dotmap_chain m p). \<not> P d v))"
proof -
  have wf: "dotmap_wf (dotmap_retain P m)" by (rule dotmap_wf_retain[OF assms])
  then have "hm_get (dotmap_retain P m) p = None \<longleftrightarrow> dotmap_chain (dotmap_retain P m) p = []"
    by (cases "hm_get (dotmap_retain P m) p") (auto simp: dotmap_wf_def dotmap_chain_def)
  also have "\<dots> \<longleftrightarrow> (\<forall>(d, v) \<in> set (dotmap_chain m p). \<not> P d v)"
    by (auto simp: filter_empty_conv)
  finally show ?thesis using wf by simp
qed

theorem log_retain_exact_witness:
  "dotmap_wf example_log \<and> dotmap_wf (dotmap_retain (\<lambda>d _. 0 < dot_counter d) example_log) \<and>
   dotmap_chain (dotmap_retain (\<lambda>d _. 0 < dot_counter d) example_log) 2 =
     filter (\<lambda>x. 0 < dot_counter (fst x)) (dotmap_chain example_log 2) \<and>
   (hm_get (dotmap_retain (\<lambda>d _. 0 < dot_counter d) example_log) 2 = None \<longleftrightarrow>
     (\<forall>(d, v) \<in> set (dotmap_chain example_log 2). \<not> 0 < dot_counter d))"
  using example_log_wf log_retain_exact[OF example_log_wf, of "\<lambda>d _. 0 < dot_counter d" 2] by blast

end
