(* ===== verification/Crdt.thy ===== *)
theory Crdt
  imports Version_Matrix
begin

text \<open>
  The replication metadata kept beside every CRDT (\<^verbatim>\<open>src/src/crdt.rs\<close>): the messages
  replicas exchange, the \<open>CRDTWrapper\<close> with its version matrix and its garbage-collection
  markers, the \<open>PersistentReplica\<close> written to disk and to object storage, and the
  interface (\<open>trait CRDT\<close>) through which the runtime uses the application's data type.
\<close>

section \<open>Messages\<close>

record ('d, 'x) delta_group =
  dg_list :: "'d list"
  dg_side_effects :: "'x option"
  dg_version_vector :: dot_set

record gc_marker =
  gm_marker :: dot
  gm_stable :: dot_set
  gm_departed_pids :: "pid list option"

datatype ('d, 'x) replica_message =
    MsgDeltaGroup "('d, 'x) delta_group" gc_marker
  | MsgVersionVector pid dot_set

datatype ('m, 'q) client_request = Mutation 'm | Query 'q


section \<open>The interface of a CRDT\<close>

text \<open>
  The methods of the trait, as a record of functions the runtime's definitions take as an
  argument. \<open>mutate\<close> and \<open>merge_delta_group\<close> may panic.
\<close>

record ('s, 'd, 'x, 'q, 'm, 'r) crdt_ops =
  op_query :: "'s \<Rightarrow> 'q \<Rightarrow> 'r"
  op_set_pid :: "'s \<Rightarrow> pid \<Rightarrow> 's"
  op_mutate :: "'s \<Rightarrow> 'm \<Rightarrow> ('s \<times> 'r) exec"
  op_get_version_vector :: "'s \<Rightarrow> dot_set"
  op_get_delta :: "'s \<Rightarrow> dot_set \<Rightarrow> ('d, 'x) delta_group"
  op_merge_delta_group :: "'s \<Rightarrow> ('d, 'x) delta_group \<Rightarrow> 's exec"
  op_gc :: "'s \<Rightarrow> dot_set \<Rightarrow> pid list option \<Rightarrow> 's"

text \<open>
  What the runtime relies on when it assigns an identifier to a state it recovered or was given:
  \<open>set_pid\<close> changes who speaks for the state, not what the state holds.
\<close>

locale identified_crdt =
  fixes ops :: "('s, 'd, 'x, 'q, 'm, 'r) crdt_ops"
  assumes set_pid_query: "op_query ops (op_set_pid ops s p) q = op_query ops s q"
    and set_pid_version_vector: "op_get_version_vector ops (op_set_pid ops s p) = op_get_version_vector ops s"
    and set_pid_get_delta: "op_get_delta ops (op_set_pid ops s p) vv = op_get_delta ops s vv"


section \<open>The wrapper\<close>

definition INITIAL_GC_COUNTER :: counter where
  "INITIAL_GC_COUNTER = 0"

record crdt_wrapper =
  wr_version_matrix :: version_matrix
  wr_gc_markers :: "gc_marker list"

definition wrapper_new :: "pid \<Rightarrow> crdt_wrapper" where
  "wrapper_new p = \<lparr>wr_version_matrix = vm_new p, wr_gc_markers = []\<rparr>"

definition last_opt :: "'a list \<Rightarrow> 'a option" where
  "last_opt xs = (if xs = [] then None else Some (last xs))"

definition current_gc_marker :: "crdt_wrapper \<Rightarrow> dot" where
  "current_gc_marker self =
     (case last_opt (wr_gc_markers self) of
        Some marker \<Rightarrow> gm_marker marker
      | None \<Rightarrow> Dot STABLE_REPLICA_PID INITIAL_GC_COUNTER)"

definition next_gc_marker :: "crdt_wrapper \<Rightarrow> dot" where
  "next_gc_marker self =
     Dot STABLE_REPLICA_PID (i64_saturating_add (dot_counter (current_gc_marker self)) 1)"

definition last_stable :: "crdt_wrapper \<Rightarrow> dot_set option" where
  "last_stable self = map_option gm_stable (last_opt (wr_gc_markers self))"

definition wrapper_own_pid :: "crdt_wrapper \<Rightarrow> pid" where
  "wrapper_own_pid self = own_pid (wr_version_matrix self)"

definition update_own_version_vector ::
  "crdt_wrapper \<Rightarrow> dot_set \<Rightarrow> (crdt_wrapper \<times> dot_set) exec" where
  "update_own_version_vector self version_vector =
     (let vv = set_counter version_vector STABLE_REPLICA_PID (dot_counter (current_gc_marker self))
      in exec_bind (vm_update (wr_version_matrix self) (wrapper_own_pid self) vv) (\<lambda>m.
           Done (self\<lparr>wr_version_matrix := m\<rparr>, vv)))"

definition wrapper_rebind_own_pid :: "crdt_wrapper \<Rightarrow> pid \<Rightarrow> dot_set \<Rightarrow> crdt_wrapper" where
  "wrapper_rebind_own_pid self p version_vector =
     (let vv = set_counter version_vector STABLE_REPLICA_PID (dot_counter (current_gc_marker self))
      in self\<lparr>wr_version_matrix := vm_rebind_own_pid (wr_version_matrix self) p vv\<rparr>)"

definition observe_active_replica :: "crdt_wrapper \<Rightarrow> pid \<Rightarrow> counter \<Rightarrow> crdt_wrapper" where
  "observe_active_replica self p gc =
     (if p \<noteq> wrapper_own_pid self
      then self\<lparr>wr_version_matrix := vm_insert_pid (wr_version_matrix self) p gc\<rparr>
      else self)"

definition should_fetch_departed_replica :: "crdt_wrapper \<Rightarrow> dot \<Rightarrow> bool" where
  "should_fetch_departed_replica self final_dot =
     (\<not> contains_final_dot (wr_version_matrix self) final_dot)"

definition observe_departed_replica :: "crdt_wrapper \<Rightarrow> dot \<Rightarrow> crdt_wrapper" where
  "observe_departed_replica self final_dot =
     self\<lparr>wr_version_matrix := insert_final_dot (wr_version_matrix self) final_dot\<rparr>"

definition needs_gc :: "crdt_wrapper \<Rightarrow> bool exec" where
  "needs_gc self =
     exec_bind (get_stable (wr_version_matrix self)) (\<lambda>(now_stable, departed_pids).
       Done ((case now_stable of
                Some st \<Rightarrow> (case last_stable self of Some ls \<Rightarrow> \<not> dotset_eq ls st | None \<Rightarrow> True)
              | None \<Rightarrow> False) \<or> departed_pids \<noteq> None))"

definition push_gc_marker :: "crdt_wrapper \<Rightarrow> gc_marker \<Rightarrow> crdt_wrapper exec" where
  "push_gc_marker self marker =
     exec_bind (vm_apply_gc_marker (wr_version_matrix self) (gm_stable marker)
                  (gm_departed_pids marker) (dot_counter (gm_marker marker))) (\<lambda>m.
       Done (self\<lparr>wr_version_matrix := m, wr_gc_markers := wr_gc_markers self @ [marker]\<rparr>))"

definition gc_metadata :: "crdt_wrapper \<Rightarrow> gc_marker exec" where
  "gc_metadata self =
     (case last_opt (wr_gc_markers self) of
        Some marker \<Rightarrow> Done marker
      | None \<Rightarrow>
          exec_bind (get_stable (wr_version_matrix self)) (\<lambda>(now_stable, _).
            Done \<lparr>gm_marker = current_gc_marker self,
                  gm_stable = (case now_stable of Some st \<Rightarrow> st | None \<Rightarrow> dotset_new),
                  gm_departed_pids = None\<rparr>))"


section \<open>Persistent replicas\<close>

record 's persistent_replica =
  pr_local_state :: 's
  pr_crdt_wrapper :: crdt_wrapper

definition pr_rebind_own_pid ::
  "('s, 'd, 'x, 'q, 'm, 'r) crdt_ops \<Rightarrow> 's persistent_replica \<Rightarrow> pid \<Rightarrow> 's persistent_replica" where
  "pr_rebind_own_pid ops self p =
     (let local_state = op_set_pid ops (pr_local_state self) p;
          local_version_vector = op_get_version_vector ops local_state
      in \<lparr>pr_local_state = local_state,
          pr_crdt_wrapper = wrapper_rebind_own_pid (pr_crdt_wrapper self) p local_version_vector\<rparr>)"


section \<open>The invariant of the wrapper\<close>

text \<open>
  The matrix has its own row, the own row's epoch is not ahead of the current marker, and
  the markers' counters increase.
\<close>

definition marker_counters :: "crdt_wrapper \<Rightarrow> counter list" where
  "marker_counters w = map (\<lambda>m. dot_counter (gm_marker m)) (wr_gc_markers w)"

definition wrapper_inv :: "crdt_wrapper \<Rightarrow> bool" where
  "wrapper_inv w \<longleftrightarrow> vm_inv (wr_version_matrix w) \<and>
     (\<forall>row. hm_get (matrix (wr_version_matrix w)) (own_pid (wr_version_matrix w)) = Some row \<longrightarrow>
        gc_counter row \<le> dot_counter (current_gc_marker w)) \<and>
     sorted_wrt (<) (INITIAL_GC_COUNTER # marker_counters w)"

lemma last_opt_simps [simp]:
  "last_opt [] = None" "last_opt (xs @ [x]) = Some x"
  by (simp_all add: last_opt_def)

lemma current_gc_marker_push [simp]:
  "current_gc_marker (w\<lparr>wr_version_matrix := m, wr_gc_markers := ms @ [marker]\<rparr>) = gm_marker marker"
  by (simp add: current_gc_marker_def)

lemma current_gc_marker_matrix [simp]:
  "current_gc_marker (w\<lparr>wr_version_matrix := m\<rparr>) = current_gc_marker w"
  by (simp add: current_gc_marker_def)

lemma current_gc_counter_eq:
  "dot_counter (current_gc_marker w) = last (INITIAL_GC_COUNTER # marker_counters w)"
  by (simp add: current_gc_marker_def last_opt_def marker_counters_def last_map)

lemma marker_counters_le_current:
  "wrapper_inv w \<Longrightarrow> c \<in> set (marker_counters w) \<Longrightarrow> c \<le> dot_counter (current_gc_marker w)"
proof -
  assume inv: "wrapper_inv w" and c: "c \<in> set (marker_counters w)"
  have "sorted (INITIAL_GC_COUNTER # marker_counters w)"
    using inv by (auto simp: wrapper_inv_def intro: strict_sorted_imp_sorted)
  then show ?thesis using c by (cases "marker_counters w" rule: rev_cases)
      (auto simp: current_gc_counter_eq sorted_append)
qed

lemma wrapper_inv_new: "p \<noteq> STABLE_REPLICA_PID \<Longrightarrow> wrapper_inv (wrapper_new p)"
  by (simp add: wrapper_inv_def wrapper_new_def vm_inv_def marker_counters_def current_gc_marker_def
      vm_new_def Let_def INITIAL_GC_COUNTER_def)

lemma wrapper_inv_rebind:
  assumes "sorted_wrt (<) (INITIAL_GC_COUNTER # marker_counters w)" "p \<noteq> STABLE_REPLICA_PID"
  shows "wrapper_inv (wrapper_rebind_own_pid w p vv)"
  using assms
  by (simp add: wrapper_inv_def wrapper_rebind_own_pid_def Let_def vm_inv_def marker_counters_def
      vm_rebind_own_pid_def)

lemma update_own_version_vector_Done:
  assumes "wrapper_inv w"
  shows "\<exists>w'. update_own_version_vector w vv =
      Done (w', set_counter vv STABLE_REPLICA_PID (dot_counter (current_gc_marker w))) \<and>
    wrapper_inv w' \<and> wrapper_own_pid w' = wrapper_own_pid w \<and> wr_gc_markers w' = wr_gc_markers w \<and>
    (\<forall>p. hm_get (matrix (wr_version_matrix w')) p =
       (if p = wrapper_own_pid w
        then Some (set_counter vv STABLE_REPLICA_PID (dot_counter (current_gc_marker w)))
        else hm_get (matrix (wr_version_matrix w)) p))"
proof -
  let ?m = "wr_version_matrix w"
  let ?vv = "set_counter vv STABLE_REPLICA_PID (dot_counter (current_gc_marker w))"
  from assms obtain row where row: "hm_get (matrix ?m) (own_pid ?m) = Some row"
    and le: "gc_counter row \<le> dot_counter (current_gc_marker w)"
    by (auto simp: wrapper_inv_def vm_inv_def)
  have "vm_update ?m (wrapper_own_pid w) ?vv =
      Done (?m\<lparr>matrix := hm_insert (matrix ?m) (own_pid ?m) ?vv\<rparr>)"
    using row le by (simp add: vm_update_def wrapper_own_pid_def)
  then show ?thesis using assms
    by (simp add: update_own_version_vector_def Let_def wrapper_inv_def vm_inv_def marker_counters_def
        wrapper_own_pid_def)
qed

lemma wrapper_inv_observe_active: "wrapper_inv w \<Longrightarrow> wrapper_inv (observe_active_replica w p gc)"
  by (auto simp: wrapper_inv_def observe_active_replica_def vm_inv_def marker_counters_def
      vm_insert_pid_def wrapper_own_pid_def split: option.splits)

lemma wrapper_inv_observe_departed: "wrapper_inv w \<Longrightarrow> wrapper_inv (observe_departed_replica w d)"
  by (auto simp: wrapper_inv_def observe_departed_replica_def vm_inv_def
      marker_counters_def insert_final_dot_def)


lemma push_gc_marker_Done:
  assumes "wrapper_inv w" and "wrapper_own_pid w \<notin> set (departed_list (gm_departed_pids mk))"
    and "dot_counter (current_gc_marker w) < dot_counter (gm_marker mk)"
  shows "\<exists>w'. push_gc_marker w mk = Done w' \<and> wrapper_inv w' \<and>
    wrapper_own_pid w' = wrapper_own_pid w \<and> wr_gc_markers w' = wr_gc_markers w @ [mk]"
proof -
  let ?m = "wr_version_matrix w"
  have inv: "vm_inv ?m" and own: "own_pid ?m \<notin> set (departed_list (gm_departed_pids mk))"
    using assms by (simp_all add: wrapper_inv_def wrapper_own_pid_def)
  obtain m' where m': "vm_apply_gc_marker ?m (gm_stable mk) (gm_departed_pids mk)
      (dot_counter (gm_marker mk)) = Done m'"
    by (rule vm_apply_gc_marker_Done[OF inv own])
  have "sorted_wrt (<) ((INITIAL_GC_COUNTER # marker_counters w) @ [dot_counter (gm_marker mk)])"
  proof -
    have "c \<le> dot_counter (current_gc_marker w)"
      if "c \<in> set (INITIAL_GC_COUNTER # marker_counters w)" for c
    proof (cases "c \<in> set (marker_counters w)")
      case False
      with that have "c = INITIAL_GC_COUNTER" by simp
      moreover have "INITIAL_GC_COUNTER \<le> dot_counter (current_gc_marker w)"
        using assms(1) unfolding current_gc_counter_eq
        by (cases "marker_counters w" rule: rev_cases) (auto simp: wrapper_inv_def sorted_wrt_append)
      ultimately show ?thesis by simp
    qed (rule marker_counters_le_current[OF assms(1)])
    then show ?thesis using assms(1,3)
      unfolding sorted_wrt_append wrapper_inv_def by force
  qed
  then show ?thesis using vm_apply_gc_marker_inv[OF inv own m']
    by (auto simp: push_gc_marker_def m' wrapper_inv_def wrapper_own_pid_def marker_counters_def)
qed

lemma current_gc_counter_nonneg:
  "wrapper_inv w \<Longrightarrow> 0 \<le> dot_counter (current_gc_marker w)"
  unfolding current_gc_counter_eq
  by (cases "marker_counters w" rule: rev_cases)
    (auto simp: wrapper_inv_def sorted_wrt_append INITIAL_GC_COUNTER_def)

lemma next_gc_marker_counter:
  "dot_counter (current_gc_marker w) < i64_max \<Longrightarrow> wrapper_inv w \<Longrightarrow>
   dot_counter (next_gc_marker w) = dot_counter (current_gc_marker w) + 1"
  using current_gc_counter_nonneg[of w] by (simp add: next_gc_marker_def i64_saturating_add_def)

lemma own_gc_counter_push:
  assumes "wrapper_inv w" "wrapper_own_pid w \<notin> set (departed_list (gm_departed_pids mk))"
    and "push_gc_marker w mk = Done w'"
  shows "own_gc_counter (wr_version_matrix w') = Done (dot_counter (gm_marker mk))"
proof -
  have inv: "vm_inv (wr_version_matrix w)"
    and own: "own_pid (wr_version_matrix w) \<notin> set (departed_list (gm_departed_pids mk))"
    using assms(1,2) by (simp_all add: wrapper_inv_def wrapper_own_pid_def)
  from assms(3) have "vm_apply_gc_marker (wr_version_matrix w) (gm_stable mk) (gm_departed_pids mk)
      (dot_counter (gm_marker mk)) = Done (wr_version_matrix w')"
    by (auto simp: push_gc_marker_def exec_simps)
  from vm_apply_gc_marker_inv[OF inv own this] show ?thesis
    by (auto simp: own_gc_counter_def gc_counter_def)
qed

text \<open>The epoch column of a frontier lags behind the epoch of the round that installs it.\<close>

lemma stable_epoch_lags:
  assumes "wrapper_inv w" and "get_stable (wr_version_matrix w) = Done (Some st, departed)"
    and "observer (wr_version_matrix w) (wrapper_own_pid w) row"
  shows "gc_counter st \<le> dot_counter (current_gc_marker w)"
proof -
  let ?m = "wr_version_matrix w"
  obtain rows where rows: "get_observer_rows ?m = Done rows" using get_stable_Some[OF assms(2)] by blast
  have "(wrapper_own_pid w, row) \<in> set rows" using assms(3) by (simp add: get_observer_rows_set[OF rows])
  then have "dotset_get (vm_frontier rows) STABLE_REPLICA_PID \<le> gc_counter row"
    unfolding gc_counter_def by (rule frontier_le_row)
  moreover have "gc_counter row \<le> dot_counter (current_gc_marker w)"
    using assms(1,3) by (simp add: wrapper_inv_def observer_def wrapper_own_pid_def)
  ultimately show ?thesis using current_gc_counter_nonneg[OF assms(1)]
    by (simp add: gc_counter_def dotset_get_stable[OF assms(2) rows])
qed

text \<open>When every observer has reached an epoch, so has the epoch column of the frontier.\<close>

lemma stable_epoch_reached:
  assumes "get_stable m = Done (Some st, None)" and "\<And>p vv. observer m p vv \<Longrightarrow> gc_counter vv = c"
  shows "gc_counter st = c"
proof -
  obtain rows where rows: "get_observer_rows m = Done rows" "rows \<noteq> []" "vm_departed_pids m = []"
    using get_stable_Some[OF assms(1)] by (auto split: if_splits)
  obtain q vv where q: "(q, vv) \<in> set rows"
    "dotset_get (vm_frontier rows) STABLE_REPLICA_PID = dotset_get vv STABLE_REPLICA_PID"
    using frontier_attained[OF rows(2), of STABLE_REPLICA_PID] by auto
  have "gc_counter vv = c" using q(1) get_observer_rows_set[OF rows(1)] assms(2) by blast
  then show ?thesis using q(2) rows(3)
    by (simp add: gc_counter_def dotset_get_stable[OF assms(1) rows(1)])
qed


section \<open>Properties\<close>

text \<open>
  Installing a marker of a later epoch always succeeds when the own replica is not among
  the departed. It makes the marker current, raises the epoch of the own row to it, keeps the
  wrapper well formed, and from then on version vectors of earlier epochs are ignored.
\<close>

theorem gc_marker_installed:
  assumes "wrapper_inv w" and "wrapper_own_pid w \<notin> set (departed_list (gm_departed_pids mk))"
    and "dot_counter (current_gc_marker w) < dot_counter (gm_marker mk)"
  shows "\<exists>w'. push_gc_marker w mk = Done w' \<and> wrapper_inv w' \<and> current_gc_marker w' = gm_marker mk \<and>
    last_stable w' = Some (gm_stable mk) \<and>
    own_gc_counter (wr_version_matrix w') = Done (dot_counter (gm_marker mk)) \<and>
    (\<forall>p vv. gc_counter vv < dot_counter (gm_marker mk) \<longrightarrow>
       vm_update (wr_version_matrix w') p vv = Done (wr_version_matrix w'))"
proof -
  obtain w' where w': "push_gc_marker w mk = Done w'" "wrapper_inv w'"
    "wr_gc_markers w' = wr_gc_markers w @ [mk]"
    using push_gc_marker_Done[OF assms] by blast
  have own: "own_gc_counter (wr_version_matrix w') = Done (dot_counter (gm_marker mk))"
    by (rule own_gc_counter_push[OF assms(1,2) w'(1)])
  then have "vm_update (wr_version_matrix w') p vv = Done (wr_version_matrix w')"
    if "gc_counter vv < dot_counter (gm_marker mk)" for p vv
    using that by (auto simp: own_gc_counter_def vm_update_def exec_simps gc_counter_def)
  then show ?thesis using w' own
    by (simp add: current_gc_marker_def last_stable_def)
qed

definition example_marker :: gc_marker where
  "example_marker = \<lparr>gm_marker = Dot STABLE_REPLICA_PID 1, gm_stable = dotset_of [(7, 2)],
                     gm_departed_pids = Some [3]\<rparr>"

theorem gc_marker_installed_witness:
  "wrapper_inv (wrapper_new 7) \<and>
   wrapper_own_pid (wrapper_new 7) \<notin> set (departed_list (gm_departed_pids example_marker)) \<and>
   dot_counter (current_gc_marker (wrapper_new 7)) < dot_counter (gm_marker example_marker) \<and>
   (\<exists>w'. push_gc_marker (wrapper_new 7) example_marker = Done w' \<and> wrapper_inv w' \<and>
      current_gc_marker w' = gm_marker example_marker \<and>
      last_stable w' = Some (gm_stable example_marker) \<and>
      own_gc_counter (wr_version_matrix w') = Done (dot_counter (gm_marker example_marker)) \<and>
      (\<forall>p vv. gc_counter vv < dot_counter (gm_marker example_marker) \<longrightarrow>
         vm_update (wr_version_matrix w') p vv = Done (wr_version_matrix w')))"
proof -
  have h: "wrapper_inv (wrapper_new 7)"
    "wrapper_own_pid (wrapper_new 7) \<notin> set (departed_list (gm_departed_pids example_marker))"
    "dot_counter (current_gc_marker (wrapper_new 7)) < dot_counter (gm_marker example_marker)"
    by (simp add: wrapper_inv_new STABLE_REPLICA_PID_def) code_simp+
  show ?thesis using h gc_marker_installed[OF h] by blast
qed

text \<open>
  C33: collection never comes to rest. The frontier a round installs carries the epoch column
  of the rows it was computed from, which lags behind the round's own epoch; once every
  observing row has reached that epoch the new frontier differs from the installed one in
  that column, so \<open>needs_gc\<close> is true again although no replica mutated anything.
\<close>

theorem gc_never_quiesces:
  assumes "wrapper_inv w" "dot_counter (current_gc_marker w) < i64_max"
    and "get_stable (wr_version_matrix w) = Done (Some st, departed)"
    and "observer (wr_version_matrix w) (wrapper_own_pid w) row"
    and "push_gc_marker w \<lparr>gm_marker = next_gc_marker w, gm_stable = st, gm_departed_pids = departed\<rparr> = Done w1"
    and "wrapper_inv w2" "wr_gc_markers w2 = wr_gc_markers w1"
    and "\<forall>p vv. observer (wr_version_matrix w2) p vv \<longrightarrow>
           gc_counter vv = dot_counter (current_gc_marker w2)"
    and "observer (wr_version_matrix w2) q vvq"
  shows "needs_gc w2 = Done True"
proof -
  let ?m2 = "wr_version_matrix w2"
  from assms(6) have "vm_inv ?m2" by (simp add: wrapper_inv_def)
  then obtain now dep where get: "get_stable ?m2 = Done (now, dep)" using get_stable_Done by fast
  have "now \<noteq> None" using get_stable_None_iff[OF \<open>vm_inv ?m2\<close>] get assms(9) by auto
  then obtain st2 where st2: "now = Some st2" by auto
  have markers: "last_opt (wr_gc_markers w2) =
      Some \<lparr>gm_marker = next_gc_marker w, gm_stable = st, gm_departed_pids = departed\<rparr>"
    using assms(5,7) by (auto simp: push_gc_marker_def exec_simps)
  have "gc_counter st2 \<noteq> gc_counter st" if "dep = None"
  proof -
    have "gc_counter st2 = dot_counter (current_gc_marker w2)"
      using stable_epoch_reached[of ?m2 st2] get assms(8) that st2 by auto
    also have "\<dots> = dot_counter (current_gc_marker w) + 1"
      using next_gc_marker_counter[OF assms(2,1)] markers by (simp add: current_gc_marker_def)
    finally show ?thesis using stable_epoch_lags[OF assms(1,3,4)] by simp
  qed
  then have "dep = None \<longrightarrow> \<not> dotset_eq st st2"
    by (auto simp: dotset_eq_iff gc_counter_def dotset_get_def)
  then show ?thesis using markers by (auto simp: needs_gc_def get st2 last_stable_def)
qed

theorem gc_never_quiesces_witness:
  "\<exists>w st departed row w1 q vvq. wrapper_inv w \<and> dot_counter (current_gc_marker w) < i64_max \<and>
     get_stable (wr_version_matrix w) = Done (Some st, departed) \<and>
     observer (wr_version_matrix w) (wrapper_own_pid w) row \<and>
     push_gc_marker w \<lparr>gm_marker = next_gc_marker w, gm_stable = st, gm_departed_pids = departed\<rparr> = Done w1 \<and>
     wrapper_inv w1 \<and>
     (\<forall>p vv. observer (wr_version_matrix w1) p vv \<longrightarrow> gc_counter vv = dot_counter (current_gc_marker w1)) \<and>
     observer (wr_version_matrix w1) q vvq \<and> needs_gc w1 = Done True"
proof -
  define w where "w = wrapper_new 7"
  define st where "st = dotset_of [(7, -1), (0, -1)]"
  define row where "row = dotset_of [(7, -1), (0, -1)]"
  define w1 where "w1 = \<lparr>wr_version_matrix = \<lparr>own_pid = 7,
      matrix = hm_insert (hm_insert hm_new 7 (dotset_of [(7, -1), (0, 1)])) 0 (dotset_of [(7, -1), (0, 1)]),
      final_dots = hm_new\<rparr>,
    wr_gc_markers = [\<lparr>gm_marker = Dot 0 1, gm_stable = st, gm_departed_pids = None\<rparr>]\<rparr>"
  have a1: "wrapper_inv w" by (simp add: w_def wrapper_inv_new STABLE_REPLICA_PID_def)
  have a2: "wrapper_inv w1"
    by (simp add: STABLE_REPLICA_PID_def w1_def wrapper_inv_def vm_inv_def
        marker_counters_def INITIAL_GC_COUNTER_def current_gc_marker_def last_opt_def dotset_of_def
        gc_counter_def)
  have b: "dot_counter (current_gc_marker w) < i64_max"
    "get_stable (wr_version_matrix w) = Done (Some st, None)"
    "push_gc_marker w \<lparr>gm_marker = next_gc_marker w, gm_stable = st, gm_departed_pids = None\<rparr> = Done w1"
    unfolding w_def st_def w1_def by code_simp+
  have c: "observer (wr_version_matrix w) (wrapper_own_pid w) row"
    by (simp add: w_def row_def observer_def wrapper_new_def vm_new_def Let_def wrapper_own_pid_def
        STABLE_REPLICA_PID_def dotset_of_def)
  have d: "\<forall>p vv. observer (wr_version_matrix w1) p vv \<longrightarrow> gc_counter vv = dot_counter (current_gc_marker w1)"
    "observer (wr_version_matrix w1) 7 (dotset_of [(7, -1), (0, 1)])"
    by (auto simp: w1_def observer_def STABLE_REPLICA_PID_def current_gc_marker_def last_opt_def
        dotset_of_def gc_counter_def split: if_splits)
  show ?thesis using a1 a2 b c d gc_never_quiesces[OF a1 b(1,2) c b(3) a2 refl d] by blast
qed

end
