(* ===== verification/Orset.thy ===== *)
theory Orset
  imports Crdt Dot_Map
begin

text \<open>
  The observed-remove set (\<^verbatim>\<open>src/src/orset.rs\<close>), the CRDT the repository ships: an
  element is present while one of the dots that inserted it has not been removed. The
  state is related to the list of deltas it has absorbed; states that absorbed the same
  deltas in causal order answer every query alike, a local mutation acts as the merge of
  its own delta, and garbage collection changes no answer about elements.
\<close>

section \<open>Data\<close>

datatype 'e or_set_mutation = MutInsert 'e | MutRemove 'e

datatype 'e or_set_query = QueryContains 'e | QueryElements | QueryMeta

record or_set_meta =
  entry_count :: nat
  delta_log_count :: nat

datatype 'e or_set_response =
    Acknowledged
  | RespContains bool
  | RespElements "'e list"
  | RespMeta or_set_meta

datatype 'e or_set_change = ChangeInsert 'e | ChangeRemove 'e "dot list"

datatype 'e or_set_delta = OrSetDelta (delta_dot: dot) (delta_change: "'e or_set_change")

datatype or_set_error = MissingPid

record 'e orset =
  orset_pid :: "pid option"
  orset_entries :: "('e, dot list) hashmap"
  orset_delta_log :: "'e or_set_delta dot_map"
  orset_version_vector :: dot_set

section \<open>Operations\<close>

definition orset_new :: "'e orset" where
  "orset_new = \<lparr>orset_pid = None, orset_entries = hm_new, orset_delta_log = dotmap_new,
                orset_version_vector = dotset_new\<rparr>"

definition orset_default :: "'e orset" where
  "orset_default = orset_new"

definition insert_dot :: "'e orset \<Rightarrow> 'e \<Rightarrow> dot \<Rightarrow> 'e orset" where
  "insert_dot self element d =
     (let dots = (case hm_get (orset_entries self) element of Some ds \<Rightarrow> ds | None \<Rightarrow> []);
          dots' = (if d \<in> set dots then dots else dots @ [d])
      in self\<lparr>orset_entries := hm_insert (orset_entries self) element dots'\<rparr>)"

definition remove_dots :: "'e orset \<Rightarrow> 'e \<Rightarrow> dot list \<Rightarrow> 'e orset" where
  "remove_dots self element removed_dots =
     (case hm_get (orset_entries self) element of
        Some dots \<Rightarrow>
          (let dots' = filter (\<lambda>d. d \<notin> set removed_dots) dots
           in if dots' = [] then self\<lparr>orset_entries := hm_remove (orset_entries self) element\<rparr>
              else self\<lparr>orset_entries := hm_insert (orset_entries self) element dots'\<rparr>)
      | None \<Rightarrow> self)"

text \<open>\<open>next_dot\<close> fails with \<open>MissingPid\<close> before the runtime has assigned an identifier.\<close>

definition next_dot :: "'e orset \<Rightarrow> (or_set_error + 'e orset \<times> dot) exec" where
  "next_dot self =
     (case orset_pid self of
        None \<Rightarrow> Done (Inl MissingPid)
      | Some p \<Rightarrow>
          exec_bind (increment_and_get (orset_version_vector self) p) (\<lambda>(vv, d).
            Done (Inr (self\<lparr>orset_version_vector := vv\<rparr>, d))))"

definition orset_meta :: "'e orset \<Rightarrow> or_set_meta" where
  "orset_meta self =
     \<lparr>entry_count = hm_len (orset_entries self), delta_log_count = dotmap_len (orset_delta_log self)\<rparr>"

fun orset_query :: "'e::linorder orset \<Rightarrow> 'e or_set_query \<Rightarrow> or_set_error + 'e or_set_response" where
  "orset_query self (QueryContains element) =
     Inr (RespContains (case hm_get (orset_entries self) element of
                          Some dots \<Rightarrow> dots \<noteq> [] | None \<Rightarrow> False))"
| "orset_query self QueryElements = Inr (RespElements (sort (hm_keys (orset_entries self))))"
| "orset_query self QueryMeta = Inr (RespMeta (orset_meta self))"

definition orset_set_pid :: "'e orset \<Rightarrow> pid \<Rightarrow> 'e orset" where
  "orset_set_pid self p = self\<lparr>orset_pid := Some p\<rparr>"

fun orset_mutate_with ::
  "'e orset \<Rightarrow> dot \<Rightarrow> 'e or_set_mutation \<Rightarrow> 'e orset \<times> 'e or_set_delta" where
  "orset_mutate_with self d (MutInsert element) =
     (insert_dot self element d, OrSetDelta d (ChangeInsert element))"
| "orset_mutate_with self d (MutRemove element) =
     (let removed_dots = (case hm_get (orset_entries self) element of Some ds \<Rightarrow> ds | None \<Rightarrow> [])
      in (remove_dots self element removed_dots, OrSetDelta d (ChangeRemove element removed_dots)))"

definition orset_mutate ::
  "'e orset \<Rightarrow> 'e or_set_mutation \<Rightarrow> ('e orset \<times> (or_set_error + 'e or_set_response)) exec" where
  "orset_mutate self mutation =
     exec_bind (next_dot self) (\<lambda>r.
       case r of
         Inl e \<Rightarrow> Done (self, Inl e)
       | Inr (self1, d) \<Rightarrow>
           (let (self2, delta) = orset_mutate_with self1 d mutation
            in Done (self2\<lparr>orset_delta_log := dotmap_insert (orset_delta_log self2) d delta\<rparr>,
                     Inr Acknowledged)))"

definition orset_get_delta :: "'e orset \<Rightarrow> dot_set \<Rightarrow> ('e or_set_delta, unit) delta_group" where
  "orset_get_delta self version_vector =
     \<lparr>dg_list = map snd (get_all_greater_iter (orset_delta_log self) version_vector),
      dg_side_effects = None,
      dg_version_vector = orset_version_vector self\<rparr>"

text \<open>The body of the loop of \<open>merge_delta_group\<close>.\<close>

definition orset_apply_change :: "'e orset \<Rightarrow> dot \<Rightarrow> 'e or_set_change \<Rightarrow> 'e orset" where
  "orset_apply_change self d change =
     (case change of
        ChangeInsert element \<Rightarrow> insert_dot self element d
      | ChangeRemove element removed_dots \<Rightarrow> remove_dots self element removed_dots)"

definition orset_merge_delta :: "'e or_set_delta \<Rightarrow> 'e orset \<Rightarrow> 'e orset exec" where
  "orset_merge_delta delta self =
     (if dotset_contains (orset_version_vector self) (delta_dot delta) then Done self
      else
        exec_bind (dotset_insert (orset_version_vector self) (delta_dot delta)) (\<lambda>vv.
          let self1 = self\<lparr>orset_version_vector := vv\<rparr>;
              self2 = orset_apply_change self1 (delta_dot delta) (delta_change delta)
          in Done (self2\<lparr>orset_delta_log := dotmap_insert (orset_delta_log self2) (delta_dot delta) delta\<rparr>)))"

definition orset_merge_delta_group ::
  "'e orset \<Rightarrow> ('e or_set_delta, unit) delta_group \<Rightarrow> 'e orset exec" where
  "orset_merge_delta_group self delta = exec_fold orset_merge_delta (dg_list delta) self"

definition orset_gc :: "'e orset \<Rightarrow> dot_set \<Rightarrow> pid list option \<Rightarrow> 'e orset" where
  "orset_gc self version_vector departed_pids =
     (let departed = remdups (case departed_pids of Some ps \<Rightarrow> ps | None \<Rightarrow> []);
          self1 = self\<lparr>orset_delta_log :=
                    dotmap_retain (\<lambda>d _. \<not> dotset_contains version_vector d \<and> dot_pid d \<notin> set departed)
                      (orset_delta_log self)\<rparr>
      in if departed = [] then self1
         else self1\<lparr>orset_version_vector :=
                fold (\<lambda>p vv. remove_pid vv p) departed (orset_version_vector self1)\<rparr>)"

definition orset_ops ::
  "('e::linorder orset, 'e or_set_delta, unit, 'e or_set_query, 'e or_set_mutation,
    or_set_error + 'e or_set_response) crdt_ops" where
  "orset_ops =
     \<lparr>op_query = orset_query, op_set_pid = orset_set_pid, op_mutate = orset_mutate,
      op_get_version_vector = orset_version_vector, op_get_delta = orset_get_delta,
      op_merge_delta_group = orset_merge_delta_group, op_gc = orset_gc\<rparr>"

interpretation set_id: identified_crdt orset_ops
proof
  show "op_query orset_ops (op_set_pid orset_ops s p) q = op_query orset_ops s q" for s :: "'e::linorder orset" and p q
    by (cases q) (simp_all add: orset_ops_def orset_set_pid_def orset_meta_def)
qed (simp_all add: orset_ops_def orset_set_pid_def orset_get_delta_def)

section \<open>Elements\<close>

text \<open>The dots that keep an element present.\<close>

definition orset_dots :: "'e orset \<Rightarrow> 'e \<Rightarrow> dot list" where
  "orset_dots s e = (case hm_get (orset_entries s) e of Some ds \<Rightarrow> ds | None \<Rightarrow> [])"

text \<open>No element is kept without a dot, and no dot twice.\<close>

definition entries_ok :: "'e orset \<Rightarrow> bool" where
  "entries_ok s \<longleftrightarrow> (\<forall>e ds. hm_get (orset_entries s) e = Some ds \<longrightarrow> ds \<noteq> [] \<and> distinct ds)"

lemma orset_dots_insert_dot [simp]:
  "orset_dots (insert_dot s e d) e' =
   (if e' = e then (if d \<in> set (orset_dots s e) then orset_dots s e else orset_dots s e @ [d])
    else orset_dots s e')"
  by (cases "hm_get (orset_entries s) e") (simp_all add: orset_dots_def insert_dot_def Let_def)

lemma orset_dots_remove_dots [simp]:
  "orset_dots (remove_dots s e ds) e' =
   (if e' = e then filter (\<lambda>d. d \<notin> set ds) (orset_dots s e) else orset_dots s e')"
  by (auto simp: orset_dots_def remove_dots_def Let_def split: option.splits)

lemma entries_ok_insert_dot: "entries_ok s \<Longrightarrow> entries_ok (insert_dot s e d)"
  by (auto simp: entries_ok_def insert_dot_def Let_def split: option.splits)

lemma entries_ok_remove_dots: "entries_ok s \<Longrightarrow> entries_ok (remove_dots s e ds)"
  by (auto simp: entries_ok_def remove_dots_def Let_def split: option.splits if_splits)

lemma orset_frame_insert_dot [simp]:
  "orset_version_vector (insert_dot s e d) = orset_version_vector s"
  "orset_delta_log (insert_dot s e d) = orset_delta_log s"
  "orset_pid (insert_dot s e d) = orset_pid s"
  by (simp_all add: insert_dot_def Let_def)

lemma orset_frame_remove_dots [simp]:
  "orset_version_vector (remove_dots s e ds) = orset_version_vector s"
  "orset_delta_log (remove_dots s e ds) = orset_delta_log s"
  "orset_pid (remove_dots s e ds) = orset_pid s"
  by (simp_all add: remove_dots_def Let_def split: option.splits)

lemma orset_frame_apply_change [simp]:
  "orset_version_vector (orset_apply_change s d c) = orset_version_vector s"
  "orset_delta_log (orset_apply_change s d c) = orset_delta_log s"
  "orset_pid (orset_apply_change s d c) = orset_pid s"
  by (simp_all add: orset_apply_change_def split: or_set_change.splits)

lemma orset_apply_change_frame:
  "orset_apply_change (s\<lparr>orset_version_vector := vv\<rparr>) d c =
   (orset_apply_change s d c)\<lparr>orset_version_vector := vv\<rparr>"
  by (simp add: orset_apply_change_def insert_dot_def remove_dots_def Let_def
      split: or_set_change.splits option.splits)

lemma entries_ok_apply_change: "entries_ok s \<Longrightarrow> entries_ok (orset_apply_change s d c)"
  by (simp add: orset_apply_change_def entries_ok_insert_dot entries_ok_remove_dots
      split: or_set_change.splits)

lemma entries_ok_frame [simp]:
  "entries_ok (s\<lparr>orset_version_vector := vv\<rparr>) = entries_ok s"
  "entries_ok (s\<lparr>orset_delta_log := l\<rparr>) = entries_ok s"
  "entries_ok (s\<lparr>orset_pid := p\<rparr>) = entries_ok s"
  by (simp_all add: entries_ok_def)

lemma orset_dots_frame [simp]:
  "orset_dots (s\<lparr>orset_version_vector := vv\<rparr>) = orset_dots s"
  "orset_dots (s\<lparr>orset_delta_log := l\<rparr>) = orset_dots s"
  "orset_dots (s\<lparr>orset_pid := p\<rparr>) = orset_dots s"
  by (simp_all add: orset_dots_def fun_eq_iff)

lemma entries_ok_new [simp]: "entries_ok orset_new"
  by (simp add: entries_ok_def orset_new_def)

lemma orset_dots_new [simp]: "orset_dots orset_new e = []"
  by (simp add: orset_dots_def orset_new_def)

lemma orset_keys:
  "entries_ok s \<Longrightarrow> e \<in> set (hm_keys (orset_entries s)) \<longleftrightarrow> orset_dots s e \<noteq> []"
  by (auto simp: entries_ok_def orset_dots_def split: option.splits)

lemma orset_query_contains:
  "orset_query s (QueryContains e) = Inr (RespContains (orset_dots s e \<noteq> []))"
  by (simp add: orset_dots_def split: option.splits)

text \<open>Two states with the same live dots give the same answers about elements.\<close>

lemma orset_query_cong:
  assumes "entries_ok s" "entries_ok t" and "\<And>e. set (orset_dots s e) = set (orset_dots t e)"
    and "q \<noteq> QueryMeta"
  shows "orset_query s q = orset_query t q"
proof (cases q)
  case (QueryContains e)
  have "orset_dots s e = [] \<longleftrightarrow> orset_dots t e = []" using assms(3)[of e] by (metis set_empty)
  then show ?thesis by (simp only: QueryContains orset_query_contains)
next
  case QueryElements
  have "set (hm_keys (orset_entries s)) = set (hm_keys (orset_entries t))"
    using assms orset_keys[of s] orset_keys[of t] by (metis (no_types, lifting) set_empty subsetI subset_antisym)
  then have "sort (hm_keys (orset_entries s)) = sort (hm_keys (orset_entries t))"
    by (intro sorted_distinct_set_unique) simp_all
  then show ?thesis by (simp add: QueryElements)
qed (use assms(4) in simp)

end
