(* ===== verification/Orset_Causality.thy ===== *)
theory Orset_Causality
  imports Orset
begin

text \<open>
  What an observed-remove set means: a state is related to the list of deltas it has
  absorbed. The relation determines every answer about elements from the set of absorbed
  deltas alone, and every operation of the set keeps it as long as deltas arrive in causal
  order, which is what the documentation of \<open>DeltaGroup\<close> promises.
\<close>

section \<open>Histories of deltas\<close>

type_synonym 'e history = "'e or_set_delta list"

definition inserted :: "'e history \<Rightarrow> 'e \<Rightarrow> dot \<Rightarrow> bool" where
  "inserted L e d \<longleftrightarrow> OrSetDelta d (ChangeInsert e) \<in> set L"

definition removes :: "'e or_set_delta \<Rightarrow> 'e \<Rightarrow> dot \<Rightarrow> bool" where
  "removes delta e d =
     (case delta_change delta of ChangeInsert _ \<Rightarrow> False | ChangeRemove e' ds \<Rightarrow> e' = e \<and> d \<in> set ds)"

definition removed :: "'e history \<Rightarrow> 'e \<Rightarrow> dot \<Rightarrow> bool" where
  "removed L e d \<longleftrightarrow> list_ex (\<lambda>delta. removes delta e d) L"

text \<open>The abstract state: the insertions that no absorbed removal has named.\<close>

definition live :: "'e history \<Rightarrow> 'e \<Rightarrow> dot \<Rightarrow> bool" where
  "live L e d \<longleftrightarrow> inserted L e d \<and> \<not> removed L e d"

definition pid_count :: "'e history \<Rightarrow> pid \<Rightarrow> nat" where
  "pid_count L p = length (filter (\<lambda>delta. dot_pid (delta_dot delta) = p) L)"

text \<open>
  A delta may follow a history when it carries the next counter of its process and, if it
  removes, only names insertions of that history.
\<close>

definition deliverable :: "'e history \<Rightarrow> 'e or_set_delta \<Rightarrow> bool" where
  "deliverable L delta \<longleftrightarrow>
     dot_counter (delta_dot delta) = int (pid_count L (dot_pid (delta_dot delta))) \<and>
     dot_counter (delta_dot delta) \<le> i64_max \<and>
     (case delta_change delta of
        ChangeInsert _ \<Rightarrow> True
      | ChangeRemove e ds \<Rightarrow> list_all (inserted L e) ds)"

primrec causal :: "'e history \<Rightarrow> 'e history \<Rightarrow> bool" where
  "causal seen [] = True"
| "causal seen (delta # L) = (deliverable seen delta \<and> causal (seen @ [delta]) L)"

lemma causal_append: "causal seen (L @ L') \<longleftrightarrow> causal seen L \<and> causal (seen @ L) L'"
  by (induction L arbitrary: seen) auto

lemma causal_snoc [simp]: "causal [] (L @ [delta]) \<longleftrightarrow> causal [] L \<and> deliverable L delta"
  by (simp add: causal_append)

lemma inserted_simps [simp]:
  "inserted [] e d \<longleftrightarrow> False"
  "inserted (L @ L') e d \<longleftrightarrow> inserted L e d \<or> inserted L' e d"
  "inserted [delta] e d \<longleftrightarrow> delta = OrSetDelta d (ChangeInsert e)"
  by (auto simp: inserted_def)

lemma inserted_dot: "inserted L e d \<Longrightarrow> d \<in> delta_dot ` set L"
  by (auto simp: inserted_def image_iff intro: bexI[of _ "OrSetDelta d (ChangeInsert e)"])

lemma removed_simps [simp]:
  "removed [] e d \<longleftrightarrow> False"
  "removed (L @ L') e d \<longleftrightarrow> removed L e d \<or> removed L' e d"
  "removed [delta] e d \<longleftrightarrow> removes delta e d"
  by (simp_all add: removed_def)

lemma pid_count_simps [simp]:
  "pid_count [] p = 0"
  "pid_count (L @ [delta]) p = pid_count L p + (if dot_pid (delta_dot delta) = p then 1 else 0)"
  by (simp_all add: pid_count_def)

lemma live_cong: "set L = set L' \<Longrightarrow> live L = live L'"
  by (simp add: live_def inserted_def removed_def list_ex_iff fun_eq_iff)

section \<open>Causal histories\<close>

lemma causal_dots:
  "causal [] L \<Longrightarrow>
   d \<in> delta_dot ` set L \<longleftrightarrow> 0 \<le> dot_counter d \<and> dot_counter d < int (pid_count L (dot_pid d))"
proof (induction L rule: rev_induct)
  case (snoc delta L)
  then have IH: "d \<in> delta_dot ` set L \<longleftrightarrow> 0 \<le> dot_counter d \<and> dot_counter d < int (pid_count L (dot_pid d))"
    and c: "dot_counter (delta_dot delta) = int (pid_count L (dot_pid (delta_dot delta)))"
    by (simp_all add: deliverable_def)
  have eq: "d = delta_dot delta \<longleftrightarrow> dot_pid d = dot_pid (delta_dot delta) \<and> dot_counter d = dot_counter (delta_dot delta)"
    by (metis dot.expand)
  have "d \<in> delta_dot ` set (L @ [delta]) \<longleftrightarrow> d = delta_dot delta \<or> d \<in> delta_dot ` set L" by auto
  then show ?case unfolding IH eq c by (cases "dot_pid d = dot_pid (delta_dot delta)") auto
qed simp

lemma causal_fresh:
  "causal [] L \<Longrightarrow> deliverable L delta \<Longrightarrow> delta_dot delta \<notin> delta_dot ` set L"
  by (simp add: causal_dots deliverable_def)

lemma causal_unique:
  "causal [] L \<Longrightarrow> x \<in> set L \<Longrightarrow> y \<in> set L \<Longrightarrow> delta_dot x = delta_dot y \<Longrightarrow> x = y"
proof (induction L rule: rev_induct)
  case (snoc delta L)
  then have "delta_dot delta \<notin> delta_dot ` set L" by (simp add: causal_fresh)
  with snoc show ?case by (metis causal_snoc image_eqI insertE list.simps(15) rotate1.simps(2) set_rotate1)
qed simp

lemma causal_removed_inserted: "causal [] L \<Longrightarrow> removed L e d \<Longrightarrow> inserted L e d"
proof (induction L rule: rev_induct)
  case (snoc delta L)
  then show ?case
    by (auto simp: removes_def deliverable_def list_all_iff split: or_set_change.splits)
qed simp

lemma causal_fresh_not_removed:
  "causal [] L \<Longrightarrow> deliverable L delta \<Longrightarrow> \<not> removed L e (delta_dot delta)"
  by (metis causal_fresh causal_removed_inserted inserted_dot)

lemma causal_counter_bound:
  "causal [] L \<Longrightarrow> int (pid_count L p) \<le> i64_max + 1"
  by (induction L rule: rev_induct) (auto simp: deliverable_def)

section \<open>The relation between states and histories\<close>

definition absorbs :: "'e orset \<Rightarrow> 'e history \<Rightarrow> bool" where
  "absorbs s L \<longleftrightarrow> entries_ok s \<and> (\<forall>e. set (orset_dots s e) = {d. live L e d}) \<and>
     (\<forall>p. hm_get (orset_version_vector s) p =
        (if pid_count L p = 0 then None else Some (int (pid_count L p) - 1)))"

text \<open>The log holds every absorbed delta, one chain per process.\<close>

definition logs :: "'e orset \<Rightarrow> 'e history \<Rightarrow> bool" where
  "logs s L \<longleftrightarrow> dotmap_wf (orset_delta_log s) \<and>
     (\<forall>p. dotmap_chain (orset_delta_log s) p =
        map (\<lambda>delta. (delta_dot delta, delta)) (filter (\<lambda>delta. dot_pid (delta_dot delta) = p) L))"

lemma absorbs_new: "absorbs orset_new []"
  by (simp add: absorbs_def live_def) (simp add: orset_new_def)

lemma absorbs_set_pid [simp]: "absorbs (orset_set_pid s p) L = absorbs s L"
  by (simp add: absorbs_def orset_set_pid_def)

lemma logs_set_pid [simp]: "logs (orset_set_pid s p) L = logs s L"
  by (simp add: logs_def orset_set_pid_def)

lemma logs_new: "logs orset_new []"
  by (simp add: logs_def) (simp add: orset_new_def)

lemma absorbs_contains:
  assumes "absorbs s L"
  shows "dotset_contains (orset_version_vector s) d \<longleftrightarrow>
    0 < pid_count L (dot_pid d) \<and> dot_counter d < int (pid_count L (dot_pid d))"
  using assms by (auto simp: absorbs_def dotset_contains_def)

lemma absorbs_contains_iff:
  assumes "absorbs s L" "causal [] L" "0 \<le> dot_counter d"
  shows "dotset_contains (orset_version_vector s) d \<longleftrightarrow> d \<in> delta_dot ` set L"
  using assms by (auto simp: absorbs_contains[OF assms(1)] causal_dots)

lemma live_snoc_insert:
  assumes "causal [] L" "deliverable L delta" "delta_change delta = ChangeInsert e"
  shows "live (L @ [delta]) e' d' \<longleftrightarrow> live L e' d' \<or> e' = e \<and> d' = delta_dot delta"
  using assms causal_fresh_not_removed[OF assms(1,2), of e]
  by (cases delta) (auto simp: live_def removes_def)

lemma live_snoc_remove:
  assumes "delta_change delta = ChangeRemove e ds"
  shows "live (L @ [delta]) e' d' \<longleftrightarrow> live L e' d' \<and> \<not> (e' = e \<and> d' \<in> set ds)"
  using assms by (cases delta) (auto simp: live_def removes_def)

lemma merge_delta_covered:
  "dotset_contains (orset_version_vector s) (delta_dot delta) \<Longrightarrow> orset_merge_delta delta s = Done s"
  by (simp add: orset_merge_delta_def)

lemma deliverable_insert_Done:
  assumes "absorbs s L" "deliverable L delta"
  shows "\<not> dotset_contains (orset_version_vector s) (delta_dot delta)"
    and "\<exists>vv. dotset_insert (orset_version_vector s) (delta_dot delta) = Done vv \<and>
      (\<forall>p. hm_get vv p = (if p = dot_pid (delta_dot delta) then Some (dot_counter (delta_dot delta))
         else hm_get (orset_version_vector s) p))"
proof -
  let ?d = "delta_dot delta" and ?n = "int (pid_count L (dot_pid (delta_dot delta)))"
  have c: "dot_counter ?d = ?n" "?n \<le> i64_max" using assms(2) by (simp_all add: deliverable_def)
  show "\<not> dotset_contains (orset_version_vector s) ?d"
    using c by (simp add: absorbs_contains[OF assms(1)])
  have "case hm_get (orset_version_vector s) (dot_pid ?d) of
          Some x \<Rightarrow> dot_counter ?d = i64_add x 1 | None \<Rightarrow> True"
    using assms(1) c by (auto simp: absorbs_def i64_add_1 is_i64_def split: option.splits if_splits)
  from dotset_insert_succeeds[OF this] obtain vv
    where vv: "dotset_insert (orset_version_vector s) ?d = Done vv" ..
  then show "\<exists>vv. dotset_insert (orset_version_vector s) ?d = Done vv \<and>
      (\<forall>p. hm_get vv p = (if p = dot_pid ?d then Some (dot_counter ?d)
         else hm_get (orset_version_vector s) p))"
    by (auto simp: hm_get_dotset_insert)
qed

lemma absorbs_apply_change:
  assumes "absorbs s L" "causal [] L" "deliverable L delta"
  shows "entries_ok (orset_apply_change s (delta_dot delta) (delta_change delta)) \<and>
    (\<forall>e. set (orset_dots (orset_apply_change s (delta_dot delta) (delta_change delta)) e) =
       {d. live (L @ [delta]) e d})"
proof
  show "entries_ok (orset_apply_change s (delta_dot delta) (delta_change delta))"
    using assms(1) by (simp add: absorbs_def entries_ok_apply_change)
  have dots: "set (orset_dots s e) = {d. live L e d}" for e
    using assms(1) by (simp add: absorbs_def)
  show "\<forall>e. set (orset_dots (orset_apply_change s (delta_dot delta) (delta_change delta)) e) =
       {d. live (L @ [delta]) e d}"
  proof (cases "delta_change delta")
    case (ChangeInsert e)
    then show ?thesis using dots
      by (auto simp: orset_apply_change_def live_snoc_insert[OF assms(2,3) ChangeInsert])
  next
    case (ChangeRemove e ds)
    then show ?thesis using dots
      by (auto simp: orset_apply_change_def live_snoc_remove[OF ChangeRemove])
  qed
qed

lemma merge_delta_absorbs:
  assumes "absorbs s L" "causal [] L" "deliverable L delta"
  obtains s' where "orset_merge_delta delta s = Done s'" "absorbs s' (L @ [delta])"
    "orset_delta_log s' = dotmap_insert (orset_delta_log s) (delta_dot delta) delta"
    "orset_pid s' = orset_pid s"
proof -
  let ?d = "delta_dot delta"
  obtain vv where vv: "dotset_insert (orset_version_vector s) ?d = Done vv"
    and get_vv: "\<And>p. hm_get vv p = (if p = dot_pid ?d then Some (dot_counter ?d)
         else hm_get (orset_version_vector s) p)"
    using deliverable_insert_Done(2)[OF assms(1,3)] by auto
  let ?s1 = "s\<lparr>orset_version_vector := vv\<rparr>"
  let ?s2 = "orset_apply_change ?s1 ?d (delta_change delta)"
  show ?thesis
  proof (rule that)
    show "orset_merge_delta delta s = Done (?s2\<lparr>orset_delta_log := dotmap_insert (orset_delta_log ?s2) ?d delta\<rparr>)"
      using deliverable_insert_Done(1)[OF assms(1,3)] by (simp add: orset_merge_delta_def vv Let_def)
    have "hm_get vv p = (if pid_count (L @ [delta]) p = 0 then None else Some (int (pid_count (L @ [delta]) p) - 1))" for p
      using assms(1,3) by (simp add: get_vv absorbs_def deliverable_def)
    then show "absorbs (?s2\<lparr>orset_delta_log := dotmap_insert (orset_delta_log ?s2) ?d delta\<rparr>) (L @ [delta])"
      using absorbs_apply_change[OF assms] by (simp add: absorbs_def orset_apply_change_frame)
  qed simp_all
qed

lemma logs_snoc:
  assumes "logs s L" "causal [] L" "deliverable L delta"
    and "orset_delta_log s' = dotmap_insert (orset_delta_log s) (delta_dot delta) delta"
  shows "logs s' (L @ [delta])"
proof -
  have "dot_counter d' < dot_counter (delta_dot delta)"
    if "(d', x) \<in> set (dotmap_chain (orset_delta_log s) (dot_pid (delta_dot delta)))" for d' x
  proof -
    have "d' \<in> delta_dot ` set L" "dot_pid d' = dot_pid (delta_dot delta)"
      using that assms(1) by (auto simp: logs_def)
    then show ?thesis using assms(2,3) by (auto simp: causal_dots deliverable_def)
  qed
  then have "dotmap_wf (orset_delta_log s')"
    using assms(1) unfolding assms(4) by (intro dotmap_wf_insert) (auto simp: logs_def)
  then show ?thesis using assms(1) by (auto simp: logs_def assms(4))
qed


section \<open>Merging a list of deltas\<close>

lemma merge_list_absorbs:
  assumes "absorbs s L" "logs s L" "causal [] L" "causal L xs"
  shows "\<exists>s'. exec_fold orset_merge_delta xs s = Done s' \<and> absorbs s' (L @ xs) \<and> logs s' (L @ xs) \<and>
    orset_pid s' = orset_pid s"
  using assms
proof (induction xs arbitrary: s L)
  case (Cons delta xs)
  from Cons.prems(4) have del: "deliverable L delta" and rest: "causal (L @ [delta]) xs" by simp_all
  obtain s1 where s1: "orset_merge_delta delta s = Done s1" "absorbs s1 (L @ [delta])"
    "orset_delta_log s1 = dotmap_insert (orset_delta_log s) (delta_dot delta) delta"
    "orset_pid s1 = orset_pid s"
    by (rule merge_delta_absorbs[OF Cons.prems(1,3) del])
  have "logs s1 (L @ [delta])" by (rule logs_snoc[OF Cons.prems(2,3) del s1(3)])
  moreover have "causal [] (L @ [delta])" using Cons.prems(3) del by simp
  ultimately obtain s' where "exec_fold orset_merge_delta xs s1 = Done s'"
    "absorbs s' ((L @ [delta]) @ xs)" "logs s' ((L @ [delta]) @ xs)" "orset_pid s' = orset_pid s1"
    using Cons.IH[OF s1(2) _ _ rest] by blast
  then show ?case using s1(1,4) by auto
qed auto

lemma merge_list_covered:
  "(\<And>delta. delta \<in> set xs \<Longrightarrow> dotset_contains (orset_version_vector s) (delta_dot delta)) \<Longrightarrow>
   exec_fold orset_merge_delta xs s = Done s"
  by (induction xs) (auto simp: merge_delta_covered)

text \<open>States that absorbed the same deltas give the same answers about elements.\<close>

lemma absorbs_query_eq:
  assumes "absorbs s L" "absorbs t L'" "set L = set L'" "q \<noteq> QueryMeta"
  shows "orset_query s q = orset_query t q"
proof -
  from live_cong[OF assms(3)] have "live L = live L'" .
  with assms show ?thesis by (intro orset_query_cong) (simp_all add: absorbs_def)
qed

section \<open>Local mutations\<close>

text \<open>The delta a local mutation records.\<close>

definition mutation_delta :: "'e orset \<Rightarrow> pid \<Rightarrow> 'e or_set_mutation \<Rightarrow> 'e or_set_delta" where
  "mutation_delta s p m =
     OrSetDelta (Dot p (i64_add (dotset_get (orset_version_vector s) p) 1))
       (case m of MutInsert e \<Rightarrow> ChangeInsert e | MutRemove e \<Rightarrow> ChangeRemove e (orset_dots s e))"

lemma hm_insert_twice [simp]: "hm_insert (hm_insert m k v) k v' = hm_insert m k v'"
  by (simp add: hm_insert_def)

lemma mutate_as_merge:
  assumes "orset_pid s = Some p"
    and "\<not> dotset_contains (orset_version_vector s) (delta_dot (mutation_delta s p m))"
  shows "orset_mutate s m = exec_map (\<lambda>s'. (s', Inr Acknowledged)) (orset_merge_delta (mutation_delta s p m) s)"
proof -
  let ?vv = "orset_version_vector s"
  let ?c = "i64_add (dotset_get ?vv p) 1"
  have inc: "increment_and_get ?vv p = Done (hm_insert ?vv p ?c, Dot p ?c)"
    by (cases "hm_get ?vv p")
      (simp_all add: increment_and_get_def dotset_insert_def Let_def dotset_get_def i64_add_def)
  have ins: "dotset_insert ?vv (Dot p ?c) = Done (hm_insert ?vv p ?c)"
    by (cases "hm_get ?vv p") (simp_all add: dotset_insert_def Let_def dotset_get_def)
  have "orset_mutate s m = Done ((let s1 = s\<lparr>orset_version_vector := hm_insert ?vv p ?c\<rparr>;
        s2 = orset_apply_change s1 (Dot p ?c) (delta_change (mutation_delta s p m))
      in s2\<lparr>orset_delta_log := dotmap_insert (orset_delta_log s2) (Dot p ?c) (mutation_delta s p m)\<rparr>), Inr Acknowledged)"
    using assms(1) inc
    by (cases m) (simp_all add: orset_mutate_def next_dot_def mutation_delta_def orset_apply_change_def
        Let_def orset_dots_def)
  then show ?thesis using assms(2) ins
    by (simp add: orset_merge_delta_def mutation_delta_def Let_def)
qed

lemma mutation_deliverable:
  assumes "absorbs s L" "int (pid_count L p) \<le> i64_max"
  shows "deliverable L (mutation_delta s p m)"
proof -
  have "i64_add (dotset_get (orset_version_vector s) p) 1 = int (pid_count L p)"
  proof (cases "pid_count L p = 0")
    case True
    then show ?thesis using assms(1) by (simp add: absorbs_def dotset_get_def i64_add_def)
  next
    case False
    then have "dotset_get (orset_version_vector s) p = int (pid_count L p) - 1"
      using assms(1) by (simp add: absorbs_def dotset_get_def)
    then show ?thesis using assms(2) False by (simp add: i64_add_1 is_i64_def)
  qed
  moreover have "list_all (inserted L e) (orset_dots s e)" for e
    using assms(1) by (auto simp: absorbs_def list_all_iff live_def)
  ultimately show ?thesis using assms(2)
    by (cases m) (simp_all add: deliverable_def mutation_delta_def)
qed

lemma mutate_absorbs:
  assumes "absorbs s L" "logs s L" "causal [] L" "orset_pid s = Some p"
    and "int (pid_count L p) \<le> i64_max"
  shows "\<exists>s'. orset_mutate s m = Done (s', Inr Acknowledged) \<and>
    absorbs s' (L @ [mutation_delta s p m]) \<and> logs s' (L @ [mutation_delta s p m]) \<and>
    causal [] (L @ [mutation_delta s p m]) \<and> orset_pid s' = Some p"
proof -
  let ?d = "mutation_delta s p m"
  have del: "deliverable L ?d" by (rule mutation_deliverable[OF assms(1,5)])
  obtain s' where s': "orset_merge_delta ?d s = Done s'" "absorbs s' (L @ [?d])"
    "orset_delta_log s' = dotmap_insert (orset_delta_log s) (delta_dot ?d) ?d" "orset_pid s' = orset_pid s"
    by (rule merge_delta_absorbs[OF assms(1,3) del])
  have "orset_mutate s m = Done (s', Inr Acknowledged)"
    using mutate_as_merge[OF assms(4) deliverable_insert_Done(1)[OF assms(1) del]] s'(1) by simp
  then show ?thesis using s' assms(3,4) del logs_snoc[OF assms(2,3) del s'(3)] by auto
qed

section \<open>Delta groups\<close>

lemma set_get_delta:
  assumes "logs t L"
  shows "set (dg_list (orset_get_delta t vv)) = {delta \<in> set L. \<not> dotset_contains vv (delta_dot delta)}"
proof -
  have wf: "dotmap_wf (orset_delta_log t)" using assms by (simp add: logs_def)
  have "(d, delta) \<in> dotmap_entries (orset_delta_log t) \<longleftrightarrow> delta \<in> set L \<and> d = delta_dot delta" for d delta
    using assms by (auto simp: in_dotmap_entries_iff[OF wf] logs_def)
  then have "(d, delta) \<in> set (get_all_greater_iter (orset_delta_log t) vv) \<longleftrightarrow>
      delta \<in> set L \<and> d = delta_dot delta \<and> \<not> dotset_contains vv d" for d delta
    by (auto simp: set_get_all_greater_iter[OF wf])
  then show ?thesis by (force simp: orset_get_delta_def image_iff)
qed

text \<open>
  Pulling what is missing: the receiver ends with everything the sender had, provided the
  group it received continues its own history causally.
\<close>

lemma pull_absorbs:
  assumes s: "absorbs s L" "logs s L" "causal [] L"
    and t: "absorbs t L'" "logs t L'" "causal [] L'"
    and causal: "causal L (dg_list (orset_get_delta t (orset_version_vector s)))"
    and agree: "\<And>x y. x \<in> set L \<Longrightarrow> y \<in> set L' \<Longrightarrow> delta_dot x = delta_dot y \<Longrightarrow> x = y"
  shows "\<exists>s'. orset_merge_delta_group s (orset_get_delta t (orset_version_vector s)) = Done s' \<and>
    absorbs s' (L @ dg_list (orset_get_delta t (orset_version_vector s))) \<and>
    logs s' (L @ dg_list (orset_get_delta t (orset_version_vector s))) \<and>
    orset_pid s' = orset_pid s \<and>
    set (L @ dg_list (orset_get_delta t (orset_version_vector s))) = set L \<union> set L'"
proof -
  let ?xs = "dg_list (orset_get_delta t (orset_version_vector s))"
  have "delta \<in> set L" if "delta \<in> set L'" "dotset_contains (orset_version_vector s) (delta_dot delta)" for delta
  proof -
    have "0 \<le> dot_counter (delta_dot delta)" using causal_dots[OF t(3)] that(1) by blast
    with that(2) have "delta_dot delta \<in> delta_dot ` set L"
      by (simp add: absorbs_contains_iff[OF s(1,3)])
    then obtain x where "x \<in> set L" "delta_dot x = delta_dot delta" by auto
    with agree[OF _ that(1)] show ?thesis by auto
  qed
  then have "set (L @ ?xs) = set L \<union> set L'" by (auto simp: set_get_delta[OF t(2)])
  then show ?thesis using merge_list_absorbs[OF s causal]
    by (simp add: orset_merge_delta_group_def)
qed

section \<open>Garbage collection\<close>

lemma orset_gc_entries [simp]: "orset_entries (orset_gc s vv departed) = orset_entries s"
  by (simp add: orset_gc_def Let_def)

lemma orset_gc_pid [simp]: "orset_pid (orset_gc s vv departed) = orset_pid s"
  by (simp add: orset_gc_def Let_def)

lemma orset_gc_version_vector:
  "hm_get (orset_version_vector (orset_gc s vv departed)) p =
   (if p \<in> set (departed_list departed) then None else hm_get (orset_version_vector s) p)"
proof -
  have "hm_get (fold (\<lambda>p vv. remove_pid vv p) ps v) p = (if p \<in> set ps then None else hm_get v p)" for ps v
    using hm.get_fold_rem[of ps v p] by (simp add: remove_pid_def)
  then show ?thesis by (cases departed) (auto simp: orset_gc_def Let_def)
qed

lemma orset_gc_chain:
  "dotmap_chain (orset_delta_log (orset_gc s vv departed)) p =
   filter (\<lambda>x. \<not> dotset_contains vv (fst x) \<and> dot_pid (fst x) \<notin> set (departed_list departed))
     (dotmap_chain (orset_delta_log s) p)"
  by (cases departed) (simp_all add: orset_gc_def Let_def)

lemma orset_gc_query:
  "q \<noteq> QueryMeta \<Longrightarrow> orset_query (orset_gc s vv departed) q = orset_query s q"
  by (cases q) simp_all

lemma orset_gc_log_wf: "dotmap_wf (orset_delta_log s) \<Longrightarrow> dotmap_wf (orset_delta_log (orset_gc s vv departed))"
  by (simp add: orset_gc_def Let_def dotmap_wf_retain)

section \<open>Version vectors only grow\<close>

lemma merge_delta_vv:
  assumes "orset_merge_delta delta s = Done s'"
  shows "dotset_contains (orset_version_vector s') (delta_dot delta) \<and>
    dotset_le (orset_version_vector s) (orset_version_vector s')"
proof (cases "dotset_contains (orset_version_vector s) (delta_dot delta)")
  case True
  then show ?thesis using assms by (simp add: orset_merge_delta_def vv.below_refl)
next
  case False
  with assms obtain vv where vv: "dotset_insert (orset_version_vector s) (delta_dot delta) = Done vv"
    and s': "orset_version_vector s' = vv"
    by (auto simp: orset_merge_delta_def exec_simps Let_def)
  show ?thesis using False hm_get_dotset_insert[OF vv]
    by (auto simp: s' dotset_contains_def dotset_le_iff split: option.splits)
qed

lemma merge_list_vv:
  "exec_fold orset_merge_delta xs s = Done s' \<Longrightarrow>
   (\<forall>delta \<in> set xs. dotset_contains (orset_version_vector s') (delta_dot delta)) \<and>
   dotset_le (orset_version_vector s) (orset_version_vector s')"
proof (induction xs arbitrary: s)
  case (Cons delta xs)
  then obtain s1 where s1: "orset_merge_delta delta s = Done s1" "exec_fold orset_merge_delta xs s1 = Done s'"
    by (auto simp: exec_simps)
  from Cons.IH[OF s1(2)] merge_delta_vv[OF s1(1)] show ?case
    by (auto intro: vv.below_trans dotset_le_contains)
qed (simp add: vv.below_refl)

lemma absorbs_vv_mono:
  assumes "absorbs s L" "causal [] L" "absorbs t L'" "causal [] L'" "set L \<subseteq> set L'"
  shows "dotset_le (orset_version_vector s) (orset_version_vector t)"
proof -
  have mono: "pid_count L p \<le> pid_count L' p" if "0 < pid_count L p" for p
  proof -
    have "Dot p (int (pid_count L p) - 1) \<in> delta_dot ` set L"
      using that by (simp add: causal_dots[OF assms(2)])
    then have "Dot p (int (pid_count L p) - 1) \<in> delta_dot ` set L'" using assms(5) by auto
    then show ?thesis by (simp add: causal_dots[OF assms(4)])
  qed
  show ?thesis unfolding dotset_le_def absorbs_contains[OF assms(1)] absorbs_contains[OF assms(3)]
  proof (intro allI impI)
    fix d assume "0 < pid_count L (dot_pid d) \<and> dot_counter d < int (pid_count L (dot_pid d))"
    with mono[of "dot_pid d"]
    show "0 < pid_count L' (dot_pid d) \<and> dot_counter d < int (pid_count L' (dot_pid d))" by linarith
  qed
qed


section \<open>Properties\<close>

text \<open>
  Causal delivery converges. Two fresh sets that merge the same deltas, each in an order
  that respects causality, both succeed, end with equal version vectors and give the same
  answer to every query about elements, whatever the two orders were.
\<close>

theorem causal_merge_converges:
  assumes "causal [] (dg_list g)" "causal [] (dg_list h)" "set (dg_list g) = set (dg_list h)"
    and "q \<noteq> QueryMeta"
  shows "\<exists>s t. orset_merge_delta_group orset_new g = Done s \<and> orset_merge_delta_group orset_new h = Done t \<and>
    dotset_le (orset_version_vector s) (orset_version_vector t) \<and>
    dotset_le (orset_version_vector t) (orset_version_vector s) \<and> orset_query s q = orset_query t q"
proof -
  obtain s where s: "exec_fold orset_merge_delta (dg_list g) orset_new = Done s" "absorbs s (dg_list g)"
    using merge_list_absorbs[OF absorbs_new logs_new _ assms(1)] by auto
  obtain t where t: "exec_fold orset_merge_delta (dg_list h) orset_new = Done t" "absorbs t (dg_list h)"
    using merge_list_absorbs[OF absorbs_new logs_new _ assms(2)] by auto
  have "dotset_le (orset_version_vector s) (orset_version_vector t)"
    "dotset_le (orset_version_vector t) (orset_version_vector s)"
    using absorbs_vv_mono[OF s(2) assms(1) t(2) assms(2)] absorbs_vv_mono[OF t(2) assms(2) s(2) assms(1)]
      assms(3) by simp_all
  then show ?thesis using s t absorbs_query_eq[OF s(2) t(2) assms(3,4)]
    by (simp add: orset_merge_delta_group_def)
qed

definition example_group :: "nat or_set_delta list \<Rightarrow> (nat or_set_delta, unit) delta_group" where
  "example_group xs = \<lparr>dg_list = xs, dg_side_effects = None, dg_version_vector = dotset_new\<rparr>"

theorem causal_merge_converges_witness:
  "\<exists>g h. causal [] (dg_list g) \<and> causal [] (dg_list h) \<and> set (dg_list g) = set (dg_list h) \<and>
     dg_list g \<noteq> dg_list h \<and> QueryElements \<noteq> (QueryMeta :: nat or_set_query) \<and>
     (\<exists>s t. orset_merge_delta_group orset_new g = Done s \<and> orset_merge_delta_group orset_new h = Done t \<and>
        dotset_le (orset_version_vector s) (orset_version_vector t) \<and>
        dotset_le (orset_version_vector t) (orset_version_vector s) \<and>
        orset_query s QueryElements = orset_query t (QueryElements :: nat or_set_query))"
proof -
  define a b c where "a = OrSetDelta (Dot 1 0) (ChangeInsert (7::nat))"
    and "b = OrSetDelta (Dot 2 0) (ChangeRemove (7::nat) [Dot 1 0])"
    and "c = OrSetDelta (Dot 3 0) (ChangeInsert (7::nat))"
  have h: "causal [] (dg_list (example_group [a, b, c]))" "causal [] (dg_list (example_group [c, a, b]))"
    "set (dg_list (example_group [a, b, c])) = set (dg_list (example_group [c, a, b]))"
    "QueryElements \<noteq> (QueryMeta :: nat or_set_query)"
    unfolding a_def b_def c_def
    by (auto simp: example_group_def deliverable_def pid_count_def inserted_def)
  have "dg_list (example_group [a, b, c]) \<noteq> dg_list (example_group [c, a, b])"
    by (simp add: example_group_def a_def c_def)
  then show ?thesis using h causal_merge_converges[OF h] by blast
qed

text \<open>
  C23: the observed-remove semantics. After merging any causal sequence of deltas an element is
  present exactly when some insertion of it is not named by any removal of the sequence, so an
  insertion concurrent with a removal wins; the list of elements is sorted, without repetition,
  and agrees with the membership query.
\<close>

theorem orset_observed_remove:
  assumes "causal [] (dg_list g)"
  shows "\<exists>s es. orset_merge_delta_group orset_new g = Done s \<and>
    orset_query s QueryElements = Inr (RespElements es) \<and> sorted es \<and> distinct es \<and>
    (\<forall>e. (e \<in> set es \<longleftrightarrow> (\<exists>d. inserted (dg_list g) e d \<and> \<not> removed (dg_list g) e d)) \<and>
      orset_query s (QueryContains e) = Inr (RespContains (e \<in> set es)))"
proof -
  obtain s where s: "exec_fold orset_merge_delta (dg_list g) orset_new = Done s" "absorbs s (dg_list g)"
    using merge_list_absorbs[OF absorbs_new logs_new _ assms] by auto
  let ?es = "sort (hm_keys (orset_entries s))"
  have keys: "e \<in> set ?es \<longleftrightarrow> orset_dots s e \<noteq> []" for e
    using orset_keys[of s e] s(2) by (simp add: absorbs_def del: set_hm_keys)
  have "orset_dots s e \<noteq> [] \<longleftrightarrow> (\<exists>d. live (dg_list g) e d)" for e
  proof -
    have "set (orset_dots s e) = {d. live (dg_list g) e d}" using s(2) by (simp add: absorbs_def)
    then show ?thesis by (metis Collect_empty_eq set_empty)
  qed
  then have "e \<in> set ?es \<longleftrightarrow> (\<exists>d. inserted (dg_list g) e d \<and> \<not> removed (dg_list g) e d)" for e
    by (simp only: keys live_def)
  moreover have "orset_query s (QueryContains e) = Inr (RespContains (e \<in> set ?es))" for e
    by (simp only: orset_query_contains keys)
  ultimately show ?thesis using s(1)
    by (intro exI[of _ s] exI[of _ ?es]) (simp add: orset_merge_delta_group_def del: set_sort)
qed

theorem orset_observed_remove_witness:
  "\<exists>g. causal [] (dg_list g) \<and> g = example_group [OrSetDelta (Dot 1 0) (ChangeInsert 7),
       OrSetDelta (Dot 2 0) (ChangeRemove 7 [Dot 1 0]), OrSetDelta (Dot 3 0) (ChangeInsert 7)] \<and>
     (\<exists>s es. orset_merge_delta_group orset_new g = Done s \<and>
        orset_query s QueryElements = Inr (RespElements es) \<and> sorted es \<and> distinct es \<and>
        (\<forall>e. (e \<in> set es \<longleftrightarrow> (\<exists>d. inserted (dg_list g) e d \<and> \<not> removed (dg_list g) e d)) \<and>
          orset_query s (QueryContains e) = Inr (RespContains (e \<in> set es))))"
proof -
  let ?g = "example_group [OrSetDelta (Dot 1 0) (ChangeInsert 7),
       OrSetDelta (Dot 2 0) (ChangeRemove 7 [Dot 1 0]), OrSetDelta (Dot 3 0) (ChangeInsert 7)]"
  have h: "causal [] (dg_list ?g)" by (simp add: example_group_def deliverable_def pid_count_def inserted_def)
  show ?thesis using h orset_observed_remove[OF h] by blast
qed

text \<open>
  A local mutation is the merge of its own delta. Without an assigned identifier it changes
  nothing and reports \<open>MissingPid\<close>; otherwise (below the largest counter) it is acknowledged,
  and the resulting state is the one a remote replica in the same state reaches by merging the
  delta the mutation logged.
\<close>

theorem orset_mutate_is_merge:
  assumes "is_i64 (dotset_get (orset_version_vector s) p)" "dotset_get (orset_version_vector s) p < i64_max"
  shows "(orset_pid s = None \<longrightarrow> orset_mutate s m = Done (s, Inl MissingPid)) \<and>
    (orset_pid s = Some p \<longrightarrow>
       (\<exists>s'. orset_mutate s m = Done (s', Inr Acknowledged) \<and>
          orset_merge_delta (mutation_delta s p m) s = Done s' \<and>
          dotset_contains (orset_version_vector s') (Dot p (dotset_get (orset_version_vector s) p + 1))))"
proof -
  let ?vv = "orset_version_vector s"
  have c: "i64_add (dotset_get ?vv p) 1 = dotset_get ?vv p + 1" by (rule i64_add_1[OF assms])
  have new: "\<not> dotset_contains ?vv (delta_dot (mutation_delta s p m))"
    by (simp add: mutation_delta_def c dotset_contains_get)
  have "\<exists>s'. orset_merge_delta (mutation_delta s p m) s = Done s'"
  proof -
    have "\<exists>vv. dotset_insert ?vv (Dot p (dotset_get ?vv p + 1)) = Done vv"
      by (rule dotset_insert_succeeds) (use c in \<open>simp add: dotset_get_def split: option.splits\<close>)
    then have "\<exists>vv. dotset_insert ?vv (delta_dot (mutation_delta s p m)) = Done vv"
      by (simp add: mutation_delta_def c)
    then show ?thesis by (auto simp: orset_merge_delta_def new Let_def)
  qed
  then obtain s' where s': "orset_merge_delta (mutation_delta s p m) s = Done s'" ..
  moreover have "dotset_contains (orset_version_vector s') (Dot p (dotset_get ?vv p + 1))"
    using merge_delta_vv[OF s'] by (simp add: mutation_delta_def c)
  ultimately show ?thesis using mutate_as_merge[OF _ new]
    by (auto simp: orset_mutate_def[of s] next_dot_def)
qed

theorem orset_mutate_is_merge_witness:
  "\<exists>s. orset_pid s = Some 5 \<and> is_i64 (dotset_get (orset_version_vector s) 5) \<and>
     dotset_get (orset_version_vector s) 5 < i64_max \<and>
     (\<exists>s'. orset_mutate s (MutInsert (1::nat)) = Done (s', Inr Acknowledged) \<and>
        orset_merge_delta (mutation_delta s 5 (MutInsert 1)) s = Done s' \<and>
        dotset_contains (orset_version_vector s') (Dot 5 (dotset_get (orset_version_vector s) 5 + 1)))"
proof -
  let ?s = "orset_set_pid orset_new 5 :: nat orset"
  have h: "is_i64 (dotset_get (orset_version_vector ?s) 5)" "dotset_get (orset_version_vector ?s) 5 < i64_max"
    and p: "orset_pid ?s = Some 5"
    by (simp_all add: orset_set_pid_def orset_new_def dotset_get_def is_i64_def)
  show ?thesis using h p orset_mutate_is_merge[OF h, of "MutInsert 1"] by blast
qed

text \<open>
  Merging is idempotent. Once a delta group has been merged, from any state and in any
  order, merging it again changes nothing, and the version vector has only grown: a sender may
  resend a group as often as it likes.
\<close>

theorem orset_merge_idempotent:
  assumes "orset_merge_delta_group s g = Done s'"
  shows "orset_merge_delta_group s' g = Done s' \<and>
    dotset_le (orset_version_vector s) (orset_version_vector s')"
proof -
  from assms have "exec_fold orset_merge_delta (dg_list g) s = Done s'"
    by (simp add: orset_merge_delta_group_def)
  from merge_list_vv[OF this] show ?thesis
    by (auto simp: orset_merge_delta_group_def intro!: merge_list_covered)
qed

theorem orset_merge_idempotent_witness:
  "\<exists>s'. orset_merge_delta_group orset_new (example_group [OrSetDelta (Dot 1 0) (ChangeInsert 7)]) = Done s' \<and>
     orset_merge_delta_group s' (example_group [OrSetDelta (Dot 1 0) (ChangeInsert 7)]) = Done s' \<and>
     dotset_le (orset_version_vector (orset_new :: nat orset)) (orset_version_vector s')"
proof -
  let ?g = "example_group [OrSetDelta (Dot 1 0) (ChangeInsert 7)]"
  obtain s' where s': "orset_merge_delta_group orset_new ?g = Done s'"
    by (simp add: orset_merge_delta_group_def example_group_def orset_merge_delta_def orset_new_def
        dotset_contains_def dotset_insert_def Let_def)
  show ?thesis using s' orset_merge_idempotent[OF s'] by blast
qed

text \<open>
  C12: garbage collection is invisible. Collecting below a frontier changes no answer about
  elements, drops exactly the logged deltas that the frontier covers or a departed replica
  made, and a reader whose version vector covers those deltas is sent, process by process and
  in order, what it was sent before.
\<close>

theorem orset_gc_invisible:
  assumes "dotmap_wf (orset_delta_log s)" and "q \<noteq> QueryMeta"
    and "\<forall>d v. (d, v) \<in> dotmap_entries (orset_delta_log s) \<longrightarrow>
      dotset_contains frontier d \<or> dot_pid d \<in> set (departed_list departed) \<longrightarrow> dotset_contains reader d"
  shows "orset_query (orset_gc s frontier departed) q = orset_query s q \<and>
    dotmap_chain (orset_delta_log (orset_gc s frontier departed)) p =
      filter (\<lambda>x. \<not> dotset_contains frontier (fst x) \<and> dot_pid (fst x) \<notin> set (departed_list departed))
        (dotmap_chain (orset_delta_log s) p) \<and>
    filter (\<lambda>x. dot_pid (fst x) = p)
        (get_all_greater_iter (orset_delta_log (orset_gc s frontier departed)) reader) =
      filter (\<lambda>x. dot_pid (fst x) = p) (get_all_greater_iter (orset_delta_log s) reader)"
proof -
  let ?log = "orset_delta_log s" and ?log' = "orset_delta_log (orset_gc s frontier departed)"
  have keep: "\<not> dotset_contains frontier (fst x) \<and> dot_pid (fst x) \<notin> set (departed_list departed)"
    if "x \<in> set (dotmap_chain ?log p)" "\<not> dotset_contains reader (fst x)" for x
  proof -
    have "x \<in> dotmap_entries ?log"
      using that(1) dotmap_chain_pid[OF assms(1) that(1)] in_dotmap_entries_iff[OF assms(1), of "fst x" "snd x"]
      by simp
    then show ?thesis using assms(3) that(2) by (metis prod.collapse)
  qed
  have "filter (\<lambda>x. \<not> dotset_contains reader (fst x)) (dotmap_chain ?log' p) =
      filter (\<lambda>x. \<not> dotset_contains reader (fst x)) (dotmap_chain ?log p)"
    unfolding orset_gc_chain filter_filter using keep by (intro filter_cong) auto
  then show ?thesis
    using get_all_greater_iter_by_pid[OF assms(1)] get_all_greater_iter_by_pid[OF orset_gc_log_wf[OF assms(1)]]
      orset_gc_query[OF assms(2)] orset_gc_chain by metis
qed

theorem orset_gc_invisible_witness:
  "\<exists>s :: nat orset. dotmap_wf (orset_delta_log s) \<and> QueryElements \<noteq> (QueryMeta :: nat or_set_query) \<and>
     (\<forall>d v. (d, v) \<in> dotmap_entries (orset_delta_log s) \<longrightarrow>
        dotset_contains (dotset_of [(1, 0)]) d \<or> dot_pid d \<in> set (departed_list None) \<longrightarrow>
        dotset_contains (dotset_of [(1, 0)]) d) \<and>
     orset_query (orset_gc s (dotset_of [(1, 0)]) None) QueryElements = orset_query s QueryElements"
proof -
  let ?s = "orset_new\<lparr>orset_delta_log :=
    dotmap_insert dotmap_new (Dot 1 0) (OrSetDelta (Dot 1 0) (ChangeInsert 7))\<rparr> :: nat orset"
  have h: "dotmap_wf (orset_delta_log ?s)" "QueryElements \<noteq> (QueryMeta :: nat or_set_query)"
    "\<forall>d v. (d, v) \<in> dotmap_entries (orset_delta_log ?s) \<longrightarrow>
        dotset_contains (dotset_of [(1, 0)]) d \<or> dot_pid d \<in> set (departed_list None) \<longrightarrow>
        dotset_contains (dotset_of [(1, 0)]) d"
    by (auto intro: dotmap_wf_insert)
  show ?thesis using h orset_gc_invisible[OF h] by blast
qed

end
