(* ===== verification/Orset_System.thy ===== *)
theory Orset_System
  imports Orset_Causality
begin

text \<open>
  A system of replicas of one observed-remove set: each replica mutates its own state and
  pulls delta groups from the others (\<open>get_delta\<close> on the sender, \<open>merge_delta_group\<close> on the
  receiver), in any order and any number of times. As long as every delivered group
  continues the receiver's history causally, replicas with the same version vector give
  the same answers: strong eventual consistency. A last section shows that the guard is
  needed, and that \<open>get_delta\<close> does not establish it.
\<close>

section \<open>States and steps\<close>

text \<open>Beside its state a node carries the list of deltas it absorbed, which no step reads.\<close>

record 'e node =
  node_state :: "'e orset"
  node_history :: "'e history"

type_synonym 'e system = "pid \<Rightarrow> 'e node"

definition init_system :: "'e system" where
  "init_system p = \<lparr>node_state = orset_set_pid orset_new p, node_history = []\<rparr>"

abbreviation node_vv :: "'e system \<Rightarrow> pid \<Rightarrow> dot_set" where
  "node_vv sys p \<equiv> orset_version_vector (node_state (sys p))"

inductive system_step :: "'e system \<Rightarrow> 'e system \<Rightarrow> bool" where
  mutate_step:
    "orset_mutate (node_state (sys p)) m = Done (s', Inr Acknowledged) \<Longrightarrow>
     dotset_get (node_vv sys p) p < i64_max \<Longrightarrow>
     system_step sys (sys(p := \<lparr>node_state = s',
       node_history = node_history (sys p) @ [mutation_delta (node_state (sys p)) p m]\<rparr>))"
| pull_step:
    "dgroup = orset_get_delta (node_state (sys q)) (node_vv sys p) \<Longrightarrow>
     causal (node_history (sys p)) (dg_list dgroup) \<Longrightarrow>
     orset_merge_delta_group (node_state (sys p)) dgroup = Done s' \<Longrightarrow>
     system_step sys (sys(p := \<lparr>node_state = s',
       node_history = node_history (sys p) @ dg_list dgroup\<rparr>))"

inductive_cases system_stepE: "system_step sys sys'"

inductive reachable :: "'e system \<Rightarrow> bool" where
  reachable_init: "reachable init_system"
| reachable_step: "reachable sys \<Longrightarrow> system_step sys sys' \<Longrightarrow> reachable sys'"

section \<open>The invariant\<close>

definition node_ok :: "'e system \<Rightarrow> pid \<Rightarrow> bool" where
  "node_ok sys p \<longleftrightarrow>
     absorbs (node_state (sys p)) (node_history (sys p)) \<and>
     logs (node_state (sys p)) (node_history (sys p)) \<and>
     causal [] (node_history (sys p)) \<and> orset_pid (node_state (sys p)) = Some p"

text \<open>Every delta anywhere is also at the replica that made it.\<close>

definition owned :: "'e system \<Rightarrow> bool" where
  "owned sys \<longleftrightarrow> (\<forall>q. \<forall>delta \<in> set (node_history (sys q)).
     delta \<in> set (node_history (sys (dot_pid (delta_dot delta)))))"

definition system_inv :: "'e system \<Rightarrow> bool" where
  "system_inv sys \<longleftrightarrow> (\<forall>p. node_ok sys p) \<and> owned sys"

lemma system_inv_init: "system_inv init_system"
  by (simp add: system_inv_def node_ok_def owned_def init_system_def absorbs_new logs_new)
    (simp add: orset_set_pid_def)

lemma system_agree:
  assumes "system_inv sys" "x \<in> set (node_history (sys p))" "y \<in> set (node_history (sys q))"
    and "delta_dot x = delta_dot y"
  shows "x = y"
proof -
  let ?o = "dot_pid (delta_dot x)"
  have own: "delta \<in> set (node_history (sys q')) \<Longrightarrow> delta \<in> set (node_history (sys (dot_pid (delta_dot delta))))"
    for q' delta using assms(1) by (simp add: system_inv_def owned_def)
  have "x \<in> set (node_history (sys ?o))" "y \<in> set (node_history (sys ?o))"
    using own[OF assms(2)] own[OF assms(3)] assms(4) by simp_all
  moreover have "causal [] (node_history (sys ?o))"
    using assms(1) by (simp add: system_inv_def node_ok_def)
  ultimately show ?thesis using causal_unique assms(4) by blast
qed

lemma node_ok_update:
  "node_ok (sys(p := n)) q \<longleftrightarrow> (if q = p then node_ok (\<lambda>_. n) p else node_ok sys q)"
  by (simp add: node_ok_def)

lemma owned_update:
  assumes "owned sys" "set (node_history (sys p)) \<subseteq> set (node_history n)"
    and "\<And>delta. delta \<in> set (node_history n) \<Longrightarrow>
      delta \<in> set (node_history (sys (dot_pid (delta_dot delta)))) \<or> dot_pid (delta_dot delta) = p"
  shows "owned (sys(p := n))"
  unfolding owned_def
proof (intro allI ballI)
  fix q delta assume d: "delta \<in> set (node_history ((sys(p := n)) q))"
  show "delta \<in> set (node_history ((sys(p := n)) (dot_pid (delta_dot delta))))"
  proof (cases "q = p")
    case True
    with d have "delta \<in> set (node_history n)" by simp
    then show ?thesis using assms(2) assms(3)[of delta] by auto
  next
    case False
    with d assms(1) have "delta \<in> set (node_history (sys (dot_pid (delta_dot delta))))"
      by (simp add: owned_def)
    then show ?thesis using assms(2) by auto
  qed
qed

lemma system_inv_mutate:
  assumes inv: "system_inv sys"
    and m: "orset_mutate (node_state (sys p)) m = Done (s', Inr Acknowledged)"
    and bound: "dotset_get (node_vv sys p) p < i64_max"
  shows "system_inv (sys(p := \<lparr>node_state = s',
       node_history = node_history (sys p) @ [mutation_delta (node_state (sys p)) p m]\<rparr>))"
proof -
  let ?s = "node_state (sys p)" and ?L = "node_history (sys p)"
  have ok: "absorbs ?s ?L" "logs ?s ?L" "causal [] ?L" "orset_pid ?s = Some p"
    using inv by (simp_all add: system_inv_def node_ok_def)
  have "int (pid_count ?L p) \<le> i64_max"
    using ok(1) bound by (cases "pid_count ?L p = 0") (simp_all add: absorbs_def dotset_get_def)
  from mutate_absorbs[OF ok this, of m] m
  have "node_ok (\<lambda>_. \<lparr>node_state = s', node_history = ?L @ [mutation_delta ?s p m]\<rparr>) p"
    by (simp add: node_ok_def)
  moreover have "owned (sys(p := \<lparr>node_state = s', node_history = ?L @ [mutation_delta ?s p m]\<rparr>))"
  proof (rule owned_update)
    show "owned sys" using inv by (simp add: system_inv_def)
  qed (use inv in \<open>auto simp: system_inv_def owned_def mutation_delta_def\<close>)
  ultimately show ?thesis using inv by (simp add: system_inv_def node_ok_update)
qed

lemma system_pull:
  assumes inv: "system_inv sys"
    and causal: "causal (node_history (sys p)) (dg_list (orset_get_delta (node_state (sys q)) (node_vv sys p)))"
  shows "\<exists>s'. orset_merge_delta_group (node_state (sys p)) (orset_get_delta (node_state (sys q)) (node_vv sys p)) = Done s' \<and>
    system_inv (sys(p := \<lparr>node_state = s',
       node_history = node_history (sys p) @ dg_list (orset_get_delta (node_state (sys q)) (node_vv sys p))\<rparr>)) \<and>
    set (node_history (sys p) @ dg_list (orset_get_delta (node_state (sys q)) (node_vv sys p))) =
      set (node_history (sys p)) \<union> set (node_history (sys q))"
proof -
  let ?s = "node_state (sys p)" and ?L = "node_history (sys p)"
  let ?xs = "dg_list (orset_get_delta (node_state (sys q)) (node_vv sys p))"
  have p: "absorbs ?s ?L" "logs ?s ?L" "causal [] ?L" "orset_pid ?s = Some p"
    and q: "absorbs (node_state (sys q)) (node_history (sys q))"
      "logs (node_state (sys q)) (node_history (sys q))" "causal [] (node_history (sys q))"
    using inv by (simp_all add: system_inv_def node_ok_def)
  obtain s' where s': "orset_merge_delta_group ?s (orset_get_delta (node_state (sys q)) (node_vv sys p)) = Done s'"
    "absorbs s' (?L @ ?xs)" "logs s' (?L @ ?xs)" "orset_pid s' = Some p"
    "set (?L @ ?xs) = set ?L \<union> set (node_history (sys q))"
    using pull_absorbs[OF p(1-3) q causal] system_agree[OF inv] p(4) by metis
  have "node_ok (\<lambda>_. \<lparr>node_state = s', node_history = ?L @ ?xs\<rparr>) p"
    using s' p(3) causal by (simp add: node_ok_def causal_append)
  moreover have "owned (sys(p := \<lparr>node_state = s', node_history = ?L @ ?xs\<rparr>))"
  proof (rule owned_update)
    show "owned sys" using inv by (simp add: system_inv_def)
  next
    fix delta assume "delta \<in> set (node_history \<lparr>node_state = s', node_history = ?L @ ?xs\<rparr>)"
    then have "delta \<in> set ?L \<union> set (node_history (sys q))"
      by (simp only: s'(5)[symmetric] node.select_convs)
    then show "delta \<in> set (node_history (sys (dot_pid (delta_dot delta)))) \<or> dot_pid (delta_dot delta) = p"
      using inv by (auto simp: system_inv_def owned_def)
  qed simp
  ultimately show ?thesis using inv s'(1,5) by (auto simp: system_inv_def node_ok_update)
qed

lemma system_inv_step: "system_step sys sys' \<Longrightarrow> system_inv sys \<Longrightarrow> system_inv sys'"
proof (induction rule: system_step.induct)
  case (mutate_step sys p m s')
  then show ?case by (intro system_inv_mutate)
next
  case (pull_step dgroup sys q p s')
  then show ?case using system_pull[of sys p q] by (metis exec.inject(1))
qed

lemma reachable_inv: "reachable sys \<Longrightarrow> system_inv sys"
  by (induction rule: reachable.induct) (auto intro: system_inv_init system_inv_step)

section \<open>Equal version vectors, equal histories\<close>

lemma vv_le_history:
  assumes inv: "system_inv sys" and le: "dotset_le (node_vv sys p) (node_vv sys q)"
  shows "set (node_history (sys p)) \<subseteq> set (node_history (sys q))"
proof
  fix delta assume d: "delta \<in> set (node_history (sys p))"
  have p: "absorbs (node_state (sys p)) (node_history (sys p))" "causal [] (node_history (sys p))"
    and q: "absorbs (node_state (sys q)) (node_history (sys q))" "causal [] (node_history (sys q))"
    using inv by (simp_all add: system_inv_def node_ok_def)
  have nn: "0 \<le> dot_counter (delta_dot delta)" using causal_dots[OF p(2)] d by blast
  have "dotset_contains (node_vv sys p) (delta_dot delta)"
    using d by (simp add: absorbs_contains_iff[OF p nn])
  then have "delta_dot delta \<in> delta_dot ` set (node_history (sys q))"
    using dotset_le_contains[OF le] absorbs_contains_iff[OF q nn] by blast
  then obtain x where x: "x \<in> set (node_history (sys q))" "delta_dot x = delta_dot delta" by auto
  with system_agree[OF inv x(1) d] show "delta \<in> set (node_history (sys q))" by simp
qed

lemma dotset_eq_le: "dotset_eq a b \<Longrightarrow> dotset_le a b"
  by (simp add: dotset_eq_iff dotset_le_iff)

lemma dotset_eq_sym: "dotset_eq a b \<Longrightarrow> dotset_eq b a"
  by (simp add: dotset_eq_iff)

lemma vv_eq_history:
  "system_inv sys \<Longrightarrow> dotset_eq (node_vv sys p) (node_vv sys q) \<Longrightarrow>
   set (node_history (sys p)) = set (node_history (sys q))"
  by (intro subset_antisym vv_le_history dotset_eq_le) (auto intro: dotset_eq_sym)


section \<open>Properties\<close>

text \<open>
  C1: strong eventual consistency. In every system reached by local mutations and causal
  pulls, two replicas whose version vectors are equal give the same answer to every query
  about elements, whatever they did and received and in whichever order.
\<close>

theorem strong_eventual_consistency:
  assumes "reachable sys" "dotset_eq (node_vv sys p) (node_vv sys q)" "query \<noteq> QueryMeta"
  shows "orset_query (node_state (sys p)) query = orset_query (node_state (sys q)) query"
proof -
  have inv: "system_inv sys" by (rule reachable_inv[OF assms(1)])
  then have "absorbs (node_state (sys p)) (node_history (sys p))"
    "absorbs (node_state (sys q)) (node_history (sys q))"
    by (simp_all add: system_inv_def node_ok_def)
  then show ?thesis using absorbs_query_eq vv_eq_history[OF inv assms(2)] assms(3) by blast
qed

text \<open>A run for closed examples: replica 1 inserts 7 and replica 2 pulls it.\<close>

definition orset_pull :: "'e orset \<Rightarrow> 'e orset \<Rightarrow> 'e orset exec" where
  "orset_pull receiver sender =
     orset_merge_delta_group receiver (orset_get_delta sender (orset_version_vector receiver))"

definition example_writer :: "nat orset" where
  "example_writer =
     \<lparr>orset_pid = Some 1, orset_entries = hm_insert hm_new 7 [Dot 1 0],
      orset_delta_log = dotmap_insert dotmap_new (Dot 1 0) (OrSetDelta (Dot 1 0) (ChangeInsert 7)),
      orset_version_vector = dotset_of [(1, 0)]\<rparr>"

definition example_system :: "nat system" where
  "example_system = init_system(1 := \<lparr>node_state = example_writer,
     node_history = [OrSetDelta (Dot 1 0) (ChangeInsert 7)]\<rparr>)"

lemma example_system_reachable: "reachable example_system"
proof -
  let ?s = "orset_set_pid orset_new 1 :: nat orset"
  have m: "orset_mutate ?s (MutInsert 7) = Done (example_writer, Inr Acknowledged)" by code_simp
  have vv: "dotset_get (orset_version_vector ?s) 1 < i64_max" by code_simp
  have d: "mutation_delta ?s 1 (MutInsert 7) = OrSetDelta (Dot 1 0) (ChangeInsert 7)" by code_simp
  have "system_step init_system example_system"
    using mutate_step[of init_system 1 "MutInsert 7" example_writer] m vv d
    by (simp add: init_system_def example_system_def)
  then show ?thesis using reachable_init reachable_step by blast
qed

lemma example_pull_causal:
  "causal (node_history (example_system 2))
     (dg_list (orset_get_delta (node_state (example_system 1)) (node_vv example_system 2)))"
proof -
  have "dg_list (orset_get_delta example_writer (orset_version_vector (orset_set_pid orset_new 2 :: nat orset))) =
      [OrSetDelta (Dot 1 0) (ChangeInsert 7)]" by code_simp
  then show ?thesis by (simp add: example_system_def init_system_def deliverable_def pid_count_def)
qed

text \<open>
  A causal pull never fails and catches up. From any reachable system, a replica that is
  sent a causally ordered group merges it without panicking, reaches a state of the system
  again, and its version vector then covers both its own old one and the sender's.
\<close>

theorem causal_pull_catches_up:
  assumes "reachable sys"
    and "causal (node_history (sys p)) (dg_list (orset_get_delta (node_state (sys q)) (node_vv sys p)))"
  shows "\<exists>s'. orset_pull (node_state (sys p)) (node_state (sys q)) = Done s' \<and>
    reachable (sys(p := \<lparr>node_state = s', node_history = node_history (sys p) @
       dg_list (orset_get_delta (node_state (sys q)) (node_vv sys p))\<rparr>)) \<and>
    dotset_le (node_vv sys p) (orset_version_vector s') \<and>
    dotset_le (node_vv sys q) (orset_version_vector s')"
proof -
  let ?xs = "dg_list (orset_get_delta (node_state (sys q)) (node_vv sys p))"
  have inv: "system_inv sys" by (rule reachable_inv[OF assms(1)])
  obtain s' where s': "orset_pull (node_state (sys p)) (node_state (sys q)) = Done s'"
    and inv': "system_inv (sys(p := \<lparr>node_state = s', node_history = node_history (sys p) @ ?xs\<rparr>))"
    and hist: "set (node_history (sys p) @ ?xs) = set (node_history (sys p)) \<union> set (node_history (sys q))"
    using system_pull[OF inv assms(2)] by (auto simp: orset_pull_def)
  have ok: "absorbs s' (node_history (sys p) @ ?xs)" "causal [] (node_history (sys p) @ ?xs)"
    using inv' unfolding system_inv_def node_ok_def by (metis fun_upd_same node.select_convs)+
  have "dotset_le (node_vv sys r) (orset_version_vector s')" if "r \<in> {p, q}" for r
  proof (rule absorbs_vv_mono[OF _ _ ok])
    show "absorbs (node_state (sys r)) (node_history (sys r))" "causal [] (node_history (sys r))"
      using inv by (simp_all add: system_inv_def node_ok_def)
    show "set (node_history (sys r)) \<subseteq> set (node_history (sys p) @ ?xs)" unfolding hist using that by auto
  qed
  then show ?thesis
    using s' reachable_step[OF assms(1) pull_step[OF refl assms(2) s'[unfolded orset_pull_def]]] by blast
qed

theorem causal_pull_catches_up_witness:
  "reachable example_system \<and>
   causal (node_history (example_system 2))
     (dg_list (orset_get_delta (node_state (example_system 1)) (node_vv example_system 2))) \<and>
   (\<exists>s'. orset_pull (node_state (example_system 2)) (node_state (example_system 1)) = Done s' \<and>
      dotset_le (node_vv example_system 1) (orset_version_vector s'))"
  using example_system_reachable example_pull_causal
    causal_pull_catches_up[OF example_system_reachable example_pull_causal] by blast

theorem strong_eventual_consistency_witness:
  "\<exists>sys :: nat system. reachable sys \<and> dotset_eq (node_vv sys 1) (node_vv sys 2) \<and>
     QueryElements \<noteq> (QueryMeta :: nat or_set_query) \<and>
     orset_query (node_state (sys 1)) QueryElements = orset_query (node_state (sys 2)) QueryElements"
proof -
  define t where "t = example_writer\<lparr>orset_pid := Some 2\<rparr>"
  define sys where "sys = example_system(2 := \<lparr>node_state = t, node_history = node_history (example_system 2) @
    dg_list (orset_get_delta (node_state (example_system 1)) (node_vv example_system 2))\<rparr>)"
  have "orset_merge_delta_group (orset_set_pid orset_new 2)
      (orset_get_delta example_writer (orset_version_vector (orset_set_pid orset_new 2))) = Done t"
    unfolding t_def by code_simp
  then have "orset_merge_delta_group (node_state (example_system 2))
      (orset_get_delta (node_state (example_system 1)) (node_vv example_system 2)) = Done t"
    by (simp add: example_system_def init_system_def)
  then have h: "reachable sys"
    using reachable_step[OF example_system_reachable pull_step[OF refl example_pull_causal]]
    by (simp add: sys_def)
  have vv: "dotset_eq (node_vv sys 1) (node_vv sys 2)"
    by (simp add: sys_def example_system_def t_def dotset_eq_iff)
  have "QueryElements \<noteq> (QueryMeta :: nat or_set_query)" by simp
  then show ?thesis using h vv strong_eventual_consistency[OF h vv] by blast
qed

text \<open>
  The delivery order of \<open>get_delta\<close>. Replica 1 inserts 7; replica 2 inserts 9, pulls from 1
  and removes 7; replica 3 then pulls from 2. The group lists the two processes one after the
  other, in the order in which the hash map of the log visits them.
\<close>

definition out_of_order_run :: "(nat orset \<times> nat orset) exec" where
  "out_of_order_run =
     exec_bind (orset_mutate (orset_set_pid orset_new 1) (MutInsert 7)) (\<lambda>(a, _).
     exec_bind (orset_mutate (orset_set_pid orset_new 2) (MutInsert 9)) (\<lambda>(b, _).
     exec_bind (orset_pull b a) (\<lambda>b.
     exec_bind (orset_mutate b (MutRemove 7)) (\<lambda>(b, _).
     exec_bind (orset_pull (orset_set_pid orset_new 3) b) (\<lambda>c.
       Done (b, c))))))"


end
