(* ===== verification/Journal.thy ===== *)
theory Journal
  imports Crdt
begin

text \<open>
  The durability journal (\<^verbatim>\<open>src/src/journal.rs\<close>): a snapshot file and an append-only
  log of records, both stamped with a generation. The disk is the content of the two files,
  as bytes. The JSON encoding is not part of the repository: it is the parameter \<open>codec\<close>,
  with what the journal relies on collected in \<open>codec_ok\<close>. Failing writes and crashes are
  explicit: an append may leave any prefix of its bytes behind, the replacement of the
  snapshot is atomic (a rename), and it may happen without the truncation that follows it.
\<close>

section \<open>Records, files and the codec\<close>

type_synonym byte = "8 word"

abbreviation newline :: byte where
  "newline \<equiv> 10"

definition is_ascii_whitespace :: "byte \<Rightarrow> bool" where
  "is_ascii_whitespace b \<longleftrightarrow> b \<in> {9, 10, 12, 13, 32}"

record 'v raw_record =
  rr_generation :: u64
  rr_record_type :: string
  rr_payload :: 'v

datatype journal_error =
    MissingSnapshot
  | UnknownRecordType string
  | AlreadyLocked
  | LockFailed
  | Io
  | Serialization

text \<open>
  The functions of \<open>serde_json\<close> the journal calls: records to and from bytes, and each kind
  of payload to and from a JSON value.
\<close>

record ('v, 's, 'd, 'x, 'm) codec =
  js_to_vec :: "'v raw_record \<Rightarrow> byte list"
  js_from_slice :: "byte list \<Rightarrow> 'v raw_record option"
  js_snapshot_to :: "'s persistent_replica \<Rightarrow> 'v option"
  js_snapshot_from :: "'v \<Rightarrow> 's persistent_replica option"
  js_delta_to :: "('d, 'x) delta_group \<Rightarrow> 'v option"
  js_delta_from :: "'v \<Rightarrow> ('d, 'x) delta_group option"
  js_mutation_to :: "'m \<Rightarrow> 'v option"
  js_mutation_from :: "'v \<Rightarrow> 'm option"
  js_marker_to :: "gc_marker \<Rightarrow> 'v option"
  js_marker_from :: "'v \<Rightarrow> gc_marker option"

record disk =
  d_snapshot :: "byte list option"
  d_mutations :: "byte list option"

text \<open>
  How the writes of a call end: how many bytes an append leaves behind if it fails, and
  whether the replacement of the snapshot and the truncation of the log succeed.
\<close>

record io_outcome =
  io_append_failed :: "nat option"
  io_replace_ok :: bool
  io_clear_ok :: bool

definition io_ok :: io_outcome where
  "io_ok = \<lparr>io_append_failed = None, io_replace_ok = True, io_clear_ok = True\<rparr>"

text \<open>A journal without paths is the disabled one.\<close>

record journal =
  jr_enabled :: bool
  jr_generation :: u64


section \<open>Opening\<close>

definition snapshot_generation :: "('v, 's, 'd, 'x, 'm) codec \<Rightarrow> disk \<Rightarrow> journal_error + u64" where
  "snapshot_generation c d =
     (case d_snapshot d of
        None \<Rightarrow> Inr 0
      | Some bytes \<Rightarrow>
          (case js_from_slice c bytes of
             None \<Rightarrow> Inl Serialization
           | Some record \<Rightarrow>
               if rr_record_type record \<noteq> ''snapshot'' then Inl (UnknownRecordType (rr_record_type record))
               else Inr (rr_generation record)))"

datatype flock_result = Locked | WouldBlock | LockErrno

definition journal_new ::
  "('v, 's, 'd, 'x, 'm) codec \<Rightarrow> flock_result \<Rightarrow> disk \<Rightarrow> journal_error + journal" where
  "journal_new c flock d =
     (case flock of
        WouldBlock \<Rightarrow> Inl AlreadyLocked
      | LockErrno \<Rightarrow> Inl LockFailed
      | Locked \<Rightarrow>
          (case snapshot_generation c d of
             Inl e \<Rightarrow> Inl e
           | Inr generation \<Rightarrow> Inr \<lparr>jr_enabled = True, jr_generation = generation\<rparr>))"

definition journal_disabled :: journal where
  "journal_disabled = \<lparr>jr_enabled = False, jr_generation = 0\<rparr>"

definition open_or_disabled ::
  "('v, 's, 'd, 'x, 'm) codec \<Rightarrow> flock_result option \<Rightarrow> disk \<Rightarrow> journal exec" where
  "open_or_disabled c path d =
     (case path of
        None \<Rightarrow> Done journal_disabled
      | Some flock \<Rightarrow>
          (case journal_new c flock d of
             Inl _ \<Rightarrow> Panicked (PanicMessage ''Failed to initialize durability journal'')
           | Inr j \<Rightarrow> Done j))"


section \<open>Writing\<close>

definition append_record_locked ::
  "('v, 's, 'd, 'x, 'm) codec \<Rightarrow> io_outcome \<Rightarrow> journal \<Rightarrow> string \<Rightarrow> 'v \<Rightarrow> disk \<Rightarrow>
   disk \<times> (journal_error + unit)" where
  "append_record_locked c io self record_type payload d =
     (let record = \<lparr>rr_generation = jr_generation self, rr_record_type = record_type, rr_payload = payload\<rparr>;
          line = js_to_vec c record @ [newline];
          log = (case d_mutations d of Some bytes \<Rightarrow> bytes | None \<Rightarrow> [])
      in case io_append_failed io of
           None \<Rightarrow> (d\<lparr>d_mutations := Some (log @ line)\<rparr>, Inr ())
         | Some n \<Rightarrow> (d\<lparr>d_mutations := Some (log @ take n line)\<rparr>, Inl Io))"

definition replace_snapshot_record_locked ::
  "('v, 's, 'd, 'x, 'm) codec \<Rightarrow> io_outcome \<Rightarrow> 'v raw_record \<Rightarrow> disk \<Rightarrow> disk \<times> (journal_error + unit)" where
  "replace_snapshot_record_locked c io record d =
     (if io_replace_ok io then (d\<lparr>d_snapshot := Some (js_to_vec c record @ [newline])\<rparr>, Inr ())
      else (d, Inl Io))"

definition clear_mutation_log_locked :: "io_outcome \<Rightarrow> disk \<Rightarrow> disk \<times> (journal_error + unit)" where
  "clear_mutation_log_locked io d =
     (if io_clear_ok io then (d\<lparr>d_mutations := Some []\<rparr>, Inr ()) else (d, Inl Io))"

definition replace_snapshot_and_clear_log_locked ::
  "('v, 's, 'd, 'x, 'm) codec \<Rightarrow> io_outcome \<Rightarrow> u64 \<Rightarrow> 's persistent_replica \<Rightarrow> disk \<Rightarrow>
   disk \<times> (journal_error + unit)" where
  "replace_snapshot_and_clear_log_locked c io generation snapshot d =
     (case js_snapshot_to c snapshot of
        None \<Rightarrow> (d, Inl Serialization)
      | Some payload \<Rightarrow>
          (case replace_snapshot_record_locked c io
                  \<lparr>rr_generation = generation, rr_record_type = ''snapshot'', rr_payload = payload\<rparr> d of
             (d', Inl e) \<Rightarrow> (d', Inl e)
           | (d', Inr _) \<Rightarrow> clear_mutation_log_locked io d'))"

definition append_snapshot ::
  "('v, 's, 'd, 'x, 'm) codec \<Rightarrow> io_outcome \<Rightarrow> 's persistent_replica \<Rightarrow> journal \<times> disk \<Rightarrow>
   (journal \<times> disk) exec" where
  "append_snapshot c io snapshot = (\<lambda>(self, d).
     if \<not> jr_enabled self then Done (self, d)
     else
       (let next_generation = jr_generation self + 1
        in case replace_snapshot_and_clear_log_locked c io next_generation snapshot d of
             (d', Inl _) \<Rightarrow> Panicked (PanicMessage ''Failed to append durable snapshot'')
           | (d', Inr _) \<Rightarrow> Done (self\<lparr>jr_generation := next_generation\<rparr>, d')))"

definition append_delta_group ::
  "('v, 's, 'd, 'x, 'm) codec \<Rightarrow> io_outcome \<Rightarrow> ('d, 'x) delta_group \<Rightarrow> journal \<times> disk \<Rightarrow>
   (journal \<times> disk) exec" where
  "append_delta_group c io dgroup = (\<lambda>(self, d).
     if \<not> jr_enabled self then Done (self, d)
     else
       (case js_delta_to c dgroup of
          None \<Rightarrow> Panicked (PanicMessage ''Failed to append durable delta group'')
        | Some payload \<Rightarrow>
            (case append_record_locked c io self ''delta_group'' payload d of
               (d', Inl _) \<Rightarrow> Panicked (PanicMessage ''Failed to append durable delta group'')
             | (d', Inr _) \<Rightarrow> Done (self, d'))))"

definition append_gc_marker ::
  "('v, 's, 'd, 'x, 'm) codec \<Rightarrow> io_outcome \<Rightarrow> gc_marker \<Rightarrow> journal \<times> disk \<Rightarrow>
   (journal \<times> disk) exec" where
  "append_gc_marker c io marker = (\<lambda>(self, d).
     if \<not> jr_enabled self then Done (self, d)
     else
       (case js_marker_to c marker of
          None \<Rightarrow> Panicked (PanicMessage ''Failed to append durable GC marker'')
        | Some payload \<Rightarrow>
            (case append_record_locked c io self ''gc_marker'' payload d of
               (d', Inl _) \<Rightarrow> Panicked (PanicMessage ''Failed to append durable GC marker'')
             | (d', Inr _) \<Rightarrow> Done (self, d'))))"

definition append_mutation ::
  "('v, 's, 'd, 'x, 'm) codec \<Rightarrow> io_outcome \<Rightarrow> 'm \<Rightarrow> journal \<times> disk \<Rightarrow>
   (journal \<times> disk) \<times> (journal_error + unit)" where
  "append_mutation c io mutation = (\<lambda>(self, d).
     if \<not> jr_enabled self then ((self, d), Inr ())
     else
       (case js_mutation_to c mutation of
          None \<Rightarrow> ((self, d), Inl Serialization)
        | Some payload \<Rightarrow>
            (case append_record_locked c io self ''mutation'' payload d of
               (d', r) \<Rightarrow> ((self, d'), r))))"


section \<open>Recovery\<close>

text \<open>\<open>read_until\<close>: the bytes up to and including the first newline, and what follows.\<close>

fun read_until :: "byte list \<Rightarrow> byte list \<times> byte list" where
  "read_until [] = ([], [])"
| "read_until (b # bs) =
     (if b = newline then ([b], bs)
      else (case read_until bs of (line, rest) \<Rightarrow> (b # line, rest)))"

lemma read_until_append: "read_until bs = (line, rest) \<Longrightarrow> bs = line @ rest"
  by (induction bs arbitrary: line rest) (auto split: if_splits prod.splits)

lemma read_until_shorter: "read_until bs = (line, rest) \<Longrightarrow> line \<noteq> [] \<Longrightarrow> length rest < length bs"
  by (frule read_until_append) simp

text \<open>
  One record of the log. \<open>None\<close> means that the record is corrupt: the loop stops and the
  rest of the log is discarded.
\<close>

definition replay_line ::
  "('s, 'd, 'x, 'q, 'm, 'r) crdt_ops \<Rightarrow> ('v, 's, 'd, 'x, 'm) codec \<Rightarrow> u64 \<Rightarrow> byte list \<Rightarrow>
   's persistent_replica \<Rightarrow> 's persistent_replica option exec" where
  "replay_line ops c generation line recovered =
     (if list_all is_ascii_whitespace line then Done (Some recovered)
      else
        (case js_from_slice c line of
           None \<Rightarrow> Done None
         | Some record \<Rightarrow>
             if rr_generation record \<noteq> generation then Done (Some recovered)
             else if rr_record_type record = ''delta_group'' then
               (case js_delta_from c (rr_payload record) of
                  Some delta \<Rightarrow>
                    exec_map (\<lambda>s. Some (recovered\<lparr>pr_local_state := s\<rparr>))
                      (op_merge_delta_group ops (pr_local_state recovered) delta)
                | None \<Rightarrow> Done None)
             else if rr_record_type record = ''mutation'' then
               (case js_mutation_from c (rr_payload record) of
                  Some mutation \<Rightarrow>
                    exec_map (\<lambda>(s, _). Some (recovered\<lparr>pr_local_state := s\<rparr>))
                      (op_mutate ops (pr_local_state recovered) mutation)
                | None \<Rightarrow> Done None)
             else if rr_record_type record = ''gc_marker'' then
               (case js_marker_from c (rr_payload record) of
                  Some marker \<Rightarrow>
                    (let s = op_gc ops (pr_local_state recovered) (gm_stable marker) (gm_departed_pids marker)
                     in exec_map (\<lambda>w. Some \<lparr>pr_local_state = s, pr_crdt_wrapper = w\<rparr>)
                          (push_gc_marker (pr_crdt_wrapper recovered) marker))
                | None \<Rightarrow> Done None)
             else Done None))"

text \<open>The loop over the log; the flag is \<open>discard_suffix\<close>.\<close>

function replay_log ::
  "('s, 'd, 'x, 'q, 'm, 'r) crdt_ops \<Rightarrow> ('v, 's, 'd, 'x, 'm) codec \<Rightarrow> u64 \<Rightarrow> byte list \<Rightarrow>
   's persistent_replica \<Rightarrow> ('s persistent_replica \<times> bool) exec" where
  "replay_log ops c generation bytes recovered =
     (case read_until bytes of (line, rest) \<Rightarrow>
        if line = [] then Done (recovered, False)
        else if last line \<noteq> newline then Done (recovered, True)
        else
          exec_bind (replay_line ops c generation line recovered) (\<lambda>r.
            case r of
              None \<Rightarrow> Done (recovered, True)
            | Some recovered' \<Rightarrow> replay_log ops c generation rest recovered'))"
  by pat_completeness auto
termination
  by (relation "measure (\<lambda>(_, _, _, bytes, _). length bytes)") (auto dest: read_until_shorter[OF sym])

declare replay_log.simps [simp del]

definition recover_locked ::
  "('s, 'd, 'x, 'q, 'm, 'r) crdt_ops \<Rightarrow> ('v, 's, 'd, 'x, 'm) codec \<Rightarrow> io_outcome \<Rightarrow> journal \<times> disk \<Rightarrow>
   ((journal \<times> disk) \<times> (journal_error + 's persistent_replica option)) exec" where
  "recover_locked ops c io = (\<lambda>(self, d).
     case d_snapshot d of
       None \<Rightarrow>
         (case d_mutations d of
            Some bytes \<Rightarrow> if bytes \<noteq> [] then Done ((self, d), Inl MissingSnapshot) else Done ((self, d), Inr None)
          | None \<Rightarrow> Done ((self, d), Inr None))
     | Some bytes \<Rightarrow>
         (case js_from_slice c bytes of
            None \<Rightarrow> Done ((self, d), Inl Serialization)
          | Some snapshot_record \<Rightarrow>
              if rr_record_type snapshot_record \<noteq> ''snapshot''
              then Done ((self, d), Inl (UnknownRecordType (rr_record_type snapshot_record)))
              else
                (let generation = rr_generation snapshot_record
                 in case js_snapshot_from c (rr_payload snapshot_record) of
                      None \<Rightarrow> Done ((self, d), Inl Serialization)
                    | Some snapshot \<Rightarrow>
                        exec_bind (case d_mutations d of
                                     Some log \<Rightarrow> replay_log ops c generation log snapshot
                                   | None \<Rightarrow> Done (snapshot, False)) (\<lambda>(recovered, discard_suffix).
                          if discard_suffix then
                            (case replace_snapshot_and_clear_log_locked c io (generation + 1) recovered d of
                               (d', Inl e) \<Rightarrow> Done ((self, d'), Inl e)
                             | (d', Inr _) \<Rightarrow>
                                 Done ((self\<lparr>jr_generation := generation + 1\<rparr>, d'), Inr (Some recovered)))
                          else Done ((self, d), Inr (Some recovered))))))"

definition journal_recover ::
  "('s, 'd, 'x, 'q, 'm, 'r) crdt_ops \<Rightarrow> ('v, 's, 'd, 'x, 'm) codec \<Rightarrow> io_outcome \<Rightarrow> journal \<times> disk \<Rightarrow>
   ((journal \<times> disk) \<times> (journal_error + 's persistent_replica option)) exec" where
  "journal_recover ops c io = (\<lambda>(self, d).
     if \<not> jr_enabled self then Done ((self, d), Inr None)
     else recover_locked ops c io (self, d))"


section \<open>The abstract journal\<close>

text \<open>
  What is on disk, seen abstractly: a snapshot and the operations logged since. An entry is
  written through the codec and read back through it; replaying an entry applies the
  operation the runtime applied when it logged it.
\<close>

datatype ('d, 'x, 'm) entry =
    EntryDelta "('d, 'x) delta_group"
  | EntryMutation 'm
  | EntryMarker gc_marker

primrec entry_type :: "('d, 'x, 'm) entry \<Rightarrow> string" where
  "entry_type (EntryDelta _) = ''delta_group''"
| "entry_type (EntryMutation _) = ''mutation''"
| "entry_type (EntryMarker _) = ''gc_marker''"

primrec entry_payload :: "('v, 's, 'd, 'x, 'm) codec \<Rightarrow> ('d, 'x, 'm) entry \<Rightarrow> 'v option" where
  "entry_payload c (EntryDelta g) = js_delta_to c g"
| "entry_payload c (EntryMutation m) = js_mutation_to c m"
| "entry_payload c (EntryMarker k) = js_marker_to c k"

text \<open>The entry as the codec reads it back.\<close>

primrec reload_entry :: "('v, 's, 'd, 'x, 'm) codec \<Rightarrow> ('d, 'x, 'm) entry \<Rightarrow> ('d, 'x, 'm) entry option" where
  "reload_entry c (EntryDelta g) = map_option EntryDelta (Option.bind (js_delta_to c g) (js_delta_from c))"
| "reload_entry c (EntryMutation m) =
     map_option EntryMutation (Option.bind (js_mutation_to c m) (js_mutation_from c))"
| "reload_entry c (EntryMarker k) = map_option EntryMarker (Option.bind (js_marker_to c k) (js_marker_from c))"

definition reload_snapshot :: "('v, 's, 'd, 'x, 'm) codec \<Rightarrow> 's persistent_replica \<Rightarrow> 's persistent_replica option" where
  "reload_snapshot c x = Option.bind (js_snapshot_to c x) (js_snapshot_from c)"

text \<open>The effect of an entry on the durable replica.\<close>

primrec apply_entry ::
  "('s, 'd, 'x, 'q, 'm, 'r) crdt_ops \<Rightarrow> ('d, 'x, 'm) entry \<Rightarrow> 's persistent_replica \<Rightarrow>
   's persistent_replica exec" where
  "apply_entry ops (EntryDelta g) r =
     exec_map (\<lambda>s. r\<lparr>pr_local_state := s\<rparr>) (op_merge_delta_group ops (pr_local_state r) g)"
| "apply_entry ops (EntryMutation m) r =
     exec_map (\<lambda>(s, _). r\<lparr>pr_local_state := s\<rparr>) (op_mutate ops (pr_local_state r) m)"
| "apply_entry ops (EntryMarker k) r =
     exec_map (\<lambda>w. \<lparr>pr_local_state = op_gc ops (pr_local_state r) (gm_stable k) (gm_departed_pids k),
                    pr_crdt_wrapper = w\<rparr>) (push_gc_marker (pr_crdt_wrapper r) k)"

text \<open>
  What the journal relies on of the codec: an encoded record has no newline in it and is
  decoded to itself with the terminating newline behind it, blank input is no record, and
  whatever was turned into a JSON value can be read back from it.
\<close>

definition codec_ok :: "('v, 's, 'd, 'x, 'm) codec \<Rightarrow> bool" where
  "codec_ok c \<longleftrightarrow>
     (\<forall>r. newline \<notin> set (js_to_vec c r)) \<and>
     (\<forall>r. js_from_slice c (js_to_vec c r @ [newline]) = Some r) \<and>
     (\<forall>bs. list_all is_ascii_whitespace bs \<longrightarrow> js_from_slice c bs = None) \<and>
     (\<forall>x v. js_snapshot_to c x = Some v \<longrightarrow> js_snapshot_from c v \<noteq> None) \<and>
     (\<forall>e v. entry_payload c e = Some v \<longrightarrow> reload_entry c e \<noteq> None)"

definition entry_line :: "('v, 's, 'd, 'x, 'm) codec \<Rightarrow> u64 \<Rightarrow> ('d, 'x, 'm) entry \<Rightarrow> byte list" where
  "entry_line c g e =
     js_to_vec c \<lparr>rr_generation = g, rr_record_type = entry_type e, rr_payload = the (entry_payload c e)\<rparr> @ [newline]"

text \<open>
  The log holds the entries \<open>es\<close> of generation \<open>g\<close>: its lines are entries, each with its
  generation, and \<open>es\<close> are those of generation \<open>g\<close> in order. Lines of other generations are
  left over from before a compaction that did not get to truncate the log.
\<close>

definition log_holds :: "('v, 's, 'd, 'x, 'm) codec \<Rightarrow> u64 \<Rightarrow> ('d, 'x, 'm) entry list \<Rightarrow> byte list \<Rightarrow> bool" where
  "log_holds c g es bytes \<longleftrightarrow>
     (\<exists>lines. bytes = concat (map (\<lambda>(g', e). entry_line c g' e) lines) \<and>
        es = map snd (filter (\<lambda>(g', _). g' = g) lines)) \<and>
     (\<forall>e \<in> set es. entry_payload c e \<noteq> None)"

definition snapshot_holds :: "('v, 's, 'd, 'x, 'm) codec \<Rightarrow> u64 \<Rightarrow> 's persistent_replica \<Rightarrow> disk \<Rightarrow> bool" where
  "snapshot_holds c g x d \<longleftrightarrow>
     (\<exists>v. js_snapshot_to c x = Some v \<and>
        d_snapshot d = Some (js_to_vec c \<lparr>rr_generation = g, rr_record_type = ''snapshot'', rr_payload = v\<rparr> @ [newline]))"

definition disk_holds ::
  "('v, 's, 'd, 'x, 'm) codec \<Rightarrow> u64 \<Rightarrow> 's persistent_replica \<Rightarrow> ('d, 'x, 'm) entry list \<Rightarrow> disk \<Rightarrow> bool" where
  "disk_holds c g x es d \<longleftrightarrow> snapshot_holds c g x d \<and>
     log_holds c g es (case d_mutations d of Some bytes \<Rightarrow> bytes | None \<Rightarrow> [])"

text \<open>What recovery is specified to return.\<close>

definition replay_spec ::
  "('s, 'd, 'x, 'q, 'm, 'r) crdt_ops \<Rightarrow> ('v, 's, 'd, 'x, 'm) codec \<Rightarrow> 's persistent_replica \<Rightarrow>
   ('d, 'x, 'm) entry list \<Rightarrow> 's persistent_replica exec" where
  "replay_spec ops c x es =
     exec_fold (\<lambda>e. apply_entry ops (the (reload_entry c e))) es (the (reload_snapshot c x))"


section \<open>Reading lines back\<close>

lemma read_until_line:
  "newline \<notin> set xs \<Longrightarrow> read_until (xs @ newline # rest) = (xs @ [newline], rest)"
  by (induction xs) auto

lemma read_until_torn: "newline \<notin> set xs \<Longrightarrow> read_until xs = (xs, [])"
  by (induction xs) auto

lemma replay_log_Nil [simp]: "replay_log ops c g [] r = Done (r, False)"
  by (simp add: replay_log.simps)

lemma replay_log_line:
  "newline \<notin> set xs \<Longrightarrow>
   replay_log ops c g (xs @ newline # rest) r =
     exec_bind (replay_line ops c g (xs @ [newline]) r) (\<lambda>r'.
       case r' of None \<Rightarrow> Done (r, True) | Some recovered' \<Rightarrow> replay_log ops c g rest recovered')"
  by (subst replay_log.simps) (simp add: read_until_line)

lemma replay_log_torn:
  assumes "newline \<notin> set xs"
  shows "replay_log ops c g xs r = Done (r, xs \<noteq> [])"
proof -
  have "last xs \<noteq> newline" if "xs \<noteq> []" using assms that by (metis last_in_set)
  then show ?thesis by (subst replay_log.simps) (simp add: read_until_torn[OF assms])
qed

lemma codec_ok_record:
  assumes "codec_ok c"
  shows "newline \<notin> set (js_to_vec c rec)" "js_from_slice c (js_to_vec c rec @ [newline]) = Some rec"
    "\<not> list_all is_ascii_whitespace (js_to_vec c rec @ [newline])"
  using assms unfolding codec_ok_def by (metis option.distinct(1))+

lemma codec_ok_entry:
  assumes "codec_ok c" "entry_payload c e \<noteq> None"
  obtains v e' where "entry_payload c e = Some v" "reload_entry c e = Some e'"
  using assms unfolding codec_ok_def by blast

lemma replay_line_entry:
  assumes "codec_ok c" "entry_payload c e \<noteq> None"
  shows "replay_line ops c g (entry_line c g e) r = exec_map Some (apply_entry ops (the (reload_entry c e)) r)"
proof -
  note rec = codec_ok_record[OF assms(1)]
  obtain v e' where v: "entry_payload c e = Some v" "reload_entry c e = Some e'"
    using codec_ok_entry[OF assms] .
  show ?thesis
  proof (cases e)
    case (EntryDelta g')
    then show ?thesis using v
      by (cases "op_merge_delta_group ops (pr_local_state r) (the (js_delta_from c v))")
        (auto simp: replay_line_def entry_line_def rec simp del: list_all_append)
  next
    case (EntryMutation m)
    then show ?thesis using v
      by (cases "op_mutate ops (pr_local_state r) (the (js_mutation_from c v))")
        (auto simp: replay_line_def entry_line_def rec simp del: list_all_append)
  next
    case (EntryMarker k)
    then show ?thesis using v
      by (cases "push_gc_marker (pr_crdt_wrapper r) (the (js_marker_from c v))")
        (auto simp: replay_line_def entry_line_def rec simp del: list_all_append)
  qed
qed

lemma replay_line_stale:
  assumes "codec_ok c" "g' \<noteq> g"
  shows "replay_line ops c g (entry_line c g' e) r = Done (Some r)"
  using assms(2) by (simp add: replay_line_def entry_line_def codec_ok_record[OF assms(1)] del: list_all_append)

lemma replay_log_entry_line:
  assumes "codec_ok c"
  shows "replay_log ops c g (entry_line c g' e @ rest) r =
    exec_bind (replay_line ops c g (entry_line c g' e) r) (\<lambda>r'.
       case r' of None \<Rightarrow> Done (r, True) | Some recovered' \<Rightarrow> replay_log ops c g rest recovered')"
  using replay_log_line[OF codec_ok_record(1)[OF assms]] by (simp add: entry_line_def)

lemma replay_log_entries:
  assumes "codec_ok c" "\<forall>e \<in> set (map snd (filter (\<lambda>(g', _). g' = g) lines)). entry_payload c e \<noteq> None"
  shows "replay_log ops c g (concat (map (\<lambda>(g', e). entry_line c g' e) lines) @ rest) r =
    exec_bind (exec_fold (\<lambda>e. apply_entry ops (the (reload_entry c e)))
        (map snd (filter (\<lambda>(g', _). g' = g) lines)) r) (replay_log ops c g rest)"
  using assms(2)
proof (induction lines arbitrary: r)
  case (Cons line lines)
  obtain g' e where line: "line = (g', e)" by (cases line)
  show ?case
  proof (cases "g' = g")
    case True
    with Cons show ?thesis
      by (cases "apply_entry ops (the (reload_entry c e)) r")
        (simp_all add: line replay_log_entry_line[OF assms(1)] replay_line_entry[OF assms(1)])
  next
    case False
    with Cons show ?thesis
      by (simp add: line replay_log_entry_line[OF assms(1)] replay_line_stale[OF assms(1)])
  qed
qed simp

text \<open>The log holds some entries, and what follows them is still to be replayed.\<close>

lemma replay_log_holds:
  assumes "codec_ok c" "log_holds c g es log"
  shows "replay_log ops c g (log @ rest) r =
    exec_bind (exec_fold (\<lambda>e. apply_entry ops (the (reload_entry c e))) es r) (replay_log ops c g rest)"
  using assms(2) replay_log_entries[OF assms(1)] unfolding log_holds_def by auto

lemma log_holds_Nil: "log_holds c g [] []"
  by (auto simp: log_holds_def intro!: exI[of _ "[]"])

lemma log_holds_snoc:
  assumes "log_holds c g es log" "entry_payload c e \<noteq> None"
  shows "log_holds c g (es @ [e]) (log @ entry_line c g e)"
proof -
  obtain lines where "log = concat (map (\<lambda>(g', e). entry_line c g' e) lines)"
    "es = map snd (filter (\<lambda>(g', _). g' = g) lines)"
    using assms(1) by (auto simp: log_holds_def)
  then show ?thesis using assms
    by (auto simp: log_holds_def intro!: exI[of _ "lines @ [(g, e)]"])
qed

lemma log_holds_entries:
  "\<forall>e \<in> set es. entry_payload c e \<noteq> None \<Longrightarrow> log_holds c g es (concat (map (entry_line c g) es))"
  by (auto simp: log_holds_def comp_def intro!: exI[of _ "map (Pair g) es"])

text \<open>A log of another generation holds nothing.\<close>

lemma log_holds_stale: "g' \<noteq> g \<Longrightarrow> log_holds c g [] (concat (map (entry_line c g') es))"
  by (auto simp: log_holds_def comp_def intro!: exI[of _ "map (Pair g') es"])

section \<open>Recovery from a disk\<close>

lemma snapshot_holds_generation:
  "codec_ok c \<Longrightarrow> snapshot_holds c g x d \<Longrightarrow> snapshot_generation c d = Inr g"
  by (auto simp: snapshot_holds_def snapshot_generation_def codec_ok_record)

lemma journal_new_holds:
  "codec_ok c \<Longrightarrow> snapshot_holds c g x d \<Longrightarrow>
   journal_new c Locked d = Inr \<lparr>jr_enabled = True, jr_generation = g\<rparr>"
  by (simp add: journal_new_def snapshot_holds_generation)

lemma recover_locked_holds:
  assumes "codec_ok c" "snapshot_holds c g x d"
  shows "recover_locked ops c io (self, d) =
    exec_bind (replay_log ops c g (case d_mutations d of Some log \<Rightarrow> log | None \<Rightarrow> []) (the (reload_snapshot c x)))
      (\<lambda>(recovered, discard_suffix).
         if discard_suffix then
           (case replace_snapshot_and_clear_log_locked c io (g + 1) recovered d of
              (d', Inl e) \<Rightarrow> Done ((self, d'), Inl e)
            | (d', Inr _) \<Rightarrow> Done ((self\<lparr>jr_generation := g + 1\<rparr>, d'), Inr (Some recovered)))
         else Done ((self, d), Inr (Some recovered)))"
proof -
  obtain v where v: "js_snapshot_to c x = Some v"
    "d_snapshot d = Some (js_to_vec c \<lparr>rr_generation = g, rr_record_type = ''snapshot'', rr_payload = v\<rparr> @ [newline])"
    using assms(2) by (auto simp: snapshot_holds_def)
  obtain y where y: "js_snapshot_from c v = Some y" using assms(1) v(1) unfolding codec_ok_def by blast
  have "reload_snapshot c x = Some y" by (simp add: reload_snapshot_def v(1) y)
  then show ?thesis
    by (cases "d_mutations d") (simp_all add: recover_locked_def v(2) codec_ok_record[OF assms(1)] y Let_def)
qed

abbreviation log_bytes :: "disk \<Rightarrow> byte list" where
  "log_bytes d \<equiv> (case d_mutations d of Some bytes \<Rightarrow> bytes | None \<Rightarrow> [])"

lemma recover_disk_holds:
  assumes "codec_ok c" "disk_holds c g x es d"
  shows "recover_locked ops c io (self, d) =
    exec_map (\<lambda>r. ((self, d), Inr (Some r))) (replay_spec ops c x es)"
proof -
  have snap: "snapshot_holds c g x d" and log: "log_holds c g es (log_bytes d)"
    using assms(2) by (simp_all add: disk_holds_def)
  have "replay_log ops c g (log_bytes d) (the (reload_snapshot c x)) =
      exec_bind (replay_spec ops c x es) (replay_log ops c g [])"
    using replay_log_holds[OF assms(1) log, of ops "[]"] by (simp add: replay_spec_def)
  then show ?thesis
    by (cases "replay_spec ops c x es") (simp_all add: recover_locked_holds[OF assms(1) snap])
qed

text \<open>What follows the entries is a torn record: the entries are recovered and the disk repaired.\<close>

lemma recover_disk_torn:
  assumes "codec_ok c" "snapshot_holds c g x d" "log_holds c g es log"
    and "d_mutations d = Some (log @ torn)" "newline \<notin> set torn" "torn \<noteq> []"
    and "replay_spec ops c x es = Done r" "js_snapshot_to c r = Some v"
  obtains d' where "recover_locked ops c io_ok (self, d) =
      Done ((self\<lparr>jr_generation := g + 1\<rparr>, d'), Inr (Some r))" "disk_holds c (g + 1) r [] d'"
proof -
  have "replay_log ops c g (log @ torn) (the (reload_snapshot c x)) = Done (r, True)"
    using assms(5-7) by (simp add: replay_log_holds[OF assms(1,3)] replay_log_torn replay_spec_def)
  then show ?thesis
    using that assms(8)
    by (simp add: recover_locked_holds[OF assms(1,2)] assms(4) replace_snapshot_and_clear_log_locked_def
        replace_snapshot_record_locked_def clear_mutation_log_locked_def io_ok_def disk_holds_def
        snapshot_holds_def log_holds_Nil)
qed

section \<open>The writes on the abstract journal\<close>

text \<open>Logging an entry, whichever kind it is.\<close>

primrec append_entry ::
  "('v, 's, 'd, 'x, 'm) codec \<Rightarrow> io_outcome \<Rightarrow> ('d, 'x, 'm) entry \<Rightarrow> journal \<times> disk \<Rightarrow>
   (journal \<times> disk) exec" where
  "append_entry c io (EntryDelta g) jd = append_delta_group c io g jd"
| "append_entry c io (EntryMutation m) jd = Done (fst (append_mutation c io m jd))"
| "append_entry c io (EntryMarker k) jd = append_gc_marker c io k jd"

lemma append_record_holds:
  assumes "disk_holds c g x es d" "jr_generation self = g" "entry_payload c e = Some v"
  shows "\<exists>d'. append_record_locked c io_ok self (entry_type e) v d = (d', Inr ()) \<and>
    disk_holds c g x (es @ [e]) d'"
  using assms log_holds_snoc[of c g es "log_bytes d" e]
  by (simp add: append_record_locked_def io_ok_def disk_holds_def snapshot_holds_def entry_line_def Let_def)

lemma append_entry_holds:
  assumes "disk_holds c g x es d" "jr_enabled self" "jr_generation self = g" "entry_payload c e \<noteq> None"
  shows "\<exists>d'. append_entry c io_ok e (self, d) = Done (self, d') \<and> disk_holds c g x (es @ [e]) d'"
proof -
  from assms(4) obtain v where "entry_payload c e = Some v" by auto
  from append_record_holds[OF assms(1,3) this] this assms(2) show ?thesis
    by (cases e) (auto simp: append_delta_group_def append_mutation_def append_gc_marker_def)
qed

lemma append_entries_hold:
  assumes "disk_holds c g x es d" "jr_enabled self" "jr_generation self = g"
    and "\<forall>e \<in> set es'. entry_payload c e \<noteq> None"
  shows "\<exists>d'. exec_fold (append_entry c io_ok) es' (self, d) = Done (self, d') \<and> disk_holds c g x (es @ es') d'"
  using assms
proof (induction es' arbitrary: es d)
  case (Cons e es')
  then obtain d1 where d1: "append_entry c io_ok e (self, d) = Done (self, d1)" "disk_holds c g x (es @ [e]) d1"
    using append_entry_holds[of c g x es d self e] by auto
  from Cons.IH[OF d1(2)] Cons.prems d1(1) show ?case by simp
qed auto

lemma append_snapshot_holds:
  assumes "jr_enabled self" "js_snapshot_to c x = Some v"
  shows "\<exists>d'. append_snapshot c io_ok x (self, d) = Done (self\<lparr>jr_generation := jr_generation self + 1\<rparr>, d') \<and>
    disk_holds c (jr_generation self + 1) x [] d'"
  using assms
  by (simp add: append_snapshot_def replace_snapshot_and_clear_log_locked_def
      replace_snapshot_record_locked_def clear_mutation_log_locked_def io_ok_def disk_holds_def
      snapshot_holds_def log_holds_Nil Let_def)


section \<open>A codec for closed examples\<close>

text \<open>
  A replica of a plain counter, and an encoding of its records as numbers in unary: the
  digits are the byte 1, each number ends with the byte 2.
\<close>

definition counter_ops :: "(nat, unit, unit, unit, nat, unit) crdt_ops" where
  "counter_ops =
     \<lparr>op_query = (\<lambda>_ _. ()), op_set_pid = (\<lambda>s _. s), op_mutate = (\<lambda>s m. Done (s + m, ())),
      op_get_version_vector = (\<lambda>_. dotset_new),
      op_get_delta = (\<lambda>_ _. \<lparr>dg_list = [], dg_side_effects = None, dg_version_vector = dotset_new\<rparr>),
      op_merge_delta_group = (\<lambda>s _. Done s), op_gc = (\<lambda>s _ _. s)\<rparr>"

definition unary :: "nat \<Rightarrow> byte list" where
  "unary n = replicate n 1 @ [2]"

fun decode_unary :: "nat \<Rightarrow> byte list \<Rightarrow> nat list option" where
  "decode_unary n [] = None"
| "decode_unary n (b # bs) =
     (if b = 1 then decode_unary (Suc n) bs
      else if b = 2 then map_option (Cons n) (decode_unary 0 bs)
      else if b = newline \<and> bs = [] then Some [] else None)"

fun record_of_nats :: "nat list \<Rightarrow> nat raw_record option" where
  "record_of_nats (g # v # n # cs) =
     (if length cs = n then Some \<lparr>rr_generation = of_nat g, rr_record_type = map char_of cs, rr_payload = v\<rparr>
      else None)"
| "record_of_nats _ = None"

definition counter_codec :: "(nat, nat, unit, unit, nat) codec" where
  "counter_codec =
     \<lparr>js_to_vec = (\<lambda>r. concat (map unary (unat (rr_generation r) # rr_payload r # length (rr_record_type r) #
                            map of_char (rr_record_type r)))),
      js_from_slice = (\<lambda>bs. Option.bind (decode_unary 0 bs) record_of_nats),
      js_snapshot_to = (\<lambda>x. Some (pr_local_state x)),
      js_snapshot_from = (\<lambda>v. Some \<lparr>pr_local_state = v, pr_crdt_wrapper = wrapper_new 7\<rparr>),
      js_delta_to = (\<lambda>_. Some 0),
      js_delta_from = (\<lambda>_. Some \<lparr>dg_list = [], dg_side_effects = None, dg_version_vector = dotset_new\<rparr>),
      js_mutation_to = Some, js_mutation_from = Some,
      js_marker_to = (\<lambda>_. None), js_marker_from = (\<lambda>_. None)\<rparr>"

lemma decode_unary_unary: "decode_unary m (unary n @ rest) = map_option (Cons (m + n)) (decode_unary 0 rest)"
  by (induction n arbitrary: m) (simp_all add: unary_def)

lemma decode_unary_list: "decode_unary 0 (concat (map unary ns) @ [newline]) = Some ns"
  by (induction ns) (simp_all add: decode_unary_unary)

lemma decode_unary_blank: "list_all is_ascii_whitespace bs \<Longrightarrow> Option.bind (decode_unary 0 bs) record_of_nats = None"
  by (cases bs) (auto simp: is_ascii_whitespace_def)

lemma counter_codec_ok: "codec_ok counter_codec"
proof -
  have "js_from_slice counter_codec (js_to_vec counter_codec r @ [newline]) = Some r" for r
  proof -
    have "map (char_of :: nat \<Rightarrow> char) (map of_char (rr_record_type r)) = rr_record_type r"
      by (simp add: comp_def)
    then show ?thesis
      using decode_unary_list[of "unat (rr_generation r) # rr_payload r # length (rr_record_type r) #
          map of_char (rr_record_type r)"]
      by (simp add: counter_codec_def)
  qed
  moreover have "newline \<notin> set (js_to_vec counter_codec r)" for r
    by (auto simp: counter_codec_def unary_def)
  moreover have "entry_payload counter_codec e = Some v \<longrightarrow> reload_entry counter_codec e \<noteq> None" for e v
    by (cases e) (simp_all add: counter_codec_def)
  ultimately show ?thesis
    by (simp add: codec_ok_def decode_unary_blank) (simp add: counter_codec_def decode_unary_blank)
qed

definition counter_replica :: "nat \<Rightarrow> nat persistent_replica" where
  "counter_replica n = \<lparr>pr_local_state = n, pr_crdt_wrapper = wrapper_new 7\<rparr>"

definition counter_disk :: disk where
  "counter_disk = \<lparr>d_snapshot = Some (js_to_vec counter_codec
       \<lparr>rr_generation = 1, rr_record_type = ''snapshot'', rr_payload = 10\<rparr> @ [newline]),
     d_mutations = Some (entry_line counter_codec 1 (EntryMutation 5))\<rparr>"

abbreviation counter_journal :: journal where
  "counter_journal \<equiv> \<lparr>jr_enabled = True, jr_generation = 1\<rparr>"

lemma counter_disk_holds:
  "disk_holds counter_codec 1 (counter_replica 10) [EntryMutation 5] counter_disk"
  using log_holds_entries[of "[EntryMutation 5]" counter_codec 1]
  by (simp add: disk_holds_def counter_disk_def snapshot_holds_def counter_codec_def counter_replica_def)


section \<open>Properties\<close>

text \<open>
  C14: what is journaled is recovered. After a snapshot and any number of logged deltas,
  mutations and markers, a process that opens the files again finds the same generation, and
  recovery returns the snapshot with exactly those operations replayed in order, leaving the
  files as they are.
\<close>

theorem journal_round_trip:
  assumes "codec_ok c" "jr_enabled self" "js_snapshot_to c x = Some v"
    and "\<forall>e \<in> set es. entry_payload c e \<noteq> None"
  shows "\<exists>self' d'. exec_bind (append_snapshot c io_ok x (self, d)) (exec_fold (append_entry c io_ok) es) =
      Done (self', d') \<and>
    journal_new c Locked d' = Inr \<lparr>jr_enabled = True, jr_generation = jr_generation self'\<rparr> \<and>
    journal_recover ops c io (self', d') =
      exec_map (\<lambda>r. ((self', d'), Inr (Some r))) (replay_spec ops c x es)"
proof -
  let ?self = "self\<lparr>jr_generation := jr_generation self + 1\<rparr>"
  obtain d1 where d1: "append_snapshot c io_ok x (self, d) = Done (?self, d1)"
    "disk_holds c (jr_generation self + 1) x [] d1"
    using append_snapshot_holds[OF assms(2,3)] by blast
  obtain d' where d': "exec_fold (append_entry c io_ok) es (?self, d1) = Done (?self, d')"
    "disk_holds c (jr_generation self + 1) x es d'"
    using append_entries_hold[OF d1(2), of ?self es] assms(2,4) by auto
  have "snapshot_holds c (jr_generation self + 1) x d'" using d'(2) by (simp add: disk_holds_def)
  from journal_new_holds[OF assms(1) this] recover_disk_holds[OF assms(1) d'(2)] d1(1) d'(1)
  show ?thesis using assms(2) by (simp add: journal_recover_def)
qed

theorem journal_round_trip_witness:
  "codec_ok counter_codec \<and> jr_enabled counter_journal \<and>
   js_snapshot_to counter_codec (counter_replica 10) = Some 10 \<and>
   entry_payload counter_codec (EntryMutation 5) \<noteq> None \<and>
   (\<exists>self' d'. exec_bind (append_snapshot counter_codec io_ok (counter_replica 10) (counter_journal, counter_disk))
        (exec_fold (append_entry counter_codec io_ok) [EntryMutation 5]) = Done (self', d') \<and>
      journal_new counter_codec Locked d' = Inr \<lparr>jr_enabled = True, jr_generation = jr_generation self'\<rparr> \<and>
      journal_recover counter_ops counter_codec io_ok (self', d') =
        exec_map (\<lambda>r. ((self', d'), Inr (Some r)))
          (replay_spec counter_ops counter_codec (counter_replica 10) [EntryMutation 5]))"
proof -
  have h: "jr_enabled counter_journal" "js_snapshot_to counter_codec (counter_replica 10) = Some 10"
    "\<forall>e \<in> set [EntryMutation 5]. entry_payload counter_codec e \<noteq> None"
    by (simp_all add: counter_codec_def counter_replica_def)
  have "entry_payload counter_codec (EntryMutation 5) \<noteq> None" using h(3) by simp
  then show ?thesis using counter_codec_ok h(1,2) journal_round_trip[OF counter_codec_ok h] by blast
qed

text \<open>
  C13: an append is atomic under a crash. Whatever prefix of a record reaches the log, recovery
  returns the state without the record, or with it if all of its bytes arrived; the files then
  hold that state again, in step with the journal's generation, so logging goes on.
\<close>

theorem append_crash_atomic:
  assumes "codec_ok c" "disk_holds c (jr_generation self) x es d" "jr_enabled self"
    and "entry_payload c e = Some p"
    and "replay_spec ops c x es = Done r" "js_snapshot_to c r = Some v"
    and "replay_spec ops c x (es @ [e]) = Done r'"
    and "d' = fst (append_record_locked c (io_ok\<lparr>io_append_failed := Some n\<rparr>) self (entry_type e) p d)"
  shows "\<exists>self2 d2 x2 es2. journal_recover ops c io_ok (self, d') =
      Done ((self2, d2), Inr (Some (if n < length (entry_line c (jr_generation self) e) then r else r'))) \<and>
    jr_enabled self2 \<and> disk_holds c (jr_generation self2) x2 es2 d2"
proof -
  let ?g = "jr_generation self" and ?line = "entry_line c (jr_generation self) e"
  have snap: "snapshot_holds c ?g x d" and log: "log_holds c ?g es (log_bytes d)"
    using assms(2) by (simp_all add: disk_holds_def)
  have d': "d' = d\<lparr>d_mutations := Some (log_bytes d @ take n ?line)\<rparr>"
    using assms(4,8) by (simp add: append_record_locked_def io_ok_def Let_def entry_line_def)
  have snap': "snapshot_holds c ?g x d'" using snap by (simp add: d' snapshot_holds_def)
  consider "n = 0" | "0 < n" "n < length ?line" | "length ?line \<le> n" by linarith
  then show ?thesis
  proof cases
    case 1
    then have "disk_holds c ?g x es d'" using snap' log by (simp add: disk_holds_def d')
    then show ?thesis using recover_disk_holds[OF assms(1), of ?g x es d' ops io_ok self] assms(3,5) 1
      by (auto simp: journal_recover_def entry_line_def)
  next
    case 2
    have torn: "newline \<notin> set (take n ?line)" "take n ?line \<noteq> []"
      using 2 codec_ok_record(1)[OF assms(1)] by (auto simp: entry_line_def dest: in_set_takeD)
    obtain d2 where "recover_locked ops c io_ok (self, d') =
        Done ((self\<lparr>jr_generation := ?g + 1\<rparr>, d2), Inr (Some r))" "disk_holds c (?g + 1) r [] d2"
      using recover_disk_torn[OF assms(1) snap' log _ torn assms(5,6)] by (auto simp: d')
    moreover from this have "disk_holds c (jr_generation (self\<lparr>jr_generation := ?g + 1\<rparr>)) r [] d2" by simp
    ultimately show ?thesis using assms(3) 2
      by (intro exI[of _ "self\<lparr>jr_generation := ?g + 1\<rparr>"] exI[of _ d2] exI[of _ r] exI[of _ "[]"])
        (simp add: journal_recover_def)
  next
    case 3
    then have "disk_holds c ?g x (es @ [e]) d'"
      using snap' log_holds_snoc[OF log, of e] assms(4) by (simp add: disk_holds_def d')
    then show ?thesis using recover_disk_holds[OF assms(1), of ?g x "es @ [e]" d' ops io_ok self] assms(3,7) 3
      by (auto simp: journal_recover_def)
  qed
qed

lemma counter_replay:
  "replay_spec counter_ops counter_codec (counter_replica 10) [EntryMutation 5] = Done (counter_replica 15)"
  "replay_spec counter_ops counter_codec (counter_replica 10) [EntryMutation 5, EntryMutation 1] =
     Done (counter_replica 16)"
  by (simp_all add: replay_spec_def reload_snapshot_def counter_codec_def counter_replica_def counter_ops_def)

theorem append_crash_atomic_witness:
  "codec_ok counter_codec \<and>
   disk_holds counter_codec (jr_generation counter_journal) (counter_replica 10) [EntryMutation 5] counter_disk \<and>
   jr_enabled counter_journal \<and> entry_payload counter_codec (EntryMutation 1) = Some 1 \<and>
   replay_spec counter_ops counter_codec (counter_replica 10) [EntryMutation 5] = Done (counter_replica 15) \<and>
   js_snapshot_to counter_codec (counter_replica 15) = Some 15 \<and>
   replay_spec counter_ops counter_codec (counter_replica 10) ([EntryMutation 5] @ [EntryMutation 1]) =
     Done (counter_replica 16) \<and>
   (\<exists>self2 d2 x2 es2. journal_recover counter_ops counter_codec io_ok
        (counter_journal, fst (append_record_locked counter_codec (io_ok\<lparr>io_append_failed := Some 3\<rparr>)
            counter_journal (entry_type (EntryMutation 1 :: (unit, unit, nat) entry)) 1 counter_disk)) =
        Done ((self2, d2), Inr (Some (if 3 < length (entry_line counter_codec (jr_generation counter_journal)
            (EntryMutation 1)) then counter_replica 15 else counter_replica 16))) \<and>
      jr_enabled self2 \<and> disk_holds counter_codec (jr_generation self2) x2 es2 d2)"
proof -
  have h: "disk_holds counter_codec (jr_generation counter_journal) (counter_replica 10) [EntryMutation 5] counter_disk"
    "jr_enabled counter_journal" "entry_payload counter_codec (EntryMutation 1) = Some 1"
    "replay_spec counter_ops counter_codec (counter_replica 10) [EntryMutation 5] = Done (counter_replica 15)"
    "js_snapshot_to counter_codec (counter_replica 15) = Some 15"
    "replay_spec counter_ops counter_codec (counter_replica 10) ([EntryMutation 5] @ [EntryMutation 1]) =
      Done (counter_replica 16)"
    using counter_disk_holds counter_replay by (simp_all add: counter_codec_def counter_replica_def)
  show ?thesis by (intro conjI counter_codec_ok h append_crash_atomic[OF counter_codec_ok h refl])
qed

text \<open>
  C15: a compaction interrupted between the replacement of the snapshot and the truncation of
  the log loses nothing and repeats nothing. A process that opens the files then finds the new
  generation, recovers the new snapshot alone although the old records are still in the log,
  and what it logs behind them is recovered on top of the new snapshot.
\<close>

theorem interrupted_compaction_safe:
  assumes "codec_ok c" "js_snapshot_to c y = Some v"
    and "d_mutations d = Some (concat (map (entry_line c g) es))"
    and "\<forall>e \<in> set es'. entry_payload c e \<noteq> None"
  shows "\<exists>d1 d2. replace_snapshot_and_clear_log_locked c (io_ok\<lparr>io_clear_ok := False\<rparr>) (g + 1) y d = (d1, Inl Io) \<and>
    journal_new c Locked d1 = Inr \<lparr>jr_enabled = True, jr_generation = g + 1\<rparr> \<and>
    exec_fold (append_entry c io_ok) es' (\<lparr>jr_enabled = True, jr_generation = g + 1\<rparr>, d1) =
      Done (\<lparr>jr_enabled = True, jr_generation = g + 1\<rparr>, d2) \<and>
    journal_recover ops c io (\<lparr>jr_enabled = True, jr_generation = g + 1\<rparr>, d2) =
      exec_map (\<lambda>r. ((\<lparr>jr_enabled = True, jr_generation = g + 1\<rparr>, d2), Inr (Some r))) (replay_spec ops c y es')"
proof -
  let ?j = "\<lparr>jr_enabled = True, jr_generation = g + 1\<rparr>"
  define d1 where "d1 = d\<lparr>d_snapshot := Some (js_to_vec c
    \<lparr>rr_generation = g + 1, rr_record_type = ''snapshot'', rr_payload = v\<rparr> @ [newline])\<rparr>"
  have d1: "replace_snapshot_and_clear_log_locked c (io_ok\<lparr>io_clear_ok := False\<rparr>) (g + 1) y d = (d1, Inl Io)"
    "snapshot_holds c (g + 1) y d1" "d_mutations d1 = d_mutations d"
    using assms(2) by (simp_all add: replace_snapshot_and_clear_log_locked_def replace_snapshot_record_locked_def
        clear_mutation_log_locked_def io_ok_def snapshot_holds_def d1_def)
  have "g \<noteq> g + 1" by (simp add: word_neq_0_conv)
  then have "log_holds c (g + 1) [] (log_bytes d1)"
    using log_holds_stale[of g "g + 1" c es] by (simp add: d1(3) assms(3))
  then have holds: "disk_holds c (g + 1) y [] d1" using d1(2) by (simp add: disk_holds_def)
  then obtain d2 where d2: "exec_fold (append_entry c io_ok) es' (?j, d1) = Done (?j, d2)"
    "disk_holds c (g + 1) y es' d2"
    using append_entries_hold[OF holds, of ?j es'] assms(4) by auto
  show ?thesis
    using d1(1) journal_new_holds[OF assms(1) d1(2)] d2(1) recover_disk_holds[OF assms(1) d2(2)]
    by (simp add: journal_recover_def)
qed

theorem interrupted_compaction_safe_witness:
  "codec_ok counter_codec \<and> js_snapshot_to counter_codec (counter_replica 15) = Some 15 \<and>
   d_mutations counter_disk = Some (concat (map (entry_line counter_codec 1) [EntryMutation 5])) \<and>
   entry_payload counter_codec (EntryMutation 1) \<noteq> None \<and>
   (\<exists>d1 d2. replace_snapshot_and_clear_log_locked counter_codec (io_ok\<lparr>io_clear_ok := False\<rparr>) (1 + 1)
        (counter_replica 15) counter_disk = (d1, Inl Io) \<and>
      journal_recover counter_ops counter_codec io_ok (\<lparr>jr_enabled = True, jr_generation = 1 + 1\<rparr>, d2) =
        exec_map (\<lambda>r. ((\<lparr>jr_enabled = True, jr_generation = 1 + 1\<rparr>, d2), Inr (Some r)))
          (replay_spec counter_ops counter_codec (counter_replica 15) [EntryMutation 1]))"
proof -
  have h: "js_snapshot_to counter_codec (counter_replica 15) = Some 15"
    "d_mutations counter_disk = Some (concat (map (entry_line counter_codec 1) [EntryMutation 5]))"
    "\<forall>e \<in> set [EntryMutation 1]. entry_payload counter_codec e \<noteq> None"
    by (simp_all add: counter_codec_def counter_replica_def counter_disk_def)
  have "entry_payload counter_codec (EntryMutation 1) \<noteq> None" using h(3) by simp
  then show ?thesis using counter_codec_ok h(1,2) interrupted_compaction_safe[OF counter_codec_ok h] by blast
qed

text \<open>
  Recovery without a snapshot. An empty or missing log means that there is nothing to
  recover; records without a snapshot to apply them to are refused with \<open>MissingSnapshot\<close>,
  and either way the files are left alone.
\<close>

theorem recover_without_snapshot:
  assumes "d_snapshot d = None" "jr_enabled self"
  shows "journal_recover ops c io (self, d) =
    Done ((self, d), if log_bytes d = [] then Inr None else Inl MissingSnapshot)"
  using assms by (cases "d_mutations d") (simp_all add: journal_recover_def recover_locked_def)

theorem recover_without_snapshot_witness:
  "d_snapshot (counter_disk\<lparr>d_snapshot := None\<rparr>) = None \<and> jr_enabled counter_journal \<and>
   journal_recover counter_ops counter_codec io_ok (counter_journal, counter_disk\<lparr>d_snapshot := None\<rparr>) =
     Done ((counter_journal, counter_disk\<lparr>d_snapshot := None\<rparr>),
       if log_bytes (counter_disk\<lparr>d_snapshot := None\<rparr>) = [] then Inr None else Inl MissingSnapshot)"
proof -
  have h: "d_snapshot (counter_disk\<lparr>d_snapshot := None\<rparr>) = None" "jr_enabled counter_journal" by simp_all
  show ?thesis using h recover_without_snapshot[OF h] by blast
qed



end
