(* ===== verification/Descriptor.thy ===== *)
theory Descriptor
  imports Prelude
begin

text \<open>
  Membership descriptors (\<^verbatim>\<open>src/src/replica_helpers.rs\<close>): a descriptor is published as
  the name of an object in the membership directory and read back from the listing of that
  directory. The standard library's decimal printing and parsing of integers and of IPv4
  socket addresses is modelled as it is documented; IPv6 addresses are left out. The theory
  also has the timer of the garbage collection, whose period is drawn from an interval.
\<close>

section \<open>Strings\<close>

text \<open>\<open>str::split\<close> on a character: always at least one part.\<close>

fun split_on :: "char \<Rightarrow> string \<Rightarrow> string list" where
  "split_on c [] = [[]]"
| "split_on c (x # xs) =
     (if x = c then [] # split_on c xs
      else (case split_on c xs of p # ps \<Rightarrow> (x # p) # ps | [] \<Rightarrow> [[x]]))"

text \<open>\<open>trim_end_matches\<close> of a character.\<close>

definition trim_end_matches :: "char \<Rightarrow> string \<Rightarrow> string" where
  "trim_end_matches c s = rev (dropWhile (\<lambda>x. x = c) (rev s))"

definition digit_char :: "int \<Rightarrow> char" where
  "digit_char n = char_of (48 + n)"

definition digit_of :: "char \<Rightarrow> int option" where
  "digit_of c = (let n = of_char c in if 48 \<le> n \<and> n \<le> 57 then Some (n - 48) else None)"

text \<open>The decimal digits of a number that is not negative.\<close>

function show_digits :: "int \<Rightarrow> string" where
  "show_digits n = (if n < 10 then [digit_char n] else show_digits (n div 10) @ [digit_char (n mod 10)])"
  by pat_completeness auto
termination
  by (relation "measure nat") auto

declare show_digits.simps [simp del]

fun digits_value :: "int \<Rightarrow> string \<Rightarrow> int option" where
  "digits_value acc [] = Some acc"
| "digits_value acc (c # cs) =
     (case digit_of c of Some d \<Rightarrow> digits_value (10 * acc + d) cs | None \<Rightarrow> None)"

text \<open>A non-empty sequence of decimal digits.\<close>

definition parse_digits :: "string \<Rightarrow> int option" where
  "parse_digits s = (if s = [] then None else digits_value 0 s)"

text \<open>\<open>u128::from_str\<close>: a single leading plus sign is accepted, a value out of range is not.\<close>

definition parse_u128 :: "string \<Rightarrow> pid option" where
  "parse_u128 s =
     (case parse_digits (case s of c # cs \<Rightarrow> if c = CHR ''+'' then cs else s | [] \<Rightarrow> s) of
        Some n \<Rightarrow> if n < 2 ^ 128 then Some (of_int n) else None
      | None \<Rightarrow> None)"

definition show_u128 :: "pid \<Rightarrow> string" where
  "show_u128 p = show_digits (uint p)"

definition show_i64 :: "int \<Rightarrow> string" where
  "show_i64 i = (if i < 0 then CHR ''-'' # show_digits (- i) else show_digits i)"

definition parse_i64 :: "string \<Rightarrow> int option" where
  "parse_i64 s =
     (case s of
        [] \<Rightarrow> None
      | c # cs \<Rightarrow>
          Option.bind
            (if c = CHR ''-'' then map_option uminus (parse_digits cs)
             else parse_digits (if c = CHR ''+'' then cs else s))
            (\<lambda>i. if is_i64 i then Some i else None))"


section \<open>Socket addresses\<close>

datatype socket_addr = SocketAddrV4 (addr_ip: "8 word \<times> 8 word \<times> 8 word \<times> 8 word") (addr_port: "16 word")

definition show_addr :: "socket_addr \<Rightarrow> string" where
  "show_addr a =
     (case addr_ip a of (b1, b2, b3, b4) \<Rightarrow>
        show_digits (uint b1) @ ''.'' @ show_digits (uint b2) @ ''.'' @ show_digits (uint b3) @ ''.'' @
        show_digits (uint b4) @ '':'' @ show_digits (uint (addr_port a)))"

text \<open>An octet has at most three digits and no leading zero; a port may have leading zeros.\<close>

definition parse_octet :: "string \<Rightarrow> 8 word option" where
  "parse_octet s =
     (if length s > 3 \<or> (length s > 1 \<and> hd s = CHR ''0'') then None
      else (case parse_digits s of Some n \<Rightarrow> if n < 256 then Some (of_int n) else None | None \<Rightarrow> None))"

definition parse_port :: "string \<Rightarrow> 16 word option" where
  "parse_port s = (case parse_digits s of Some n \<Rightarrow> if n < 65536 then Some (of_int n) else None | None \<Rightarrow> None)"

definition parse_addr :: "string \<Rightarrow> socket_addr option" where
  "parse_addr s =
     (case split_on CHR '':'' s of
        [ip, port] \<Rightarrow>
          (case split_on CHR ''.'' ip of
             [o1, o2, o3, o4] \<Rightarrow>
               Option.bind (parse_octet o1) (\<lambda>b1. Option.bind (parse_octet o2) (\<lambda>b2.
               Option.bind (parse_octet o3) (\<lambda>b3. Option.bind (parse_octet o4) (\<lambda>b4.
               Option.bind (parse_port port) (\<lambda>p. Some (SocketAddrV4 (b1, b2, b3, b4) p))))))
           | _ \<Rightarrow> None)
      | _ \<Rightarrow> None)"


section \<open>Descriptors\<close>

record replica_descriptor =
  rd_pid :: pid
  rd_address :: socket_addr
  rd_gc_counter :: counter
  rd_final_counter :: "counter option"

datatype parse_error = ReplicaDescriptorParseError

definition is_shutdown :: "replica_descriptor \<Rightarrow> bool" where
  "is_shutdown self \<longleftrightarrow> rd_final_counter self \<noteq> None"

definition show_descriptor :: "replica_descriptor \<Rightarrow> string" where
  "show_descriptor self =
     show_u128 (rd_pid self) @ '','' @ show_addr (rd_address self) @ '','' @ show_i64 (rd_gc_counter self) @
     (case rd_final_counter self of Some final_counter \<Rightarrow> '','' @ show_i64 final_counter | None \<Rightarrow> '''')"

definition object_path :: "replica_descriptor \<Rightarrow> string \<Rightarrow> string" where
  "object_path self membership_directory_path =
     trim_end_matches CHR ''/'' membership_directory_path @ ''/'' @ show_descriptor self"

definition parse_or_error :: "'a option \<Rightarrow> parse_error + 'a" where
  "parse_or_error x = (case x of Some y \<Rightarrow> Inr y | None \<Rightarrow> Inl ReplicaDescriptorParseError)"

definition result_bind :: "'e + 'a \<Rightarrow> ('a \<Rightarrow> 'e + 'b) \<Rightarrow> 'e + 'b" where
  "result_bind r f = (case r of Inl e \<Rightarrow> Inl e | Inr x \<Rightarrow> f x)"

definition descriptor_from_str :: "string \<Rightarrow> parse_error + replica_descriptor" where
  "descriptor_from_str value =
     (let descriptor = last (split_on CHR ''/'' value);
          parts = split_on CHR '','' descriptor;
          part = (\<lambda>i. if i < length parts then Some (parts ! i) else None)
      in result_bind (parse_or_error (Option.bind (part 0) parse_u128)) (\<lambda>p.
         result_bind (parse_or_error (Option.bind (part 1) parse_addr)) (\<lambda>address.
         result_bind (parse_or_error (Option.bind (part 2) parse_i64)) (\<lambda>gc.
         result_bind (case part 3 of
                        None \<Rightarrow> Inr None
                      | Some v \<Rightarrow> result_bind (parse_or_error (parse_i64 v)) (\<lambda>c. Inr (Some c))) (\<lambda>final_counter.
           if part 4 \<noteq> None then Inl ReplicaDescriptorParseError
           else Inr \<lparr>rd_pid = p, rd_address = address, rd_gc_counter = gc,
                     rd_final_counter = final_counter\<rparr>)))))"


section \<open>Splitting and joining\<close>

lemma split_on_nonempty [simp]: "split_on c s \<noteq> []"
  by (induction s) (auto split: list.splits)

lemma split_on_no_sep: "c \<notin> set s \<Longrightarrow> split_on c s = [s]"
  by (induction s) auto

lemma split_on_join: "split_on c (s @ c # t) = split_on c s @ split_on c t"
proof (induction s)
  case (Cons x s)
  then show ?case by (cases "split_on c s") simp_all
qed simp

lemma split_on_append: "c \<notin> set s \<Longrightarrow> split_on c (s @ c # t) = s # split_on c t"
  by (simp add: split_on_join split_on_no_sep)

lemma last_split_on_append: "last (split_on c (s @ c # t)) = last (split_on c t)"
  by (simp add: split_on_join)

lemma digit_char_simps: "0 \<le> n \<Longrightarrow> n < 10 \<Longrightarrow> digit_of (digit_char n) = Some n"
  by (simp add: digit_of_def digit_char_def Let_def)

lemma digits_value_append:
  "digits_value acc (s @ [c]) =
   (case digits_value acc s of Some n \<Rightarrow> (case digit_of c of Some d \<Rightarrow> Some (10 * n + d) | None \<Rightarrow> None) | None \<Rightarrow> None)"
  by (induction s arbitrary: acc) (auto split: option.splits)

lemma digits_value_show: "0 \<le> n \<Longrightarrow> digits_value 0 (show_digits n) = Some n"
proof (induction n rule: show_digits.induct)
  case (1 n)
  show ?case
  proof (cases "n < 10")
    case False
    then show ?thesis using 1 by (simp add: show_digits.simps[of n] digits_value_append digit_char_simps)
  qed (simp add: show_digits.simps[of n] digit_char_simps 1)
qed

lemma show_digits_nonempty [simp]: "show_digits n \<noteq> []"
  by (subst show_digits.simps) simp

lemma parse_digits_show [simp]: "0 \<le> n \<Longrightarrow> parse_digits (show_digits n) = Some n"
  by (simp add: parse_digits_def digits_value_show)

lemma show_digits_digits: "0 \<le> n \<Longrightarrow> c \<in> set (show_digits n) \<Longrightarrow> digit_of c \<noteq> None"
proof (induction n rule: show_digits.induct)
  case (1 n)
  show ?case
  proof (cases "n < 10")
    case True
    then show ?thesis using "1.prems" by (simp add: show_digits.simps[of n] digit_char_simps)
  next
    case False
    then have "c \<in> set (show_digits (n div 10)) \<or> c = digit_char (n mod 10)"
      using "1.prems"(2) by (auto simp: show_digits.simps[of n])
    then show ?thesis using "1.IH"[OF False] False by (auto simp: digit_char_simps)
  qed
qed

text \<open>A character that is not a digit does not occur in a printed number.\<close>

lemma show_digits_no_sep: "0 \<le> n \<Longrightarrow> digit_of c = None \<Longrightarrow> c \<notin> set (show_digits n)"
  using show_digits_digits by blast

lemma digit_of_sep [simp]:
  "digit_of CHR '','' = None" "digit_of CHR ''/'' = None" "digit_of CHR ''.'' = None"
  "digit_of CHR '':'' = None" "digit_of CHR ''-'' = None" "digit_of CHR ''+'' = None"
  by code_simp+

lemma parse_u128_show [simp]: "parse_u128 (show_u128 p) = Some p"
proof -
  have plus: "CHR ''+'' \<notin> set (show_digits (uint p))" by (simp add: show_digits_no_sep)
  have "(case show_digits (uint p) of c # cs \<Rightarrow> if c = CHR ''+'' then cs else show_digits (uint p)
        | [] \<Rightarrow> show_digits (uint p)) = show_digits (uint p)"
    using plus by (auto split: list.splits)
  moreover have "uint p < 2 ^ 128" using unsigned_less[where ?'a = int, of p] by simp
  ultimately show ?thesis by (simp add: parse_u128_def show_u128_def)
qed

lemma parse_i64_show [simp]:
  assumes "is_i64 i"
  shows "parse_i64 (show_i64 i) = Some i"
proof (cases "i < 0")
  case True
  then show ?thesis using assms by (simp add: parse_i64_def show_i64_def)
next
  case False
  obtain c cs where s: "show_digits i = c # cs" by (cases "show_digits i") simp_all
  have "c \<in> set (show_digits i)" by (simp add: s)
  then have "c \<noteq> CHR ''-''" "c \<noteq> CHR ''+''" using show_digits_no_sep False by fastforce+
  then show ?thesis using False assms parse_digits_show[of i]
    by (simp add: parse_i64_def show_i64_def s)
qed

lemma length_show_digits: "0 \<le> n \<Longrightarrow> n < 10 ^ k \<Longrightarrow> 0 < k \<Longrightarrow> length (show_digits n) \<le> k"
proof (induction n arbitrary: k rule: show_digits.induct)
  case (1 n)
  show ?case
  proof (cases "n < 10")
    case False
    then obtain k' where k: "k = Suc k'" "0 < k'" using "1.prems" by (cases k; cases "k - 1") auto
    have "n div 10 < 10 ^ k'" using "1.prems" k(1) by simp
    then show ?thesis using 1(1)[OF False] k False by (simp add: show_digits.simps[of n])
  qed (use "1.prems" in \<open>simp add: show_digits.simps[of n]\<close>)
qed

lemma hd_show_digits: "9 < n \<Longrightarrow> hd (show_digits n) \<noteq> CHR ''0''"
proof (induction n rule: show_digits.induct)
  case (1 n)
  have "show_digits n = show_digits (n div 10) @ [digit_char (n mod 10)]"
    using 1(2) by (simp add: show_digits.simps[of n])
  then have hd: "hd (show_digits n) = hd (show_digits (n div 10))" by simp
  show ?case
  proof (cases "9 < n div 10")
    case True
    then show ?thesis using 1 hd by simp
  next
    case False
    moreover have "0 < n div 10" using 1(2) by simp
    moreover have "hd (show_digits (n div 10)) = digit_char (n div 10)"
      using False by (simp add: show_digits.simps[of "n div 10"])
    moreover have "digit_of CHR ''0'' = Some 0" by code_simp
    ultimately show ?thesis using hd digit_char_simps[of "n div 10"] by force
  qed
qed

lemma length_show_digits_1: "n < 10 \<Longrightarrow> length (show_digits n) = 1"
  by (subst show_digits.simps) simp

lemma parse_octet_show [simp]: "parse_octet (show_digits (uint b)) = Some b" for b :: "8 word"
proof -
  have b: "uint b < 256" using unsigned_less[where ?'a = int, of b] by simp
  have "length (show_digits (uint b)) \<le> 3" using b by (intro length_show_digits) simp_all
  moreover have "hd (show_digits (uint b)) \<noteq> CHR ''0''" if "1 < length (show_digits (uint b))"
    using that length_show_digits_1[of "uint b"] hd_show_digits[of "uint b"] by (cases "uint b < 10") auto
  ultimately show ?thesis using b by (simp add: parse_octet_def)
qed

lemma parse_port_show [simp]: "parse_port (show_digits (uint p)) = Some p" for p :: "16 word"
  using unsigned_less[where ?'a = int, of p] by (simp add: parse_port_def)

lemma parse_addr_show [simp]: "parse_addr (show_addr a) = Some a"
proof -
  obtain b1 b2 b3 b4 p where a: "a = SocketAddrV4 (b1, b2, b3, b4) p"
    by (metis prod_cases4 socket_addr.exhaust)
  have dot: "CHR ''.'' \<notin> set (show_digits (uint x))" and colon: "CHR '':'' \<notin> set (show_digits (uint x))"
    for x :: "'w::len word"
    by (simp_all add: show_digits_no_sep)
  let ?ip = "show_digits (uint b1) @ ''.'' @ show_digits (uint b2) @ ''.'' @ show_digits (uint b3) @ ''.'' @ show_digits (uint b4)"
  have "split_on CHR '':'' (?ip @ CHR '':'' # show_digits (uint p)) = [?ip, show_digits (uint p)]"
    using colon[of p] colon[of b1] colon[of b2] colon[of b3] colon[of b4] by (subst split_on_append) (simp_all add: split_on_no_sep)
  moreover have "split_on CHR ''.'' ?ip = [show_digits (uint b1), show_digits (uint b2), show_digits (uint b3), show_digits (uint b4)]"
    using dot[of b1] dot[of b2] dot[of b3] dot[of b4] by (simp add: split_on_append split_on_no_sep)
  ultimately show ?thesis by (simp add: a parse_addr_def show_addr_def)
qed

text \<open>The separators of a descriptor do not occur inside its fields.\<close>

lemma show_fields_no_sep:
  assumes "c \<in> {CHR '','', CHR ''/''}"
  shows "c \<notin> set (show_u128 p)" "c \<notin> set (show_addr a)" "c \<notin> set (show_i64 i)"
proof -
  have "digit_of c = None" using assms by auto
  then have num: "c \<notin> set (show_digits n)" if "0 \<le> n" for n using that by (intro show_digits_no_sep)
  show "c \<notin> set (show_u128 p)" using num by (simp add: show_u128_def)
  show "c \<notin> set (show_addr a)" using num assms by (auto simp: show_addr_def split: prod.splits)
  show "c \<notin> set (show_i64 i)" using num assms by (auto simp: show_i64_def)
qed

definition descriptor_ok :: "replica_descriptor \<Rightarrow> bool" where
  "descriptor_ok d \<longleftrightarrow> is_i64 (rd_gc_counter d) \<and>
     (case rd_final_counter d of Some c \<Rightarrow> is_i64 c | None \<Rightarrow> True)"

lemma split_show_descriptor:
  "split_on CHR '','' (show_descriptor d) =
   [show_u128 (rd_pid d), show_addr (rd_address d), show_i64 (rd_gc_counter d)] @
   (case rd_final_counter d of Some c \<Rightarrow> [show_i64 c] | None \<Rightarrow> [])"
  by (cases "rd_final_counter d")
    (simp_all add: show_descriptor_def split_on_append split_on_no_sep show_fields_no_sep)

lemma show_descriptor_no_slash: "CHR ''/'' \<notin> set (show_descriptor d)"
  using show_fields_no_sep[of "CHR ''/''"]
  by (cases "rd_final_counter d") (simp_all add: show_descriptor_def)

lemma descriptor_from_str_show:
  assumes "descriptor_ok d" "last (split_on CHR ''/'' s) = show_descriptor d"
  shows "descriptor_from_str s = Inr d"
proof (cases "rd_final_counter d")
  case None
  then show ?thesis using assms
    by (simp add: descriptor_from_str_def assms(2) split_show_descriptor parse_or_error_def result_bind_def
        descriptor_ok_def Let_def)
next
  case (Some c)
  then show ?thesis using assms
    by (simp add: descriptor_from_str_def assms(2) split_show_descriptor parse_or_error_def result_bind_def
        descriptor_ok_def Let_def)
qed


section \<open>The garbage-collection timer\<close>

text \<open>
  Durations are in nanoseconds. The draw from the random number generator is the parameter
  \<open>pick\<close>, called with the two ends of the interval.
\<close>

definition reschedule_gc :: "(nat \<Rightarrow> nat \<Rightarrow> nat) \<Rightarrow> nat \<Rightarrow> nat \<Rightarrow> nat" where
  "reschedule_gc pick base_nanos peer_count =
     (let replica_count = min (peer_count + 1) (2 ^ 64 - 1)
      in if base_nanos = 0 then 1
         else
           (let jitter_nanos = base_nanos div replica_count;
                lower_bound = max (base_nanos - jitter_nanos) 1;
                upper_bound = max (min (base_nanos + jitter_nanos) (2 ^ 128 - 1)) (lower_bound + 1)
            in min (pick lower_bound upper_bound) (2 ^ 64 - 1)))"


section \<open>Properties\<close>

definition example_descriptor :: replica_descriptor where
  "example_descriptor = \<lparr>rd_pid = 340282366920938463463374607431768211455,
     rd_address = SocketAddrV4 (10, 0, 255, 7) 8080, rd_gc_counter = 12, rd_final_counter = Some (-1)\<rparr>"

text \<open>
  Membership descriptors survive the membership directory. A descriptor published under
  its object path, below any directory and with any number of trailing slashes in the
  configured path, is parsed back from the listed name to the same descriptor, active or final.
\<close>

theorem descriptor_round_trip:
  assumes "descriptor_ok d"
  shows "descriptor_from_str (object_path d directory) = Inr d \<and>
    descriptor_from_str (show_descriptor d) = Inr d"
proof -
  have "last (split_on CHR ''/'' (object_path d directory)) = show_descriptor d"
    by (simp add: object_path_def last_split_on_append split_on_no_sep show_descriptor_no_slash)
  moreover have "last (split_on CHR ''/'' (show_descriptor d)) = show_descriptor d"
    by (simp add: split_on_no_sep show_descriptor_no_slash)
  ultimately show ?thesis using descriptor_from_str_show[OF assms] by blast
qed

theorem descriptor_round_trip_witness:
  "descriptor_ok example_descriptor \<and>
   descriptor_from_str (object_path example_descriptor ''run1/members//'') = Inr example_descriptor \<and>
   descriptor_from_str (show_descriptor example_descriptor) = Inr example_descriptor"
proof -
  have h: "descriptor_ok example_descriptor"
    by (simp add: descriptor_ok_def example_descriptor_def is_i64_def)
  show ?thesis using h descriptor_round_trip[OF h] by blast
qed

text \<open>
  A name with too few or too many fields is refused. Whatever is parsed as a descriptor has
  three or four comma-separated fields in its last path component, and the fourth field is there
  exactly for a shutdown descriptor.
\<close>

theorem descriptor_parse_strict:
  assumes "descriptor_from_str s = Inr d"
  shows "length (split_on CHR '','' (last (split_on CHR ''/'' s))) = (if is_shutdown d then 4 else 3)"
proof -
  let ?parts = "split_on CHR '','' (last (split_on CHR ''/'' s))"
  have "2 < length ?parts" "length ?parts \<le> 4" "3 < length ?parts \<longleftrightarrow> is_shutdown d"
    using assms
    by (auto simp: descriptor_from_str_def Let_def result_bind_def parse_or_error_def is_shutdown_def
        split: if_splits option.splits sum.splits)
  then show ?thesis by auto
qed

theorem descriptor_parse_strict_witness:
  "descriptor_from_str ''members/7,127.0.0.1:9000,3'' =
     Inr \<lparr>rd_pid = 7, rd_address = SocketAddrV4 (127, 0, 0, 1) 9000, rd_gc_counter = 3, rd_final_counter = None\<rparr> \<and>
   length (split_on CHR '','' (last (split_on CHR ''/'' ''members/7,127.0.0.1:9000,3''))) =
     (if is_shutdown \<lparr>rd_pid = 7, rd_address = SocketAddrV4 (127, 0, 0, 1) 9000, rd_gc_counter = 3,
        rd_final_counter = None\<rparr> then 4 else 3)"
proof -
  have h: "descriptor_from_str ''members/7,127.0.0.1:9000,3'' =
     Inr \<lparr>rd_pid = 7, rd_address = SocketAddrV4 (127, 0, 0, 1) 9000, rd_gc_counter = 3, rd_final_counter = None\<rparr>"
    by code_simp
  show ?thesis using h descriptor_parse_strict[OF h] by blast
qed

text \<open>
  The period of the garbage collection is never zero and stays within one share of the base
  interval around it, where the share shrinks with the number of replicas; the interval the
  generator is asked for is never empty.
\<close>

theorem gc_period_bounds:
  assumes "\<And>lo hi. lo < hi \<Longrightarrow> lo \<le> pick lo hi \<and> pick lo hi \<le> hi"
    and "0 < base" "base < 2 ^ 63" "peers + 1 < 2 ^ 64"
  shows "1 \<le> reschedule_gc pick base peers \<and>
    base - base div (peers + 1) \<le> reschedule_gc pick base peers \<and>
    reschedule_gc pick base peers \<le> base + max 1 (base div (peers + 1))"
proof -
  define jitter lower upper where "jitter = base div (peers + 1)" and "lower = max (base - jitter) 1"
    and "upper = max (min (base + jitter) (2 ^ 128 - 1)) (lower + 1)"
  have j: "jitter \<le> base" by (simp add: jitter_def)
  have n: "min (peers + 1) (2 ^ 64 - 1) = peers + 1" using assms(4) by simp
  have eq: "reschedule_gc pick base peers = min (pick lower upper) (2 ^ 64 - 1)"
    using assms(2) unfolding reschedule_gc_def n Let_def jitter_def lower_def upper_def by simp
  have sum: "base + jitter < 2 ^ 64" using j assms(3) by simp
  have "lower < upper" by (simp add: upper_def)
  then have pick: "lower \<le> pick lower upper" "pick lower upper \<le> upper" using assms(1) by simp_all
  have up: "upper \<le> base + max 1 jitter" "upper \<le> 2 ^ 64 - 1"
    using sum j assms(2,3) by (auto simp: upper_def lower_def)
  show ?thesis using pick up unfolding eq jitter_def[symmetric] by (auto simp: lower_def)
qed

theorem gc_period_bounds_witness:
  "1 \<le> reschedule_gc (\<lambda>lo hi. lo) 1000 3 \<and> 1000 - 1000 div (3 + 1) \<le> reschedule_gc (\<lambda>lo hi. lo) 1000 3 \<and>
   reschedule_gc (\<lambda>lo hi. lo) 1000 3 \<le> 1000 + max 1 (1000 div (3 + 1))"
  by (rule gc_period_bounds) simp_all

end
