(* ===== verification/Journal_Files.thy ===== *)
theory Journal_Files
  imports Journal Descriptor "HOL-Library.Sublist"
begin

text \<open>
  The files under the journal (\<^verbatim>\<open>src/src/journal.rs\<close>): their names and the system calls that write
  them. A path is its list of components. A file has its bytes and how many of them are known to
  be on the disk; a power loss keeps at least those and otherwise cuts a file off anywhere. The
  three kinds of writes are shown to have exactly the outcomes the journal is verified against. A
  replacement that was renamed but whose directory could not be synced reports an error with the
  new snapshot in place: the files are then those of an interrupted compaction.
\<close>

section \<open>Paths\<close>

datatype component = RootDir | ParentDir | Normal string

type_synonym path = "component list"

definition file_name :: "path \<Rightarrow> string option" where
  "file_name p = (if p = [] then None else case last p of Normal n \<Rightarrow> Some n | _ \<Rightarrow> None)"

definition with_file_name :: "path \<Rightarrow> string \<Rightarrow> path" where
  "with_file_name p n = (if file_name p = None then p else butlast p) @ [Normal n]"

definition parent :: "path \<Rightarrow> path option" where
  "parent p = (if p = [] \<or> last p = RootDir then None else Some (butlast p))"

definition sibling_path :: "path \<Rightarrow> string \<Rightarrow> path" where
  "sibling_path p suff =
     with_file_name p ((case file_name p of Some n \<Rightarrow> n | None \<Rightarrow> ''durability'') @ ''.'' @ suff)"

definition snapshot_path :: "path \<Rightarrow> path" where
  "snapshot_path p = sibling_path p ''snapshot.json''"

definition mutation_log_path :: "path \<Rightarrow> path" where
  "mutation_log_path p = sibling_path p ''mutations.jsonl''"

definition lock_path :: "path \<Rightarrow> path" where
  "lock_path p =
     with_file_name p (''.'' @ (case file_name p of Some n \<Rightarrow> n | None \<Rightarrow> ''durability'') @ ''.lock'')"

text \<open>The file a replacement is written to first; \<open>process_id\<close> is the number of the process.\<close>

definition replacement_path :: "nat \<Rightarrow> path \<Rightarrow> path" where
  "replacement_path process_id p =
     with_file_name p (''.'' @ (case file_name p of Some n \<Rightarrow> n | None \<Rightarrow> ''durability.snapshot.json'') @ ''.'' @
       show_digits (int process_id) @ ''.tmp'')"


section \<open>System calls\<close>

record fs_file =
  ff_data :: "byte list"
  ff_synced :: nat

type_synonym fs = "path \<Rightarrow> fs_file option"

datatype fs_op =
    OpenTruncate path
  | OpenAppend path
  | WriteAll path "byte list"
  | SyncAll path
  | RenameTo path path
  | SyncDir path

text \<open>A call that succeeds; opening the empty path or renaming what does not exist is an error.\<close>

fun fs_apply :: "fs_op \<Rightarrow> fs \<Rightarrow> fs option" where
  "fs_apply (OpenTruncate p) fs = Some (fs(p \<mapsto> \<lparr>ff_data = [], ff_synced = 0\<rparr>))"
| "fs_apply (OpenAppend p) fs =
     Some (case fs p of Some _ \<Rightarrow> fs | None \<Rightarrow> fs(p \<mapsto> \<lparr>ff_data = [], ff_synced = 0\<rparr>))"
| "fs_apply (WriteAll p bs) fs =
     (case fs p of Some f \<Rightarrow> Some (fs(p \<mapsto> f\<lparr>ff_data := ff_data f @ bs\<rparr>)) | None \<Rightarrow> None)"
| "fs_apply (SyncAll p) fs =
     (case fs p of Some f \<Rightarrow> Some (fs(p \<mapsto> f\<lparr>ff_synced := length (ff_data f)\<rparr>)) | None \<Rightarrow> None)"
| "fs_apply (RenameTo p q) fs =
     (case fs p of Some f \<Rightarrow> Some (fs(q \<mapsto> f, p := None)) | None \<Rightarrow> None)"
| "fs_apply (SyncDir p) fs = (if p = [] then None else Some fs)"

text \<open>A call that fails, or in which the process is stopped, may have written some of its bytes.\<close>

fun fs_partial :: "nat \<Rightarrow> fs_op \<Rightarrow> fs \<Rightarrow> fs" where
  "fs_partial n (WriteAll p bs) fs =
     (case fs p of Some f \<Rightarrow> fs(p \<mapsto> f\<lparr>ff_data := ff_data f @ take n bs\<rparr>) | None \<Rightarrow> fs)"
| "fs_partial n op fs = fs"

text \<open>
  A sequence of calls, each left by \<open>?\<close> when it fails. The first argument is which call fails, and
  after how many bytes; the result says whether all succeeded.
\<close>

fun run_calls :: "(nat \<times> nat) option \<Rightarrow> fs_op list \<Rightarrow> fs \<Rightarrow> fs \<times> bool" where
  "run_calls fault [] fs = (fs, True)"
| "run_calls (Some (0, n)) (op # ops) fs = (fs_partial n op fs, False)"
| "run_calls fault (op # ops) fs =
     (case fs_apply op fs of
        None \<Rightarrow> (fs, False)
      | Some fs' \<Rightarrow> run_calls (map_option (\<lambda>(k, n). (k - 1, n)) fault) ops fs')"

definition sync_parent :: "path \<Rightarrow> fs_op list" where
  "sync_parent p = (case parent p of Some d \<Rightarrow> [SyncDir d] | None \<Rightarrow> [])"

definition replace_bytes_locked :: "nat \<Rightarrow> path \<Rightarrow> byte list \<Rightarrow> fs_op list" where
  "replace_bytes_locked process_id p bytes =
     (let tmp = replacement_path process_id p
      in [OpenTruncate tmp, WriteAll tmp bytes, SyncAll tmp, RenameTo tmp p] @ sync_parent p)"

definition append_calls :: "path \<Rightarrow> byte list \<Rightarrow> fs_op list" where
  "append_calls p line = [OpenAppend p, WriteAll p line, SyncAll p]"

definition clear_calls :: "path \<Rightarrow> fs_op list" where
  "clear_calls p = [OpenTruncate p, SyncAll p] @ sync_parent p"


section \<open>What the journal sees\<close>

definition file_data :: "fs \<Rightarrow> path \<Rightarrow> byte list option" where
  "file_data fs p = map_option ff_data (fs p)"

definition disk_of :: "path \<Rightarrow> fs \<Rightarrow> disk" where
  "disk_of p fs = \<lparr>d_snapshot = file_data fs (snapshot_path p), d_mutations = file_data fs (mutation_log_path p)\<rparr>"

definition settled :: "fs \<Rightarrow> bool" where
  "settled fs \<longleftrightarrow> (\<forall>p f. fs p = Some f \<longrightarrow> ff_synced f = length (ff_data f))"

definition power_loss :: "fs \<Rightarrow> fs \<Rightarrow> bool" where
  "power_loss fs fs' \<longleftrightarrow> (\<forall>p. case fs p of
      None \<Rightarrow> fs' p = None
    | Some f \<Rightarrow> \<exists>n \<ge> ff_synced f. file_data fs' p = Some (take n (ff_data f)))"

lemma power_loss_synced:
  assumes "power_loss fs fs'" "fs p = Some f" "ff_synced f = length (ff_data f)"
  shows "file_data fs' p = Some (ff_data f)"
  using assms spec[of _ p, OF assms(1)[unfolded power_loss_def]] by auto

lemma power_loss_None:
  assumes "power_loss fs fs'" "fs p = None"
  shows "file_data fs' p = None"
  using assms(2) spec[of _ p, OF assms(1)[unfolded power_loss_def]] by (simp add: file_data_def)

lemma power_loss_settled:
  assumes "power_loss fs fs'" "settled fs0" "fs p = fs0 p"
  shows "file_data fs' p = file_data fs0 p"
proof (cases "fs0 p")
  case None
  then show ?thesis using power_loss_None[OF assms(1)] assms(3) by (simp add: file_data_def)
next
  case (Some f)
  then have "file_data fs' p = Some (ff_data f)"
    using power_loss_synced[OF assms(1)] assms(2,3) by (simp add: settled_def)
  then show ?thesis using Some by (simp add: file_data_def)
qed


section \<open>Names\<close>

lemma with_file_name_inject: "with_file_name p m = with_file_name p n \<longleftrightarrow> m = n"
  by (simp add: with_file_name_def)

lemma file_name_with [simp]: "file_name (with_file_name p n) = Some n"
  by (simp add: file_name_def with_file_name_def)

lemma last_sibling: "file_name (sibling_path p suff) = Some ((case file_name p of Some n \<Rightarrow> n | None \<Rightarrow> ''durability'') @ ''.'' @ suff)"
  by (simp add: sibling_path_def)

text \<open>The last two letters of the name tell the files apart.\<close>

definition name_end :: "path \<Rightarrow> string option" where
  "name_end p = map_option (\<lambda>n. take 2 (rev n)) (file_name p)"

lemma name_end_simps:
  "name_end (snapshot_path p) = Some ''no''" "name_end (mutation_log_path p) = Some ''ln''"
  "name_end (lock_path p) = Some ''kc''" "name_end (replacement_path k p) = Some ''pm''"
  by (simp_all add: name_end_def snapshot_path_def mutation_log_path_def lock_path_def replacement_path_def last_sibling)

lemma paths_differ:
  "snapshot_path p \<noteq> mutation_log_path q" "snapshot_path p \<noteq> lock_path q" "mutation_log_path p \<noteq> lock_path q"
  "replacement_path k r \<noteq> snapshot_path p" "replacement_path k r \<noteq> mutation_log_path p" "replacement_path k r \<noteq> lock_path q"
  by (auto dest!: arg_cong[of _ _ name_end] simp: name_end_simps)


section \<open>Outcomes of the calls\<close>

lemma run_sync_parent [simp]: "fst (run_calls fault (sync_parent p) fs) = fs"
proof (cases fault)
  case (Some kn)
  then show ?thesis by (cases kn; cases "fst kn") (auto simp: sync_parent_def split: option.splits)
qed (simp add: sync_parent_def split: option.splits)

lemma run_replace:
  assumes "run_calls fault (replace_bytes_locked k p bs) fs = (fs1, ok)"
  shows "(\<forall>q. q \<noteq> replacement_path k p \<longrightarrow> fs1 q = fs q) \<and> \<not> ok \<or>
    fs1 = fs(p \<mapsto> \<lparr>ff_data = bs, ff_synced = length bs\<rparr>, replacement_path k p := None)"
proof -
  let ?tmp = "replacement_path k p"
  consider "fault = None" | n where "fault = Some (0, n)" | n where "fault = Some (1, n)" | n where "fault = Some (2, n)"
    | n where "fault = Some (3, n)" | j n where "fault = Some (Suc (Suc (Suc (Suc j))), n)"
    by (cases fault) (auto, metis Suc_1 eval_nat_numeral(3) not0_implies_Suc One_nat_def)
  then show ?thesis
  proof cases
    case 1
    then show ?thesis using assms by (auto simp: replace_bytes_locked_def Let_def dest!: arg_cong[of _ _ fst])
  next
    case (6 j n)
    then show ?thesis using assms by (auto simp: replace_bytes_locked_def Let_def dest!: arg_cong[of _ _ fst])
  qed (use assms in \<open>auto simp: replace_bytes_locked_def Let_def numeral_eq_Suc\<close>)
qed

abbreviation content :: "fs \<Rightarrow> path \<Rightarrow> byte list" where
  "content fs p \<equiv> (case file_data fs p of Some bs \<Rightarrow> bs | None \<Rightarrow> [])"

lemma open_append:
  assumes "settled fs"
  shows "fs_apply (OpenAppend p) fs = Some (fs(p \<mapsto> \<lparr>ff_data = content fs p, ff_synced = length (content fs p)\<rparr>))"
proof (cases "fs p")
  case (Some f)
  then have "ff_synced f = length (ff_data f)" using assms unfolding settled_def by blast
  then have "\<lparr>ff_data = ff_data f, ff_synced = length (ff_data f)\<rparr> = f" by (cases f) simp
  then show ?thesis using Some by (auto simp: file_data_def)
qed (simp add: file_data_def)

lemma loss_of_tail:
  assumes "power_loss (fs(p \<mapsto> \<lparr>ff_data = a @ b, ff_synced = length a\<rparr>)) fs2"
  shows "\<exists>n. file_data fs2 p = Some (a @ take n b)"
  using spec[of _ p, OF assms[unfolded power_loss_def]] by auto

lemma loss_elsewhere:
  assumes "power_loss fs1 fs2" "settled fs" "\<forall>q. q \<noteq> p \<longrightarrow> fs1 q = fs q" "q \<noteq> p"
  shows "file_data fs2 q = file_data fs q"
  using power_loss_settled[OF assms(1,2)] assms(3,4) by blast

lemma append_outcome:
  assumes run: "run_calls fault (append_calls p line) fs = (fs1, ok)" and "settled fs" "power_loss fs1 fs2"
  shows "(\<forall>q. q \<noteq> p \<longrightarrow> file_data fs2 q = file_data fs q) \<and>
    (file_data fs2 p = file_data fs p \<and> \<not> ok \<or>
     (\<exists>n. file_data fs2 p = Some (content fs p @ take n line) \<and> (ok \<longrightarrow> length line \<le> n)))"
proof -
  let ?log = "content fs p"
  let ?f = "\<lambda>bs n. fs(p \<mapsto> \<lparr>ff_data = ?log @ bs, ff_synced = n\<rparr>)"
  note open_log = open_append[OF assms(2), of p, simplified]
  consider "fs1 = fs" "\<not> ok" | n where "fs1 = ?f (take n line) (length ?log)" "\<not> ok"
    | "fs1 = ?f line (length ?log + length line)"
  proof (cases fault)
    case None
    then show ?thesis using run that(3) by (simp add: append_calls_def open_log)
  next
    case (Some kn)
    then obtain k n where kn: "fault = Some (k, n)" by (cases kn) simp
    consider "k = 0" | "k = 1" | "k = 2" | j where "k = Suc (Suc (Suc j))"
      by (metis One_nat_def Suc_1 not0_implies_Suc)
    then show ?thesis
    proof cases
      case 2
      then show ?thesis using run kn that(2)[of n] by (simp add: append_calls_def open_log)
    next
      case 3
      then show ?thesis using run kn that(2)[of "length line"] by (simp add: append_calls_def open_log numeral_2_eq_2)
    qed (use run kn that in \<open>simp_all add: append_calls_def open_log\<close>)
  qed
  then show ?thesis
  proof cases
    case 1
    then show ?thesis using power_loss_settled[OF assms(3,2)] by simp
  next
    case (2 n)
    then obtain m where "file_data fs2 p = Some (?log @ take m (take n line))"
      using loss_of_tail[of fs p ?log "take n line" fs2] assms(3) by auto
    moreover have "take m (take n line) = take (min m n) line" by simp
    moreover have "\<forall>q. q \<noteq> p \<longrightarrow> file_data fs2 q = file_data fs q"
      using 2(1) loss_elsewhere[OF assms(3,2), of p] by simp
    ultimately show ?thesis using 2(2) by metis
  next
    case 3
    then have "file_data fs2 p = Some (?log @ take (length line) line)"
      using power_loss_synced[OF assms(3), of p] by simp
    moreover have "\<forall>q. q \<noteq> p \<longrightarrow> file_data fs2 q = file_data fs q"
      using 3 loss_elsewhere[OF assms(3,2), of p] by simp
    ultimately show ?thesis by blast
  qed
qed

lemma replace_outcome:
  assumes "run_calls fault (replace_bytes_locked k p bs) fs = (fs1, ok)" "settled fs" "power_loss fs1 fs2"
    and "p \<noteq> replacement_path k p"
  shows "(\<forall>q. q \<noteq> p \<and> q \<noteq> replacement_path k p \<longrightarrow> file_data fs2 q = file_data fs q) \<and>
    (file_data fs2 p = file_data fs p \<and> \<not> ok \<or> file_data fs2 p = Some bs)"
  using run_replace[OF assms(1)]
proof
  assume h: "(\<forall>q. q \<noteq> replacement_path k p \<longrightarrow> fs1 q = fs q) \<and> \<not> ok"
  then have "file_data fs2 q = file_data fs q" if "q \<noteq> replacement_path k p" for q
    using loss_elsewhere[OF assms(3,2) _ that] by blast
  then show ?thesis using h assms(4) by blast
next
  assume h: "fs1 = fs(p \<mapsto> \<lparr>ff_data = bs, ff_synced = length bs\<rparr>, replacement_path k p := None)"
  then have "file_data fs2 p = Some bs" using power_loss_synced[OF assms(3), of p] assms(4) by simp
  moreover have "file_data fs2 q = file_data fs q" if "q \<noteq> p" "q \<noteq> replacement_path k p" for q
    using power_loss_settled[OF assms(3,2), of q] h that by simp
  ultimately show ?thesis by blast
qed

lemma clear_outcome:
  assumes run: "run_calls fault (clear_calls p) fs = (fs1, ok)" and "settled fs" "power_loss fs1 fs2"
  shows "(\<forall>q. q \<noteq> p \<longrightarrow> file_data fs2 q = file_data fs q) \<and>
    (file_data fs2 p = file_data fs p \<and> \<not> ok \<or> file_data fs2 p = Some [])"
proof -
  consider "fs1 = fs" "\<not> ok" | "fs1 = fs(p \<mapsto> \<lparr>ff_data = [], ff_synced = 0\<rparr>)"
  proof (cases fault)
    case None
    then show ?thesis using run that(2) by (auto simp: clear_calls_def dest!: arg_cong[of _ _ fst])
  next
    case (Some kn)
    then obtain k n where kn: "fault = Some (k, n)" by (cases kn) simp
    consider "k = 0" | "k = 1" | j where "k = Suc (Suc j)" by (metis One_nat_def not0_implies_Suc)
    then show ?thesis
      by cases (use run kn that in \<open>auto simp: clear_calls_def dest!: arg_cong[of _ _ fst]\<close>)
  qed
  then show ?thesis
  proof cases
    case 1
    then show ?thesis using power_loss_settled[OF assms(3,2)] by simp
  next
    case 2
    then have "file_data fs2 p = Some []" using power_loss_synced[OF assms(3), of p] by simp
    then show ?thesis using loss_elsewhere[OF assms(3,2), of p] 2 by simp
  qed
qed


section \<open>Properties\<close>


abbreviation example_path :: path where
  "example_path \<equiv> [RootDir, Normal ''data'', Normal ''replica'']"


text \<open>
  A journal named by a bare file name cannot be written. The parent of such a path is the
  empty path, which cannot be opened to be synced: replacing the snapshot reports an error
  whatever the operating system does, and so the replica panics when it takes its first
  snapshot.
\<close>

theorem bare_path_fails:
  "\<not> snd (run_calls fault (replace_bytes_locked k (snapshot_path [Normal name]) bs) fs) \<and>
   \<not> snd (run_calls fault (clear_calls (mutation_log_path [Normal name])) fs)"
proof -
  have last: "\<not> snd (run_calls fault [SyncDir []] fs)" for fault fs
  proof (cases fault)
    case (Some kn)
    then show ?thesis by (cases kn; cases "fst kn") auto
  qed simp
  have run: "\<not> snd (run_calls fault (calls @ [SyncDir []]) fs)" for calls fault fs
    by (induction fault calls fs rule: run_calls.induct) (auto simp: last split: option.splits)
  have "sync_parent (snapshot_path [Normal name]) = [SyncDir []]" "sync_parent (mutation_log_path [Normal name]) = [SyncDir []]"
    by (simp_all add: sync_parent_def parent_def snapshot_path_def mutation_log_path_def sibling_path_def with_file_name_def
        file_name_def)
  then show ?thesis using run by (simp add: replace_bytes_locked_def clear_calls_def Let_def) (metis append_Cons append_Nil run)
qed

end
