(* ===== verification/Containers.thy ===== *)
theory Containers
  imports Prelude "HOL-Library.RBT" "HOL-Library.Product_Lexorder"
begin

text \<open>
  The other containers of the standard library that the program uses: \<open>HashSet\<close> (a hash map
  to the unit value), \<open>BTreeMap\<close> and \<open>BTreeSet\<close> (the library's red-black trees, which are
  iterated in the order of their keys), and multi-valued indexes built from them. A view
  keeps several indexes over the same rows; the interface \<open>multi_index\<close> is what its
  invariants rest on, whichever containers implement the index.
\<close>

section \<open>Hash sets\<close>

type_synonym 'a hashset = "('a, unit) hashmap"

definition hs_insert :: "'a hashset \<Rightarrow> 'a \<Rightarrow> 'a hashset" where
  "hs_insert s x = hm_insert s x ()"

definition hs_remove :: "'a hashset \<Rightarrow> 'a \<Rightarrow> 'a hashset" where
  "hs_remove s x = hm_remove s x"

definition hs_contains :: "'a hashset \<Rightarrow> 'a \<Rightarrow> bool" where
  "hs_contains s x = hm_contains_key s x"

definition hs_iter :: "'a hashset \<Rightarrow> 'a list" where
  "hs_iter s = hm_keys s"

definition hs_is_empty :: "'a hashset \<Rightarrow> bool" where
  "hs_is_empty s = hm_is_empty s"

lemma hs_contains_new [simp]: "\<not> hs_contains hm_new x"
  by (simp add: hs_contains_def)

lemma hs_contains_insert [simp]: "hs_contains (hs_insert s x) y \<longleftrightarrow> y = x \<or> hs_contains s y"
  by (auto simp: hs_contains_def hs_insert_def)

lemma hs_contains_remove [simp]: "hs_contains (hs_remove s x) y \<longleftrightarrow> y \<noteq> x \<and> hs_contains s y"
  by (auto simp: hs_contains_def hs_remove_def)

lemma set_hs_iter [simp]: "set (hs_iter s) = {x. hs_contains s x}"
  by (simp add: hs_iter_def hs_contains_def)

lemma distinct_hs_iter [simp]: "distinct (hs_iter s)"
  by (simp add: hs_iter_def)

lemma hs_is_empty_iff: "hs_is_empty s \<longleftrightarrow> (\<forall>x. \<not> hs_contains s x)"
  by (simp add: hs_is_empty_def hm_is_empty_iff hs_contains_def hm_contains_key_def
      del: hm_contains_key_iff not_None_eq)


section \<open>Ordered maps and sets\<close>

type_synonym ('k, 'v) btree_map = "('k, 'v) RBT.rbt"
type_synonym 'a btree_set = "('a, unit) RBT.rbt"

definition bt_new :: "('k::linorder, 'v) btree_map" where
  "bt_new = RBT.empty"

definition bt_get :: "('k::linorder, 'v) btree_map \<Rightarrow> 'k \<Rightarrow> 'v option" where
  "bt_get m k = RBT.lookup m k"

definition bt_insert :: "('k::linorder, 'v) btree_map \<Rightarrow> 'k \<Rightarrow> 'v \<Rightarrow> ('k, 'v) btree_map" where
  "bt_insert m k v = RBT.insert k v m"

definition bt_remove :: "('k::linorder, 'v) btree_map \<Rightarrow> 'k \<Rightarrow> ('k, 'v) btree_map" where
  "bt_remove m k = RBT.delete k m"

definition bt_iter :: "('k::linorder, 'v) btree_map \<Rightarrow> ('k \<times> 'v) list" where
  "bt_iter m = RBT.entries m"

text \<open>\<open>BTreeMap::range\<close> over a half-open range; it panics on a range that ends before it starts.\<close>

definition bt_range :: "('k::linorder, 'v) btree_map \<Rightarrow> 'k \<Rightarrow> 'k \<Rightarrow> ('k \<times> 'v) list exec" where
  "bt_range m lo hi =
     (if lo > hi then Panicked (PanicMessage ''range start is greater than range end in BTreeMap'')
      else Done (filter (\<lambda>(k, _). lo \<le> k \<and> k < hi) (bt_iter m)))"

definition bs_insert :: "'a::linorder btree_set \<Rightarrow> 'a \<Rightarrow> 'a btree_set" where
  "bs_insert s x = bt_insert s x ()"

definition bs_remove :: "'a::linorder btree_set \<Rightarrow> 'a \<Rightarrow> 'a btree_set" where
  "bs_remove s x = bt_remove s x"

definition bs_contains :: "'a::linorder btree_set \<Rightarrow> 'a \<Rightarrow> bool" where
  "bs_contains s x \<longleftrightarrow> bt_get s x \<noteq> None"

definition bs_iter :: "'a::linorder btree_set \<Rightarrow> 'a list" where
  "bs_iter s = map fst (bt_iter s)"

definition bs_is_empty :: "'a::linorder btree_set \<Rightarrow> bool" where
  "bs_is_empty s \<longleftrightarrow> bt_iter s = []"

lemma bt_get_new [simp]: "bt_get bt_new k = None"
  by (simp add: bt_get_def bt_new_def)

lemma bt_get_insert [simp]: "bt_get (bt_insert m k v) k' = (if k' = k then Some v else bt_get m k')"
  by (simp add: bt_get_def bt_insert_def)

lemma bt_get_remove [simp]: "bt_get (bt_remove m k) k' = (if k' = k then None else bt_get m k')"
  by (simp add: bt_get_def bt_remove_def)

interpretation bt: map_api bt_get bt_insert bt_remove
  by unfold_locales simp_all

lemma bt_get_iter: "bt_get m k = map_of (bt_iter m) k"
  by (simp add: bt_get_def bt_iter_def RBT.map_of_entries)

lemma sorted_bt_iter: "sorted (map fst (bt_iter m))" and distinct_bt_iter: "distinct (map fst (bt_iter m))"
  by (simp_all add: bt_iter_def RBT.sorted_entries RBT.distinct_entries)

lemma in_bt_iter_iff [simp]: "(k, v) \<in> set (bt_iter m) \<longleftrightarrow> bt_get m k = Some v"
  using distinct_bt_iter[of m] by (simp add: bt_get_iter)

lemma bs_contains_new [simp]: "\<not> bs_contains bt_new x"
  by (simp add: bs_contains_def)

lemma bs_contains_insert [simp]: "bs_contains (bs_insert s x) y \<longleftrightarrow> y = x \<or> bs_contains s y"
  by (auto simp: bs_contains_def bs_insert_def)

lemma bs_contains_remove [simp]: "bs_contains (bs_remove s x) y \<longleftrightarrow> y \<noteq> x \<and> bs_contains s y"
  by (auto simp: bs_contains_def bs_remove_def)

lemma set_bs_iter [simp]: "set (bs_iter s) = {x. bs_contains s x}"
proof -
  have "set (bs_iter s) = dom (map_of (bt_iter s))"
    by (simp add: bs_iter_def dom_map_of_conv_image_fst)
  then show ?thesis by (auto simp: bs_contains_def bt_get_iter)
qed

lemma sorted_bs_iter: "sorted (bs_iter s)" and distinct_bs_iter: "distinct (bs_iter s)"
  by (simp_all add: bs_iter_def sorted_bt_iter distinct_bt_iter)

lemma bs_is_empty_iff: "bs_is_empty s \<longleftrightarrow> (\<forall>x. \<not> bs_contains s x)"
proof -
  have "bs_is_empty s \<longleftrightarrow> set (bs_iter s) = {}" by (simp add: bs_is_empty_def bs_iter_def)
  then show ?thesis by auto
qed


section \<open>Indexes\<close>

text \<open>
  \<open>entry(a).or_default().insert(b)\<close>, and the removal of a pair with the removal of a set that
  became empty, for the three combinations of containers in use.
\<close>

definition hh_add :: "('a, 'b hashset) hashmap \<Rightarrow> 'a \<Rightarrow> 'b \<Rightarrow> ('a, 'b hashset) hashmap" where
  "hh_add index a b = hm_insert index a (hs_insert (case hm_get index a of Some s \<Rightarrow> s | None \<Rightarrow> hm_new) b)"

definition hh_del :: "('a, 'b hashset) hashmap \<Rightarrow> 'a \<Rightarrow> 'b \<Rightarrow> ('a, 'b hashset) hashmap" where
  "hh_del index a b =
     (case hm_get index a of
        Some s \<Rightarrow>
          (let s' = hs_remove s b
           in if hs_is_empty s' then hm_remove index a else hm_insert index a s')
      | None \<Rightarrow> index)"

definition bh_add :: "('a::linorder, 'b hashset) btree_map \<Rightarrow> 'a \<Rightarrow> 'b \<Rightarrow> ('a, 'b hashset) btree_map" where
  "bh_add index a b = bt_insert index a (hs_insert (case bt_get index a of Some s \<Rightarrow> s | None \<Rightarrow> hm_new) b)"

definition bh_del :: "('a::linorder, 'b hashset) btree_map \<Rightarrow> 'a \<Rightarrow> 'b \<Rightarrow> ('a, 'b hashset) btree_map" where
  "bh_del index a b =
     (case bt_get index a of
        Some s \<Rightarrow>
          (let s' = hs_remove s b
           in if hs_is_empty s' then bt_remove index a else bt_insert index a s')
      | None \<Rightarrow> index)"

definition hb_add :: "('a, 'b::linorder btree_set) hashmap \<Rightarrow> 'a \<Rightarrow> 'b \<Rightarrow> ('a, 'b btree_set) hashmap" where
  "hb_add index a b = hm_insert index a (bs_insert (case hm_get index a of Some s \<Rightarrow> s | None \<Rightarrow> bt_new) b)"

definition hb_del :: "('a, 'b::linorder btree_set) hashmap \<Rightarrow> 'a \<Rightarrow> 'b \<Rightarrow> ('a, 'b btree_set) hashmap" where
  "hb_del index a b =
     (case hm_get index a of
        Some s \<Rightarrow>
          (let s' = bs_remove s b
           in if bs_is_empty s' then hm_remove index a else hm_insert index a s')
      | None \<Rightarrow> index)"

text \<open>
  The interface: looking up an index gives the set of what was added and not removed under
  that key, and never an empty set.
\<close>

locale multi_index =
  fixes get :: "'i \<Rightarrow> 'a \<Rightarrow> 's option"
    and mem :: "'s \<Rightarrow> 'b \<Rightarrow> bool"
    and add :: "'i \<Rightarrow> 'a \<Rightarrow> 'b \<Rightarrow> 'i"
    and del :: "'i \<Rightarrow> 'a \<Rightarrow> 'b \<Rightarrow> 'i"
  assumes get_add: "\<exists>s. get (add i a b) x = (if x = a then Some s else get i x) \<and>
      (\<forall>y. mem s y \<longleftrightarrow> y = b \<or> (\<exists>s0. get i a = Some s0 \<and> mem s0 y))"
    and get_del: "\<exists>s. get (del i a b) x =
        (if x = a then (if \<exists>s0 y. get i a = Some s0 \<and> mem s0 y \<and> y \<noteq> b then Some s else None) else get i x) \<and>
      (\<forall>y. mem s y \<longleftrightarrow> y \<noteq> b \<and> (\<exists>s0. get i a = Some s0 \<and> mem s0 y))"
begin

text \<open>The index is exactly the relation \<open>R\<close>.\<close>

definition mirrors :: "'i \<Rightarrow> ('a \<Rightarrow> 'b \<Rightarrow> bool) \<Rightarrow> bool" where
  "mirrors i R \<longleftrightarrow>
     (\<forall>a. case get i a of Some s \<Rightarrow> (\<exists>b. R a b) \<and> (\<forall>b. mem s b \<longleftrightarrow> R a b) | None \<Rightarrow> \<forall>b. \<not> R a b)"

lemma mirrorsD:
  assumes "mirrors i R"
  shows "get i a = None \<longleftrightarrow> (\<forall>b. \<not> R a b)" and "get i a = Some s \<Longrightarrow> mem s b \<longleftrightarrow> R a b"
proof -
  have "case get i a of Some s \<Rightarrow> (\<exists>b. R a b) \<and> (\<forall>b. mem s b \<longleftrightarrow> R a b) | None \<Rightarrow> \<forall>b. \<not> R a b"
    using assms by (simp add: mirrors_def)
  then show "get i a = None \<longleftrightarrow> (\<forall>b. \<not> R a b)" "get i a = Some s \<Longrightarrow> mem s b \<longleftrightarrow> R a b"
    by (auto split: option.splits)
qed

lemma mirrorsI:
  assumes "\<And>a. get i a = None \<Longrightarrow> \<forall>b. \<not> R a b"
    and "\<And>a s. get i a = Some s \<Longrightarrow> (\<exists>b. R a b) \<and> (\<forall>b. mem s b \<longleftrightarrow> R a b)"
  shows "mirrors i R"
  using assms by (auto simp: mirrors_def split: option.splits)

lemma mirrors_add:
  assumes "mirrors i R"
  shows "mirrors (add i a b) (\<lambda>x y. x = a \<and> y = b \<or> R x y)"
proof -
  have "case get (add i a b) x of
      Some s \<Rightarrow> (\<exists>y. x = a \<and> y = b \<or> R x y) \<and> (\<forall>y. mem s y \<longleftrightarrow> x = a \<and> y = b \<or> R x y)
    | None \<Rightarrow> \<forall>y. \<not> (x = a \<and> y = b \<or> R x y)" for x
  proof -
    obtain s where s: "get (add i a b) x = (if x = a then Some s else get i x)"
      "\<forall>y. mem s y \<longleftrightarrow> y = b \<or> (\<exists>s0. get i a = Some s0 \<and> mem s0 y)"
      using get_add[of i a b x] by blast
    have "(\<exists>s0. get i a = Some s0 \<and> mem s0 y) \<longleftrightarrow> R a y" for y
      using mirrorsD[OF assms, of a] by (cases "get i a") auto
    then show ?thesis using s mirrorsD[OF assms, of x]
      by (cases "get i x") auto
  qed
  then show ?thesis by (simp add: mirrors_def)
qed

lemma mirrors_del:
  assumes "mirrors i R"
  shows "mirrors (del i a b) (\<lambda>x y. \<not> (x = a \<and> y = b) \<and> R x y)"
proof -
  have "case get (del i a b) x of
      Some s \<Rightarrow> (\<exists>y. \<not> (x = a \<and> y = b) \<and> R x y) \<and> (\<forall>y. mem s y \<longleftrightarrow> \<not> (x = a \<and> y = b) \<and> R x y)
    | None \<Rightarrow> \<forall>y. \<not> (\<not> (x = a \<and> y = b) \<and> R x y)" for x
  proof -
    obtain s where s: "get (del i a b) x =
        (if x = a then (if \<exists>s0 y. get i a = Some s0 \<and> mem s0 y \<and> y \<noteq> b then Some s else None) else get i x)"
      "\<forall>y. mem s y \<longleftrightarrow> y \<noteq> b \<and> (\<exists>s0. get i a = Some s0 \<and> mem s0 y)"
      using get_del[of i a b x] by blast
    have R: "(\<exists>s0. get i a = Some s0 \<and> mem s0 y) \<longleftrightarrow> R a y" for y
      using mirrorsD[OF assms, of a] by (cases "get i a") auto
    then have "(\<exists>s0 y. get i a = Some s0 \<and> mem s0 y \<and> y \<noteq> b) \<longleftrightarrow> (\<exists>y. y \<noteq> b \<and> R a y)" by blast
    then show ?thesis using s R mirrorsD[OF assms, of x]
      by (cases "get i x") (auto split: if_splits)
  qed
  then show ?thesis unfolding mirrors_def by blast
qed

lemma mirrors_cong:
  assumes "mirrors i R" "\<And>a b. R a b \<longleftrightarrow> R' a b"
  shows "mirrors i R'"
proof -
  have "R = R'" using assms(2) by (intro ext) simp
  then show ?thesis using assms(1) by simp
qed

end

interpretation hh: multi_index hm_get hs_contains hh_add hh_del
proof
  fix i :: "('a, 'b hashset) hashmap" and a x b
  show "\<exists>s. hm_get (hh_add i a b) x = (if x = a then Some s else hm_get i x) \<and>
      (\<forall>y. hs_contains s y \<longleftrightarrow> y = b \<or> (\<exists>s0. hm_get i a = Some s0 \<and> hs_contains s0 y))"
    by (rule exI[of _ "hs_insert (case hm_get i a of Some s \<Rightarrow> s | None \<Rightarrow> hm_new) b"])
      (cases "hm_get i a"; simp add: hh_add_def)
  show "\<exists>s. hm_get (hh_del i a b) x =
        (if x = a then (if \<exists>s0 y. hm_get i a = Some s0 \<and> hs_contains s0 y \<and> y \<noteq> b then Some s else None)
         else hm_get i x) \<and>
      (\<forall>y. hs_contains s y \<longleftrightarrow> y \<noteq> b \<and> (\<exists>s0. hm_get i a = Some s0 \<and> hs_contains s0 y))"
    by (cases "hm_get i a")
      (auto simp: hh_del_def Let_def hs_is_empty_iff intro: exI[of _ hm_new] exI[of _ "hs_remove _ b"])
qed

interpretation bh: multi_index bt_get hs_contains bh_add bh_del
proof
  fix i :: "('a::linorder, 'b hashset) btree_map" and a x b
  show "\<exists>s. bt_get (bh_add i a b) x = (if x = a then Some s else bt_get i x) \<and>
      (\<forall>y. hs_contains s y \<longleftrightarrow> y = b \<or> (\<exists>s0. bt_get i a = Some s0 \<and> hs_contains s0 y))"
    by (rule exI[of _ "hs_insert (case bt_get i a of Some s \<Rightarrow> s | None \<Rightarrow> hm_new) b"])
      (cases "bt_get i a"; simp add: bh_add_def)
  show "\<exists>s. bt_get (bh_del i a b) x =
        (if x = a then (if \<exists>s0 y. bt_get i a = Some s0 \<and> hs_contains s0 y \<and> y \<noteq> b then Some s else None)
         else bt_get i x) \<and>
      (\<forall>y. hs_contains s y \<longleftrightarrow> y \<noteq> b \<and> (\<exists>s0. bt_get i a = Some s0 \<and> hs_contains s0 y))"
    by (cases "bt_get i a")
      (auto simp: bh_del_def Let_def hs_is_empty_iff intro: exI[of _ hm_new] exI[of _ "hs_remove _ b"])
qed

interpretation hb: multi_index hm_get bs_contains hb_add hb_del
proof
  fix i :: "('a, 'b::linorder btree_set) hashmap" and a x b
  show "\<exists>s. hm_get (hb_add i a b) x = (if x = a then Some s else hm_get i x) \<and>
      (\<forall>y. bs_contains s y \<longleftrightarrow> y = b \<or> (\<exists>s0. hm_get i a = Some s0 \<and> bs_contains s0 y))"
    by (rule exI[of _ "bs_insert (case hm_get i a of Some s \<Rightarrow> s | None \<Rightarrow> bt_new) b"])
      (cases "hm_get i a"; simp add: hb_add_def)
  show "\<exists>s. hm_get (hb_del i a b) x =
        (if x = a then (if \<exists>s0 y. hm_get i a = Some s0 \<and> bs_contains s0 y \<and> y \<noteq> b then Some s else None)
         else hm_get i x) \<and>
      (\<forall>y. bs_contains s y \<longleftrightarrow> y \<noteq> b \<and> (\<exists>s0. hm_get i a = Some s0 \<and> bs_contains s0 y))"
    by (cases "hm_get i a")
      (auto simp: hb_del_def Let_def bs_is_empty_iff intro: exI[of _ bt_new] exI[of _ "bs_remove _ b"])
qed

end
