(* ===== verification/View.thy ===== *)
theory View
  imports Containers
begin

text \<open>
  The view of the database layer (\<^verbatim>\<open>src/src/db/view.rs\<close>): a key-value map together
  with an ordered index from values to keys. The invariant is that the index mirrors the
  map; queries over the index are then exact statements about the map.
\<close>

section \<open>State and operations\<close>

record (overloaded) ('k, 'v) view =
  view_key_to_value :: "('k, 'v) hashmap"
  view_value_to_keys :: "('v, 'k hashset) btree_map"

definition view_new :: "('k, 'v::linorder) view" where
  "view_new = \<lparr>view_key_to_value = hm_new, view_value_to_keys = bt_new\<rparr>"

definition view_default :: "('k, 'v::linorder) view" where
  "view_default = view_new"

definition view_insert :: "('k, 'v::linorder) view \<Rightarrow> 'k \<Rightarrow> 'v \<Rightarrow> ('k, 'v) view" where
  "view_insert self key value =
     (let index = (case hm_get (view_key_to_value self) key of
                     Some old_value \<Rightarrow> bh_del (view_value_to_keys self) old_value key
                   | None \<Rightarrow> view_value_to_keys self)
      in \<lparr>view_key_to_value = hm_insert (view_key_to_value self) key value,
          view_value_to_keys = bh_add index value key\<rparr>)"

definition view_insert_values :: "('k, 'v::linorder) view \<Rightarrow> ('k \<times> 'v) list \<Rightarrow> ('k, 'v) view" where
  "view_insert_values self values = fold (\<lambda>(k, v) s. view_insert s k v) values self"

definition view_len :: "('k, 'v) view \<Rightarrow> nat" where
  "view_len self = hm_len (view_key_to_value self)"

definition view_is_empty :: "('k, 'v) view \<Rightarrow> bool" where
  "view_is_empty self = hm_is_empty (view_key_to_value self)"

text \<open>The fields that the debug output shows.\<close>

definition view_debug :: "('k, 'v::linorder) view \<Rightarrow> (string \<times> nat) list" where
  "view_debug self = [(''key_to_value length'', hm_len (view_key_to_value self)),
     (''value_to_keys length'', length (bt_iter (view_value_to_keys self)))]"

definition view_to_vec :: "('k, 'v) view \<Rightarrow> ('k \<times> 'v) list" where
  "view_to_vec self = hm_iter (view_key_to_value self)"

definition view_remove_by_key :: "('k, 'v::linorder) view \<Rightarrow> 'k \<Rightarrow> ('k, 'v) view \<times> bool" where
  "view_remove_by_key self key =
     (case hm_get (view_key_to_value self) key of
        Some value \<Rightarrow>
          (\<lparr>view_key_to_value = hm_remove (view_key_to_value self) key,
            view_value_to_keys = bh_del (view_value_to_keys self) value key\<rparr>, True)
      | None \<Rightarrow> (self, False))"

definition view_remove_by_value :: "('k, 'v::linorder) view \<Rightarrow> 'v \<Rightarrow> ('k, 'v) view" where
  "view_remove_by_value self value =
     (case bt_get (view_value_to_keys self) value of
        Some keys \<Rightarrow>
          \<lparr>view_key_to_value = fold (\<lambda>key m. hm_remove m key) (hs_iter keys) (view_key_to_value self),
           view_value_to_keys = bt_remove (view_value_to_keys self) value\<rparr>
      | None \<Rightarrow> self)"

definition view_get_value :: "('k, 'v) view \<Rightarrow> 'k \<Rightarrow> 'v option" where
  "view_get_value self key = hm_get (view_key_to_value self) key"

definition view_get_keys_by_value :: "('k, 'v::linorder) view \<Rightarrow> 'v \<Rightarrow> 'k hashset option" where
  "view_get_keys_by_value self value = bt_get (view_value_to_keys self) value"

definition view_range_query :: "('k, 'v::linorder) view \<Rightarrow> 'v \<Rightarrow> 'v \<Rightarrow> ('v \<times> 'k hashset) list exec" where
  "view_range_query self lo hi = bt_range (view_value_to_keys self) lo hi"

definition view_min_k :: "('k, 'v::linorder) view \<Rightarrow> nat \<Rightarrow> ('v \<times> 'k) list" where
  "view_min_k self k =
     take k (concat (map (\<lambda>(value, keys). map (Pair value) (hs_iter keys)) (bt_iter (view_value_to_keys self))))"


section \<open>The invariant\<close>

definition view_inv :: "('k, 'v::linorder) view \<Rightarrow> bool" where
  "view_inv s \<longleftrightarrow> bh.mirrors (view_value_to_keys s) (\<lambda>v k. view_get_value s k = Some v)"

lemma view_inv_new: "view_inv view_new"
  by (auto simp: view_inv_def view_new_def view_get_value_def intro: bh.mirrorsI)

lemma view_get_value_insert:
  "view_get_value (view_insert s k v) k' = (if k' = k then Some v else view_get_value s k')"
  by (simp add: view_get_value_def view_insert_def Let_def)

lemma view_inv_insert:
  assumes "view_inv s"
  shows "view_inv (view_insert s k v)"
proof -
  let ?R = "\<lambda>v' k'. view_get_value s k' = Some v'"
  have mir: "bh.mirrors (view_value_to_keys s) ?R" using assms by (simp add: view_inv_def)
  show ?thesis
  proof (cases "hm_get (view_key_to_value s) k")
    case None
    then show ?thesis unfolding view_inv_def view_get_value_insert
      using bh.mirrors_add[OF mir, of v k]
      by (auto simp: view_insert_def view_get_value_def elim!: bh.mirrors_cong)
  next
    case (Some old)
    then show ?thesis unfolding view_inv_def view_get_value_insert
      using bh.mirrors_add[OF bh.mirrors_del[OF mir, of old k], of v k]
      by (auto simp: view_insert_def view_get_value_def elim!: bh.mirrors_cong)
  qed
qed

lemma view_get_value_remove_by_key:
  "view_get_value (fst (view_remove_by_key s k)) k' = (if k' = k then None else view_get_value s k')"
  by (auto simp: view_remove_by_key_def view_get_value_def split: option.splits)

lemma view_inv_remove_by_key:
  assumes "view_inv s"
  shows "view_inv (fst (view_remove_by_key s k))"
proof (cases "hm_get (view_key_to_value s) k")
  case (Some old)
  then show ?thesis unfolding view_inv_def view_get_value_remove_by_key
    using bh.mirrors_del[OF assms[unfolded view_inv_def], of old k]
    by (auto simp: view_remove_by_key_def view_get_value_def elim!: bh.mirrors_cong)
qed (use assms in \<open>simp add: view_remove_by_key_def\<close>)

lemma view_get_value_remove_by_value:
  assumes "view_inv s"
  shows "view_get_value (view_remove_by_value s v) k =
    (if view_get_value s k = Some v then None else view_get_value s k)"
proof (cases "bt_get (view_value_to_keys s) v")
  case None
  then show ?thesis using bh.mirrorsD(1)[OF assms[unfolded view_inv_def], of v]
    by (simp add: view_remove_by_value_def)
next
  case (Some keys)
  then show ?thesis using bh.mirrorsD(2)[OF assms[unfolded view_inv_def] Some, of k]
    by (simp add: view_remove_by_value_def view_get_value_def hm.get_fold_rem)
qed

lemma view_inv_remove_by_value:
  assumes "view_inv s"
  shows "view_inv (view_remove_by_value s v)"
proof (cases "bt_get (view_value_to_keys s) v")
  case (Some keys)
  note mir = bh.mirrorsD[OF assms[unfolded view_inv_def]]
  let ?idx = "view_value_to_keys s"
  show ?thesis unfolding view_inv_def view_get_value_remove_by_value[OF assms]
  proof (rule bh.mirrorsI)
    fix a assume "bt_get (view_value_to_keys (view_remove_by_value s v)) a = None"
    then have "a = v \<or> bt_get ?idx a = None" by (auto simp: view_remove_by_value_def Some split: if_splits)
    then show "\<forall>b. \<not> (if view_get_value s b = Some v then None else view_get_value s b) = Some a"
      using mir(1)[of a] by auto
  next
    fix a sa assume "bt_get (view_value_to_keys (view_remove_by_value s v)) a = Some sa"
    then have a: "a \<noteq> v" "bt_get ?idx a = Some sa"
      by (auto simp: view_remove_by_value_def Some split: if_splits)
    moreover obtain b where "view_get_value s b = Some a" using a(2) mir(1)[of a] by auto
    ultimately show "(\<exists>b. (if view_get_value s b = Some v then None else view_get_value s b) = Some a) \<and>
        (\<forall>b. hs_contains sa b = ((if view_get_value s b = Some v then None else view_get_value s b) = Some a))"
      using mir(2)[OF a(2)] by (auto intro: exI[of _ b])
  qed
qed (use assms in \<open>simp add: view_remove_by_value_def\<close>)

section \<open>The rows in the order of their values\<close>

definition view_rows :: "('k, 'v::linorder) view \<Rightarrow> ('v \<times> 'k) list" where
  "view_rows s = concat (map (\<lambda>(value, keys). map (Pair value) (hs_iter keys)) (bt_iter (view_value_to_keys s)))"

lemma sorted_map_const: "sorted (map (\<lambda>_. a) xs)"
  by (induction xs) auto

lemma sorted_rows:
  "sorted (map fst kvs) \<Longrightarrow> sorted (map fst (concat (map (\<lambda>(v, ks). map (Pair v) (hs_iter ks)) kvs)))"
  by (induction kvs) (auto simp: sorted_append comp_def sorted_map_const)

lemma distinct_rows:
  "distinct (map fst kvs) \<Longrightarrow> distinct (concat (map (\<lambda>(v, ks). map (Pair v) (hs_iter ks)) kvs))"
  by (induction kvs) (auto simp: distinct_map inj_on_def image_iff)

lemma view_rows_sorted: "sorted (map fst (view_rows s))" and view_rows_distinct: "distinct (view_rows s)"
  unfolding view_rows_def
  by (intro sorted_rows distinct_rows sorted_bt_iter distinct_bt_iter)+

lemma set_view_rows:
  assumes "view_inv s"
  shows "set (view_rows s) = {(v, k). view_get_value s k = Some v}"
proof -
  note mir = bh.mirrorsD[OF assms[unfolded view_inv_def]]
  have "(v, k) \<in> set (view_rows s) \<longleftrightarrow> (\<exists>ks. bt_get (view_value_to_keys s) v = Some ks \<and> hs_contains ks k)" for v k
    by (force simp: view_rows_def)
  also have "\<dots> v k \<longleftrightarrow> view_get_value s k = Some v" for v k
    using mir[of v] by (cases "bt_get (view_value_to_keys s) v") auto
  finally show ?thesis by auto
qed

lemma length_view_rows:
  assumes "view_inv s"
  shows "length (view_rows s) = view_len s"
proof -
  have "length (view_rows s) = card (set (view_rows s))"
    by (simp add: distinct_card view_rows_distinct)
  also have "\<dots> = card (snd ` set (view_rows s))"
    by (rule card_image[symmetric]) (auto simp: inj_on_def set_view_rows[OF assms])
  also have "snd ` set (view_rows s) = {k. hm_get (view_key_to_value s) k \<noteq> None}"
    by (force simp: set_view_rows[OF assms] view_get_value_def image_iff)
  finally show ?thesis by (simp add: view_len_def hm_len_eq_card)
qed


section \<open>Properties\<close>

text \<open>
  C27: the two sides of a view never disagree. Every update keeps the index an exact mirror of
  the map, and changes the map as documented: an insertion overwrites, a removal by key
  reports whether the key was there, a removal by value removes every key with that value.
\<close>

theorem view_updates_exact:
  assumes "view_inv s"
  shows "view_inv (view_insert s k v) \<and>
    view_get_value (view_insert s k v) = (view_get_value s)(k \<mapsto> v) \<and>
    view_inv (fst (view_remove_by_key s k)) \<and>
    view_get_value (fst (view_remove_by_key s k)) = (view_get_value s)(k := None) \<and>
    (snd (view_remove_by_key s k) \<longleftrightarrow> view_get_value s k \<noteq> None) \<and>
    view_inv (view_remove_by_value s v) \<and>
    view_get_value (view_remove_by_value s v) =
      (\<lambda>k'. if view_get_value s k' = Some v then None else view_get_value s k')"
proof -
  have "snd (view_remove_by_key s k) \<longleftrightarrow> view_get_value s k \<noteq> None"
    by (simp add: view_remove_by_key_def view_get_value_def split: option.splits)
  then show ?thesis
    using view_inv_insert[OF assms] view_inv_remove_by_key[OF assms] view_inv_remove_by_value[OF assms]
    by (simp add: fun_eq_iff view_get_value_insert view_get_value_remove_by_key
        view_get_value_remove_by_value[OF assms])
qed

definition example_view :: "(nat, nat) view" where
  "example_view = view_insert_values view_new [(1, 30), (2, 10), (3, 20), (4, 10), (1, 40)]"

lemma example_view_inv: "view_inv example_view"
  by (simp add: example_view_def view_insert_values_def view_inv_insert view_inv_new)

theorem view_updates_exact_witness:
  "view_inv example_view \<and> view_inv (view_insert example_view 9 10) \<and>
   view_get_value (view_insert example_view 9 10) = (view_get_value example_view)(9 \<mapsto> 10) \<and>
   view_get_value (view_remove_by_value example_view 10) =
     (\<lambda>k'. if view_get_value example_view k' = Some 10 then None else view_get_value example_view k')"
  using example_view_inv view_updates_exact[OF example_view_inv, of 9 10] by blast

text \<open>
  A range query over a well-formed range lists exactly the values of the view in the range,
  in ascending order and each once, with exactly the keys that have that value; a range that
  ends before it starts panics.
\<close>

theorem view_range_query_exact:
  assumes "view_inv s"
  shows "(hi < lo \<longrightarrow>
      view_range_query s lo hi = Panicked (PanicMessage ''range start is greater than range end in BTreeMap'')) \<and>
    (lo \<le> hi \<longrightarrow> (\<exists>rows. view_range_query s lo hi = Done rows \<and>
       sorted (map fst rows) \<and> distinct (map fst rows) \<and>
       (\<forall>v. v \<in> fst ` set rows \<longleftrightarrow> lo \<le> v \<and> v < hi \<and> (\<exists>k. view_get_value s k = Some v)) \<and>
       (\<forall>(v, ks) \<in> set rows. \<forall>k. hs_contains ks k \<longleftrightarrow> view_get_value s k = Some v)))"
proof -
  let ?rows = "filter (\<lambda>(k, _). lo \<le> k \<and> k < hi) (bt_iter (view_value_to_keys s))"
  note mir = bh.mirrorsD[OF assms[unfolded view_inv_def]]
  have "sorted (map fst ?rows)" "distinct (map fst ?rows)"
    by (simp_all add: sorted_filter sorted_bt_iter distinct_map_fst_filter distinct_bt_iter)
  moreover have "v \<in> fst ` set ?rows \<longleftrightarrow> lo \<le> v \<and> v < hi \<and> (\<exists>k. view_get_value s k = Some v)" for v
  proof -
    have "v \<in> fst ` set ?rows \<longleftrightarrow> lo \<le> v \<and> v < hi \<and> bt_get (view_value_to_keys s) v \<noteq> None"
      by (force simp: image_iff)
    then show ?thesis using mir(1)[of v] by simp
  qed
  moreover have "\<forall>(v, ks) \<in> set ?rows. \<forall>k. hs_contains ks k \<longleftrightarrow> view_get_value s k = Some v"
    using mir(2) by auto
  moreover have "view_range_query s lo hi = Done ?rows" if "lo \<le> hi"
    using that by (simp add: view_range_query_def bt_range_def)
  moreover have "hi < lo \<Longrightarrow>
      view_range_query s lo hi = Panicked (PanicMessage ''range start is greater than range end in BTreeMap'')"
    by (simp add: view_range_query_def bt_range_def)
  ultimately show ?thesis by blast
qed

theorem view_range_query_exact_witness:
  "view_inv example_view \<and> (10::nat) \<le> 30 \<and>
   (\<exists>rows. view_range_query example_view 10 30 = Done rows \<and>
       sorted (map fst rows) \<and> distinct (map fst rows) \<and>
       (\<forall>v. v \<in> fst ` set rows \<longleftrightarrow> 10 \<le> v \<and> v < 30 \<and> (\<exists>k. view_get_value example_view k = Some v)))"
proof -
  have "(10::nat) \<le> 30" by simp
  then show ?thesis using example_view_inv view_range_query_exact[OF example_view_inv, of 30 10] by blast
qed

text \<open>
  \<open>min_k\<close> returns as many rows as there are, up to \<open>k\<close>, each a row of the view and no row
  twice, in ascending order of their values, and no row left out has a smaller value than a
  row returned.
\<close>

theorem view_min_k_lowest:
  assumes "view_inv s"
  shows "length (view_min_k s n) = min n (view_len s) \<and> distinct (view_min_k s n) \<and>
    sorted (map fst (view_min_k s n)) \<and>
    (\<forall>(v, k) \<in> set (view_min_k s n). view_get_value s k = Some v) \<and>
    (\<forall>(v, k) \<in> set (view_min_k s n). \<forall>v' k'. view_get_value s k' = Some v' \<longrightarrow>
       (v', k') \<notin> set (view_min_k s n) \<longrightarrow> v \<le> v')"
proof -
  let ?rows = "view_rows s"
  have min_k: "view_min_k s n = take n ?rows" by (simp add: view_min_k_def view_rows_def)
  have split: "?rows = take n ?rows @ drop n ?rows" by simp
  have "sorted (map fst (take n ?rows @ drop n ?rows))" unfolding append_take_drop_id by (rule view_rows_sorted)
  then have sorted: "sorted (map fst (take n ?rows))"
    and le: "\<And>x y. x \<in> set (take n ?rows) \<Longrightarrow> y \<in> set (drop n ?rows) \<Longrightarrow> fst x \<le> fst y"
    by (auto simp: sorted_append simp del: append_take_drop_id)
  have rest: "(v', k') \<in> set (drop n ?rows)" if "view_get_value s k' = Some v'" "(v', k') \<notin> set (take n ?rows)" for v' k'
  proof -
    have "(v', k') \<in> set (take n ?rows) \<union> set (drop n ?rows)"
      unfolding set_append[symmetric] append_take_drop_id using that(1) by (simp add: set_view_rows[OF assms])
    then show ?thesis using that(2) by blast
  qed
  have rows: "view_get_value s k = Some v" if "(v, k) \<in> set (take n ?rows)" for v k
    using in_set_takeD[OF that] by (simp add: set_view_rows[OF assms])
  show ?thesis unfolding min_k
    using sorted rows le rest view_rows_distinct[of s] length_view_rows[OF assms]
    by (auto simp: min.commute) (metis fst_conv)
qed

theorem view_min_k_lowest_witness:
  "view_inv example_view \<and> length (view_min_k example_view 3) = min 3 (view_len example_view) \<and>
   sorted (map fst (view_min_k example_view 3)) \<and> distinct (view_min_k example_view 3)"
  using example_view_inv view_min_k_lowest[OF example_view_inv, of 3] by blast

end
