(* ===== verification/Composite_View.thy ===== *)
theory Composite_View
  imports Containers
begin

text \<open>
  The composite view of the database layer (\<^verbatim>\<open>src/src/db/composite_view.rs\<close>): rows
  under pairs of keys, with an index for each component of the key and, per first
  component, the rows ordered by value. The invariant is that all three indexes mirror the
  row map; then no query panics and every query is exact.
\<close>

section \<open>State and operations\<close>

record (overloaded) ('k, 'v) composite_view =
  cv_key_to_value :: "('k \<times> 'k, 'v) hashmap"
  cv_key_s_index :: "('k, 'k hashset) hashmap"
  cv_key_u_index :: "('k, 'k hashset) hashmap"
  cv_value_index :: "('k, ('v \<times> 'k) btree_set) hashmap"

definition cv_new :: "('k::linorder, 'v::linorder) composite_view" where
  "cv_new = \<lparr>cv_key_to_value = hm_new, cv_key_s_index = hm_new, cv_key_u_index = hm_new,
             cv_value_index = hm_new\<rparr>"

definition cv_default :: "('k::linorder, 'v::linorder) composite_view" where
  "cv_default = cv_new"

text \<open>The fields that the debug output shows.\<close>

definition cv_debug :: "('k::linorder, 'v::linorder) composite_view \<Rightarrow> (string \<times> nat) list" where
  "cv_debug self = [(''key_to_value'', hm_len (cv_key_to_value self)), (''key_s_index length'', hm_len (cv_key_s_index self)),
     (''key_u_index length'', hm_len (cv_key_u_index self)), (''value_to_keys length'', hm_len (cv_value_index self))]"

definition cv_insert ::
  "('k::linorder, 'v::linorder) composite_view \<Rightarrow> 'k \<times> 'k \<Rightarrow> 'v \<Rightarrow> ('k, 'v) composite_view" where
  "cv_insert self composite_key value =
     (if hm_contains_key (cv_key_to_value self) composite_key then self
      else
        (let (key_s, key_u) = composite_key
         in \<lparr>cv_key_to_value = hm_insert (cv_key_to_value self) composite_key value,
             cv_key_s_index = hh_add (cv_key_s_index self) key_s key_u,
             cv_key_u_index = hh_add (cv_key_u_index self) key_u key_s,
             cv_value_index = hb_add (cv_value_index self) key_s (value, key_u)\<rparr>))"

definition cv_insert_values ::
  "('k::linorder, 'v::linorder) composite_view \<Rightarrow> (('k \<times> 'k) \<times> 'v) list \<Rightarrow> ('k, 'v) composite_view" where
  "cv_insert_values self values = fold (\<lambda>(k, v) s. cv_insert s k v) values self"

definition cv_len :: "('k, 'v) composite_view \<Rightarrow> nat" where
  "cv_len self = hm_len (cv_key_to_value self)"

definition cv_is_empty :: "('k, 'v) composite_view \<Rightarrow> bool" where
  "cv_is_empty self = hm_is_empty (cv_key_to_value self)"

text \<open>The rows that \<open>export_sorted_view\<close> writes.\<close>

definition cv_sorted_entries :: "('k::linorder, 'v) composite_view \<Rightarrow> ('k \<times> 'k \<times> 'v) list" where
  "cv_sorted_entries self =
     sort_key (\<lambda>(k1, k2, _). (k1, k2)) (map (\<lambda>((k1, k2), v). (k1, k2, v)) (hm_iter (cv_key_to_value self)))"

definition cv_remove ::
  "('k::linorder, 'v::linorder) composite_view \<Rightarrow> 'k \<Rightarrow> 'k \<Rightarrow> ('k, 'v) composite_view \<times> bool" where
  "cv_remove self key_s key_u =
     (case hm_get (cv_key_to_value self) (key_s, key_u) of
        Some value \<Rightarrow>
          (\<lparr>cv_key_to_value = hm_remove (cv_key_to_value self) (key_s, key_u),
            cv_key_s_index = hh_del (cv_key_s_index self) key_s key_u,
            cv_key_u_index = hh_del (cv_key_u_index self) key_u key_s,
            cv_value_index = hb_del (cv_value_index self) key_s (value, key_u)\<rparr>, True)
      | None \<Rightarrow> (self, False))"

text \<open>The loop of the two removals by one component; it counts the rows it removed.\<close>

definition cv_remove_each ::
  "('k \<times> 'k) list \<Rightarrow> ('k::linorder, 'v::linorder) composite_view \<times> nat \<Rightarrow> ('k, 'v) composite_view \<times> nat" where
  "cv_remove_each = fold (\<lambda>(key_s, key_u) (self, count).
     case cv_remove self key_s key_u of (self', removed) \<Rightarrow> (self', if removed then count + 1 else count))"

definition cv_remove_by_key_s ::
  "('k::linorder, 'v::linorder) composite_view \<Rightarrow> 'k \<Rightarrow> ('k, 'v) composite_view \<times> nat" where
  "cv_remove_by_key_s self key_s =
     (case hm_get (cv_key_s_index self) key_s of
        Some u_set \<Rightarrow> cv_remove_each (map (\<lambda>key_u. (key_s, key_u)) (hs_iter u_set)) (self, 0)
      | None \<Rightarrow> (self, 0))"

definition cv_remove_by_key_u ::
  "('k::linorder, 'v::linorder) composite_view \<Rightarrow> 'k \<Rightarrow> ('k, 'v) composite_view \<times> nat" where
  "cv_remove_by_key_u self key_u =
     (case hm_get (cv_key_u_index self) key_u of
        Some s_set \<Rightarrow> cv_remove_each (map (\<lambda>key_s. (key_s, key_u)) (hs_iter s_set)) (self, 0)
      | None \<Rightarrow> (self, 0))"

definition cv_get_value :: "('k, 'v) composite_view \<Rightarrow> 'k \<Rightarrow> 'k \<Rightarrow> 'v option" where
  "cv_get_value self key_s key_u = hm_get (cv_key_to_value self) (key_s, key_u)"

definition cv_get_keys_b :: "('k, 'v) composite_view \<Rightarrow> 'k \<Rightarrow> 'k hashset option" where
  "cv_get_keys_b self key_s = hm_get (cv_key_s_index self) key_s"

definition cv_get_keys_a :: "('k, 'v) composite_view \<Rightarrow> 'k \<Rightarrow> 'k hashset option" where
  "cv_get_keys_a self key_u = hm_get (cv_key_u_index self) key_u"

definition cv_get_by_key_s ::
  "('k::linorder, 'v::linorder) composite_view \<Rightarrow> 'k \<Rightarrow> (('k \<times> 'k) \<times> 'v) list option" where
  "cv_get_by_key_s self key_s =
     map_option (\<lambda>btree. map (\<lambda>(value, key_u). ((key_s, key_u), value)) (bs_iter btree))
       (hm_get (cv_value_index self) key_s)"

definition cv_get_by_key_u ::
  "('k, 'v) composite_view \<Rightarrow> 'k \<Rightarrow> (('k \<times> 'k) \<times> 'v) list option exec" where
  "cv_get_by_key_u self key_u =
     (case hm_get (cv_key_u_index self) key_u of
        None \<Rightarrow> Done None
      | Some s_set \<Rightarrow>
          exec_map Some
            (exec_fold (\<lambda>key_s rows.
               exec_map (\<lambda>val. rows @ [((key_s, key_u), val)])
                 (expect ''missing value in composite view'' (hm_get (cv_key_to_value self) (key_s, key_u))))
             (hs_iter s_set) []))"

definition cv_query_a :: "('k, 'v) composite_view \<Rightarrow> 'k \<Rightarrow> ('k \<times> 'v) list option" where
  "cv_query_a self key_s =
     map_option (\<lambda>key_us. List.map_filter (\<lambda>key_u.
         map_option (\<lambda>v. (key_u, v)) (hm_get (cv_key_to_value self) (key_s, key_u))) (hs_iter key_us))
       (hm_get (cv_key_s_index self) key_s)"

definition cv_query_b :: "('k, 'v) composite_view \<Rightarrow> 'k \<Rightarrow> ('k \<times> 'v) list option" where
  "cv_query_b self key_u =
     map_option (\<lambda>key_ss. List.map_filter (\<lambda>key_s.
         map_option (\<lambda>v. (key_s, v)) (hm_get (cv_key_to_value self) (key_s, key_u))) (hs_iter key_ss))
       (hm_get (cv_key_u_index self) key_u)"

definition cv_min_k ::
  "('k::linorder, 'v::linorder) composite_view \<Rightarrow> 'k \<Rightarrow> nat \<Rightarrow> ('v \<times> 'k) list option" where
  "cv_min_k self key_s k =
     map_option (\<lambda>btree. take k (bs_iter btree)) (hm_get (cv_value_index self) key_s)"

text \<open>\<open>tuple_vec_map\<close>: the row map is serialized as a list of pairs and collected again.\<close>

definition tuple_vec_serialize :: "('k \<times> 'k, 'v) hashmap \<Rightarrow> (('k \<times> 'k) \<times> 'v) list" where
  "tuple_vec_serialize m = hm_iter m"

definition tuple_vec_deserialize :: "(('k \<times> 'k) \<times> 'v) list \<Rightarrow> ('k \<times> 'k, 'v) hashmap" where
  "tuple_vec_deserialize vec = hm_collect vec"


section \<open>The invariant\<close>

definition cv_inv :: "('k::linorder, 'v::linorder) composite_view \<Rightarrow> bool" where
  "cv_inv c \<longleftrightarrow>
     hh.mirrors (cv_key_s_index c) (\<lambda>s u. cv_get_value c s u \<noteq> None) \<and>
     hh.mirrors (cv_key_u_index c) (\<lambda>u s. cv_get_value c s u \<noteq> None) \<and>
     hb.mirrors (cv_value_index c) (\<lambda>s (v, u). cv_get_value c s u = Some v)"

lemma cv_inv_new: "cv_inv cv_new"
  unfolding cv_inv_def cv_new_def cv_get_value_def
  by (intro conjI hh.mirrorsI hb.mirrorsI) (simp_all split: prod.splits)

lemma cv_get_value_insert:
  "cv_get_value (cv_insert c (s, u) v) s' u' =
   (if (s', u') = (s, u) \<and> cv_get_value c s u = None then Some v else cv_get_value c s' u')"
  by (auto simp: cv_insert_def cv_get_value_def)

lemma cv_inv_insert:
  assumes "cv_inv c"
  shows "cv_inv (cv_insert c (s, u) v)"
proof (cases "cv_get_value c s u")
  case None
  let ?c = "cv_insert c (s, u) v"
  have idx: "cv_key_s_index ?c = hh_add (cv_key_s_index c) s u"
    "cv_key_u_index ?c = hh_add (cv_key_u_index c) u s"
    "cv_value_index ?c = hb_add (cv_value_index c) s (v, u)"
    using None by (simp_all add: cv_insert_def cv_get_value_def)
  note mir = assms[unfolded cv_inv_def]
  show ?thesis unfolding cv_inv_def idx cv_get_value_insert
  proof (intro conjI)
    show "hh.mirrors (hh_add (cv_key_s_index c) s u) (\<lambda>s' u'.
        (if (s', u') = (s, u) \<and> cv_get_value c s u = None then Some v else cv_get_value c s' u') \<noteq> None)"
      by (rule hh.mirrors_cong[OF hh.mirrors_add[OF mir[THEN conjunct1]]]) (auto simp: None)
    show "hh.mirrors (hh_add (cv_key_u_index c) u s) (\<lambda>u' s'.
        (if (s', u') = (s, u) \<and> cv_get_value c s u = None then Some v else cv_get_value c s' u') \<noteq> None)"
      by (rule hh.mirrors_cong[OF hh.mirrors_add[OF mir[THEN conjunct2, THEN conjunct1]]]) (auto simp: None)
    show "hb.mirrors (hb_add (cv_value_index c) s (v, u)) (\<lambda>s' (v', u').
        (if (s', u') = (s, u) \<and> cv_get_value c s u = None then Some v else cv_get_value c s' u') = Some v')"
      by (rule hb.mirrors_cong[OF hb.mirrors_add[OF mir[THEN conjunct2, THEN conjunct2]]]) (auto simp: None)
  qed
next
  case (Some old)
  then show ?thesis using assms by (simp add: cv_insert_def cv_get_value_def)
qed

lemma cv_get_value_remove:
  "cv_get_value (fst (cv_remove c s u)) s' u' = (if (s', u') = (s, u) then None else cv_get_value c s' u')"
  by (auto simp: cv_remove_def cv_get_value_def split: option.splits)

lemma cv_remove_reports: "snd (cv_remove c s u) \<longleftrightarrow> cv_get_value c s u \<noteq> None"
  by (simp add: cv_remove_def cv_get_value_def split: option.splits)

lemma cv_inv_remove:
  assumes "cv_inv c"
  shows "cv_inv (fst (cv_remove c s u))"
proof (cases "cv_get_value c s u")
  case None
  then show ?thesis using assms by (simp add: cv_remove_def cv_get_value_def)
next
  case (Some v)
  let ?c = "fst (cv_remove c s u)"
  have idx: "cv_key_s_index ?c = hh_del (cv_key_s_index c) s u"
    "cv_key_u_index ?c = hh_del (cv_key_u_index c) u s"
    "cv_value_index ?c = hb_del (cv_value_index c) s (v, u)"
    using Some by (simp_all add: cv_remove_def cv_get_value_def)
  note mir = assms[unfolded cv_inv_def]
  show ?thesis unfolding cv_inv_def idx cv_get_value_remove
  proof (intro conjI)
    show "hh.mirrors (hh_del (cv_key_s_index c) s u) (\<lambda>s' u'.
        (if (s', u') = (s, u) then None else cv_get_value c s' u') \<noteq> None)"
      by (rule hh.mirrors_cong[OF hh.mirrors_del[OF mir[THEN conjunct1]]]) auto
    show "hh.mirrors (hh_del (cv_key_u_index c) u s) (\<lambda>u' s'.
        (if (s', u') = (s, u) then None else cv_get_value c s' u') \<noteq> None)"
      by (rule hh.mirrors_cong[OF hh.mirrors_del[OF mir[THEN conjunct2, THEN conjunct1]]]) auto
    show "hb.mirrors (hb_del (cv_value_index c) s (v, u)) (\<lambda>s' (v', u').
        (if (s', u') = (s, u) then None else cv_get_value c s' u') = Some v')"
      by (rule hb.mirrors_cong[OF hb.mirrors_del[OF mir[THEN conjunct2, THEN conjunct2]]]) (auto simp: Some)
  qed
qed

lemma cv_remove_each_spec:
  assumes "cv_inv c" "distinct ps"
  shows "cv_inv (fst (cv_remove_each ps (c, n))) \<and>
    (\<forall>s u. cv_get_value (fst (cv_remove_each ps (c, n))) s u =
       (if (s, u) \<in> set ps then None else cv_get_value c s u)) \<and>
    snd (cv_remove_each ps (c, n)) = n + card {(s, u) \<in> set ps. cv_get_value c s u \<noteq> None}"
  using assms
proof (induction ps arbitrary: c n)
  case (Cons p ps)
  obtain s u where p: "p = (s, u)" by (cases p)
  let ?c = "fst (cv_remove c s u)" and ?n = "if snd (cv_remove c s u) then n + 1 else n"
  have step: "cv_remove_each (p # ps) (c, n) = cv_remove_each ps (?c, ?n)"
    by (simp add: cv_remove_each_def p split_beta)
  have notin: "(s, u) \<notin> set ps" using Cons.prems(2) p by simp
  have "{(s', u') \<in> set (p # ps). cv_get_value c s' u' \<noteq> None} =
      (if cv_get_value c s u \<noteq> None then insert (s, u) else id) {(s', u') \<in> set ps. cv_get_value c s' u' \<noteq> None}"
    by (auto simp: p)
  moreover have "finite {(s', u') \<in> set ps. cv_get_value c s' u' \<noteq> None}"
    by (rule finite_subset[of _ "set ps"]) auto
  ultimately have count: "card {(s', u') \<in> set (p # ps). cv_get_value c s' u' \<noteq> None} =
      (if cv_get_value c s u \<noteq> None then 1 else 0) + card {(s', u') \<in> set ps. cv_get_value c s' u' \<noteq> None}"
    using notin by (simp add: card_insert_if del: not_None_eq)
  have same: "{(s', u') \<in> set ps. cv_get_value ?c s' u' \<noteq> None} = {(s', u') \<in> set ps. cv_get_value c s' u' \<noteq> None}"
    using notin by (auto simp: cv_get_value_remove)
  show ?case
    using Cons.IH[OF cv_inv_remove[OF Cons.prems(1)], of s u ?n] Cons.prems(2) notin
    unfolding step count same by (auto simp: cv_get_value_remove cv_remove_reports p)
qed (simp add: cv_remove_each_def)

section \<open>Queries over the indexes\<close>

lemma cv_rows_by_key_s:
  assumes "cv_inv c" "hm_get (cv_value_index c) s = Some t"
  shows "bs_contains t (v, u) \<longleftrightarrow> cv_get_value c s u = Some v"
  using hb.mirrorsD(2)[OF assms(1)[unfolded cv_inv_def, THEN conjunct2, THEN conjunct2] assms(2), of "(v, u)"]
  by simp

lemma cv_index_None:
  assumes "cv_inv c"
  shows "hm_get (cv_key_s_index c) s = None \<longleftrightarrow> (\<forall>u. cv_get_value c s u = None)"
    and "hm_get (cv_key_u_index c) u = None \<longleftrightarrow> (\<forall>s. cv_get_value c s u = None)"
    and "hm_get (cv_value_index c) s = None \<longleftrightarrow> (\<forall>u. cv_get_value c s u = None)"
proof -
  note mir = assms[unfolded cv_inv_def]
  show "hm_get (cv_key_s_index c) s = None \<longleftrightarrow> (\<forall>u. cv_get_value c s u = None)"
    using hh.mirrorsD(1)[OF mir[THEN conjunct1], of s] by simp
  show "hm_get (cv_key_u_index c) u = None \<longleftrightarrow> (\<forall>s. cv_get_value c s u = None)"
    using hh.mirrorsD(1)[OF mir[THEN conjunct2, THEN conjunct1], of u] by simp
  show "hm_get (cv_value_index c) s = None \<longleftrightarrow> (\<forall>u. cv_get_value c s u = None)"
    using hb.mirrorsD(1)[OF mir[THEN conjunct2, THEN conjunct2], of s] by simp (metis not_None_eq)
qed

lemma cv_index_contains:
  assumes "cv_inv c"
  shows "hm_get (cv_key_s_index c) s = Some us \<Longrightarrow> hs_contains us u \<longleftrightarrow> cv_get_value c s u \<noteq> None"
    and "hm_get (cv_key_u_index c) u = Some ss \<Longrightarrow> hs_contains ss s \<longleftrightarrow> cv_get_value c s u \<noteq> None"
proof -
  note mir = assms[unfolded cv_inv_def]
  show "hs_contains us u \<longleftrightarrow> cv_get_value c s u \<noteq> None" if "hm_get (cv_key_s_index c) s = Some us"
    using hh.mirrorsD(2)[OF mir[THEN conjunct1] that, of u] by simp
  show "hs_contains ss s \<longleftrightarrow> cv_get_value c s u \<noteq> None" if "hm_get (cv_key_u_index c) u = Some ss"
    using hh.mirrorsD(2)[OF mir[THEN conjunct2, THEN conjunct1] that, of s] by simp
qed

lemma get_by_key_u_loop:
  assumes "\<forall>s \<in> set ss. cv_get_value c s u \<noteq> None"
  shows "exec_fold (\<lambda>key_s rows. exec_map (\<lambda>val. rows @ [((key_s, u), val)])
      (expect ''missing value in composite view'' (hm_get (cv_key_to_value c) (key_s, u)))) ss acc =
    Done (acc @ map (\<lambda>s. ((s, u), the (cv_get_value c s u))) ss)"
  using assms by (induction ss arbitrary: acc) (auto simp: cv_get_value_def)

text \<open>Only the rows with the given component are left out by a removal by component.\<close>

lemma cv_remove_by_key_s_spec:
  assumes "cv_inv c"
  shows "cv_inv (fst (cv_remove_by_key_s c s)) \<and>
    (\<forall>s' u. cv_get_value (fst (cv_remove_by_key_s c s)) s' u = (if s' = s then None else cv_get_value c s' u)) \<and>
    snd (cv_remove_by_key_s c s) = card {u. cv_get_value c s u \<noteq> None}"
proof (cases "hm_get (cv_key_s_index c) s")
  case None
  then show ?thesis using assms cv_index_None(1)[OF assms, of s] by (simp add: cv_remove_by_key_s_def)
next
  case (Some us)
  let ?ps = "map (\<lambda>u. (s, u)) (hs_iter us)"
  have mem: "hs_contains us u \<longleftrightarrow> cv_get_value c s u \<noteq> None" for u
    by (rule cv_index_contains(1)[OF assms Some])
  have "distinct ?ps" by (simp add: distinct_map inj_on_def)
  from cv_remove_each_spec[OF assms this, of 0]
  have *: "cv_inv (fst (cv_remove_by_key_s c s))"
    "\<And>s' u. cv_get_value (fst (cv_remove_by_key_s c s)) s' u = (if (s', u) \<in> set ?ps then None else cv_get_value c s' u)"
    "snd (cv_remove_by_key_s c s) = card {(s', u) \<in> set ?ps. cv_get_value c s' u \<noteq> None}"
    by (simp_all add: cv_remove_by_key_s_def Some)
  have "{(s', u) \<in> set ?ps. cv_get_value c s' u \<noteq> None} = Pair s ` {u. cv_get_value c s u \<noteq> None}"
    using mem by auto
  then have "snd (cv_remove_by_key_s c s) = card {u. cv_get_value c s u \<noteq> None}"
    by (simp only: *(3)) (simp add: card_image inj_on_def)
  then show ?thesis using *(1,2) mem by auto
qed

lemma cv_remove_by_key_u_spec:
  assumes "cv_inv c"
  shows "cv_inv (fst (cv_remove_by_key_u c u)) \<and>
    (\<forall>s u'. cv_get_value (fst (cv_remove_by_key_u c u)) s u' = (if u' = u then None else cv_get_value c s u')) \<and>
    snd (cv_remove_by_key_u c u) = card {s. cv_get_value c s u \<noteq> None}"
proof (cases "hm_get (cv_key_u_index c) u")
  case None
  then show ?thesis using assms cv_index_None(2)[OF assms, of u] by (simp add: cv_remove_by_key_u_def)
next
  case (Some ss)
  let ?ps = "map (\<lambda>s. (s, u)) (hs_iter ss)"
  have mem: "hs_contains ss s \<longleftrightarrow> cv_get_value c s u \<noteq> None" for s
    by (rule cv_index_contains(2)[OF assms Some])
  have "distinct ?ps" by (simp add: distinct_map inj_on_def)
  from cv_remove_each_spec[OF assms this, of 0]
  have *: "cv_inv (fst (cv_remove_by_key_u c u))"
    "\<And>s u'. cv_get_value (fst (cv_remove_by_key_u c u)) s u' = (if (s, u') \<in> set ?ps then None else cv_get_value c s u')"
    "snd (cv_remove_by_key_u c u) = card {(s, u') \<in> set ?ps. cv_get_value c s u' \<noteq> None}"
    by (simp_all add: cv_remove_by_key_u_def Some)
  have "{(s, u') \<in> set ?ps. cv_get_value c s u' \<noteq> None} = (\<lambda>s. (s, u)) ` {s. cv_get_value c s u \<noteq> None}"
    using mem by auto
  then have "snd (cv_remove_by_key_u c u) = card {s. cv_get_value c s u \<noteq> None}"
    by (simp only: *(3)) (simp add: card_image inj_on_def)
  then show ?thesis using *(1,2) mem by auto
qed


section \<open>Properties\<close>

definition example_composite :: "(nat, nat) composite_view" where
  "example_composite = cv_insert_values cv_new [((1, 5), 30), ((1, 6), 10), ((2, 5), 20), ((1, 5), 99)]"

lemma example_composite_inv: "cv_inv example_composite"
  by (simp add: example_composite_def cv_insert_values_def cv_inv_insert cv_inv_new)



text \<open>
  The queries of a composite view are exact and never panic. By first component the rows
  come in ascending order of their values (and of the second component among equal values), by
  second component in the order of the set, each row once; \<open>min_k\<close> is the beginning of the
  ordered list; a component without rows has no answer.
\<close>

theorem composite_queries_exact:
  assumes "cv_inv c"
  shows "(case cv_get_by_key_s c s of
       None \<Rightarrow> (\<forall>u. cv_get_value c s u = None) \<and> cv_min_k c s n = None
     | Some rows \<Rightarrow> sorted (map (\<lambda>((_, u), v). (v, u)) rows) \<and> distinct rows \<and>
         set rows = {((s', u), v). s' = s \<and> cv_get_value c s u = Some v} \<and>
         cv_min_k c s n = Some (take n (map (\<lambda>((_, u), v). (v, u)) rows))) \<and>
    (\<exists>answer. cv_get_by_key_u c u = Done answer \<and>
      (case answer of
         None \<Rightarrow> \<forall>s. cv_get_value c s u = None
       | Some rows \<Rightarrow> distinct rows \<and> set rows = {((s, u'), v). u' = u \<and> cv_get_value c s u = Some v}))"
proof
  show "case cv_get_by_key_s c s of
       None \<Rightarrow> (\<forall>u. cv_get_value c s u = None) \<and> cv_min_k c s n = None
     | Some rows \<Rightarrow> sorted (map (\<lambda>((_, u), v). (v, u)) rows) \<and> distinct rows \<and>
         set rows = {((s', u), v). s' = s \<and> cv_get_value c s u = Some v} \<and>
         cv_min_k c s n = Some (take n (map (\<lambda>((_, u), v). (v, u)) rows))"
  proof (cases "hm_get (cv_value_index c) s")
    case None
    then show ?thesis using cv_index_None(3)[OF assms, of s] by (simp add: cv_get_by_key_s_def cv_min_k_def)
  next
    case (Some t)
    let ?rows = "map (\<lambda>(v, u). ((s, u), v)) (bs_iter t)"
    have unrow: "map (\<lambda>((_, u), v). (v, u)) ?rows = bs_iter t" by (simp add: comp_def split_beta)
    have "set ?rows = {((s', u), v). s' = s \<and> cv_get_value c s u = Some v}"
      using cv_rows_by_key_s[OF assms Some] by (auto simp: image_iff)
    moreover have "distinct ?rows"
      by (auto simp: distinct_map distinct_bs_iter inj_on_def)
    moreover have "sorted (map (\<lambda>((_, u), v). (v, u)) ?rows)" unfolding unrow by (rule sorted_bs_iter)
    moreover have "cv_min_k c s n = Some (take n (map (\<lambda>((_, u), v). (v, u)) ?rows))"
      unfolding unrow by (simp add: cv_min_k_def Some)
    moreover have "cv_get_by_key_s c s = Some ?rows" by (simp add: cv_get_by_key_s_def Some)
    ultimately show ?thesis by simp
  qed
  show "\<exists>answer. cv_get_by_key_u c u = Done answer \<and>
      (case answer of
         None \<Rightarrow> \<forall>s. cv_get_value c s u = None
       | Some rows \<Rightarrow> distinct rows \<and> set rows = {((s, u'), v). u' = u \<and> cv_get_value c s u = Some v})"
  proof (cases "hm_get (cv_key_u_index c) u")
    case None
    then show ?thesis using cv_index_None(2)[OF assms, of u] by (simp add: cv_get_by_key_u_def)
  next
    case (Some ss)
    have mem: "hs_contains ss s \<longleftrightarrow> cv_get_value c s u \<noteq> None" for s
      by (rule cv_index_contains(2)[OF assms Some])
    let ?rows = "map (\<lambda>s. ((s, u), the (cv_get_value c s u))) (hs_iter ss)"
    have "cv_get_by_key_u c u = Done (Some ?rows)"
      using get_by_key_u_loop[of "hs_iter ss" c u "[]"] mem by (simp add: cv_get_by_key_u_def Some)
    moreover have "distinct ?rows" by (simp add: distinct_map inj_on_def)
    moreover have "set ?rows = {((s, u'), v). u' = u \<and> cv_get_value c s u = Some v}"
      using mem by (force simp: image_iff)
    ultimately show ?thesis by simp
  qed
qed

theorem composite_queries_exact_witness:
  "cv_inv example_composite \<and>
   (\<exists>answer. cv_get_by_key_u example_composite 5 = Done answer \<and>
      (case answer of
         None \<Rightarrow> \<forall>s. cv_get_value example_composite s 5 = None
       | Some rows \<Rightarrow> distinct rows \<and>
           set rows = {((s, u'), v). u' = 5 \<and> cv_get_value example_composite s 5 = Some v}))"
  using example_composite_inv composite_queries_exact[OF example_composite_inv] by blast

text \<open>
  Reading back the list of pairs a row map was serialized to gives an equal map.
\<close>

theorem tuple_vec_round_trip: "hm_eq (tuple_vec_deserialize (tuple_vec_serialize m)) m"
  by (simp add: hm_eq_iff fun_eq_iff tuple_vec_deserialize_def tuple_vec_serialize_def hm_get_iter[symmetric])

end
