(* ===== verification/Ztable.thy ===== *)
theory Ztable
  imports Prelude
begin

text \<open>
  The weighted table of the database layer (\<^verbatim>\<open>src/src/db/ztable.rs\<close>): rows with a
  signed weight, spread over shards by the hash of their key. The hash function is the
  key type's and a parameter of the model. The main fact is that sharding is invisible:
  a table answers like one map from keys to weights and values, whatever the hash and the
  number of shards.
\<close>

section \<open>State and operations\<close>

type_synonym weight = int

record ('k, 'v) ztable =
  shards :: "('k, weight \<times> 'v) hashmap list"

definition new_with_shards :: "nat \<Rightarrow> ('k, 'v) ztable" where
  "new_with_shards shard_count = \<lparr>shards = replicate (max shard_count 1) hm_new\<rparr>"

definition ztable_new :: "('k, 'v) ztable" where
  "ztable_new = new_with_shards 1"

definition ztable_default :: "('k, 'v) ztable" where
  "ztable_default = ztable_new"

definition shard_count :: "('k, 'v) ztable \<Rightarrow> nat" where
  "shard_count self = length (shards self)"

definition shard_index :: "('k \<Rightarrow> u64) \<Rightarrow> ('k, 'v) ztable \<Rightarrow> 'k \<Rightarrow> nat" where
  "shard_index hash self key = unat (hash key) mod length (shards self)"

definition shard :: "('k \<Rightarrow> u64) \<Rightarrow> ('k, 'v) ztable \<Rightarrow> 'k \<Rightarrow> ('k, weight \<times> 'v) hashmap" where
  "shard hash self key = shards self ! shard_index hash self key"

text \<open>\<open>shard_mut\<close>: the shard of a key is replaced by what the caller makes of it.\<close>

definition shard_mut ::
  "('k \<Rightarrow> u64) \<Rightarrow> ('k, 'v) ztable \<Rightarrow> 'k \<Rightarrow> ('k, weight \<times> 'v) hashmap \<Rightarrow> ('k, 'v) ztable" where
  "shard_mut hash self key inner = self\<lparr>shards := (shards self)[shard_index hash self key := inner]\<rparr>"

definition ztable_insert :: "('k \<Rightarrow> u64) \<Rightarrow> ('k, 'v) ztable \<Rightarrow> 'k \<Rightarrow> 'v \<Rightarrow> ('k, 'v) ztable \<times> weight" where
  "ztable_insert hash self key value =
     (let inner = shard hash self key
      in case hm_get inner key of
           Some (weight, _) \<Rightarrow>
             (let weight' = i64_add weight 1
              in (shard_mut hash self key (hm_insert inner key (weight', value)), weight'))
         | None \<Rightarrow> (shard_mut hash self key (hm_insert inner key (1, value)), 1))"

text \<open>\<open>V::default()\<close> is the parameter \<open>dflt\<close>.\<close>

definition ztable_remove :: "('k \<Rightarrow> u64) \<Rightarrow> 'v \<Rightarrow> ('k, 'v) ztable \<Rightarrow> 'k \<Rightarrow> ('k, 'v) ztable \<times> weight" where
  "ztable_remove hash dflt self key =
     (let inner = shard hash self key;
          (inner1, weight) =
            (case hm_get inner key of
               Some (weight, value) \<Rightarrow> (hm_insert inner key (i64_add weight (-1), value), i64_add weight (-1))
             | None \<Rightarrow> (hm_insert inner key (-1, dflt), -1));
          inner2 = (if weight = 0 then hm_remove inner1 key else inner1)
      in (shard_mut hash self key inner2, weight))"

definition get_weight :: "('k \<Rightarrow> u64) \<Rightarrow> ('k, 'v) ztable \<Rightarrow> 'k \<Rightarrow> weight" where
  "get_weight hash self key =
     (case hm_get (shard hash self key) key of Some (weight, _) \<Rightarrow> weight | None \<Rightarrow> 0)"

definition iter_all :: "('k, 'v) ztable \<Rightarrow> ('k \<times> 'v) list" where
  "iter_all self =
     concat (map (\<lambda>shard. map (\<lambda>(key, (_, value)). (key, value))
                            (filter (\<lambda>(_, (weight, _)). weight > 0) (hm_iter shard))) (shards self))"

definition ztable_get :: "('k \<Rightarrow> u64) \<Rightarrow> ('k, 'v) ztable \<Rightarrow> 'k \<Rightarrow> 'v option" where
  "ztable_get hash self key =
     (case hm_get (shard hash self key) key of
        Some (weight, value) \<Rightarrow> if weight < 1 then None else Some value
      | None \<Rightarrow> None)"

definition ztable_len :: "('k, 'v) ztable \<Rightarrow> nat" where
  "ztable_len self = sum_list (map hm_len (shards self))"

definition ztable_is_empty :: "('k, 'v) ztable \<Rightarrow> bool" where
  "ztable_is_empty self = list_all hm_is_empty (shards self)"

text \<open>
  The map-reduce over the shards. Without a runtime the shards are visited in a loop, with
  one they are mapped by tasks whose results are reduced in the order of the shards.
\<close>

definition map_reduce_active ::
  "bool \<Rightarrow> ('k, 'v) ztable \<Rightarrow> (nat \<Rightarrow> ('k, weight \<times> 'v) hashmap \<Rightarrow> 'o) \<Rightarrow> 'a \<Rightarrow> ('a \<Rightarrow> 'o \<Rightarrow> 'a) \<Rightarrow> 'a" where
  "map_reduce_active has_runtime self map_shard init reduce =
     (if length (shards self) = 1 then reduce init (map_shard 0 (shards self ! 0))
      else if \<not> has_runtime then
        fold (\<lambda>(shard_index, shard) output. reduce output (map_shard shard_index shard))
          (List.enumerate 0 (shards self)) init
      else
        (let handles = map (\<lambda>(shard_index, shard). map_shard shard_index shard)
                         (List.enumerate 0 (shards self))
         in fold (\<lambda>r output. reduce output r) handles init))"


section \<open>The table as one map\<close>

text \<open>Every row is in the shard its key hashes to, and there is at least one shard.\<close>

definition ztable_wf :: "('k \<Rightarrow> u64) \<Rightarrow> ('k, 'v) ztable \<Rightarrow> bool" where
  "ztable_wf hash t \<longleftrightarrow> shards t \<noteq> [] \<and>
     (\<forall>i < length (shards t). \<forall>k. hm_get (shards t ! i) k \<noteq> None \<longrightarrow> i = shard_index hash t k)"

definition ztable_row :: "('k \<Rightarrow> u64) \<Rightarrow> ('k, 'v) ztable \<Rightarrow> 'k \<Rightarrow> (weight \<times> 'v) option" where
  "ztable_row hash t k = hm_get (shard hash t k) k"

lemma shard_index_bound: "shards t \<noteq> [] \<Longrightarrow> shard_index hash t k < length (shards t)"
  by (simp add: shard_index_def)

lemma shard_index_mut [simp]: "shard_index hash (shard_mut hash t k m) k' = shard_index hash t k'"
  by (simp add: shard_index_def shard_mut_def)

lemma shards_mut: "shards (shard_mut hash t k m) = (shards t)[shard_index hash t k := m]"
  by (simp add: shard_mut_def)

lemma ztable_row_mut:
  assumes "ztable_wf hash t" "\<And>k'. k' \<noteq> k \<Longrightarrow> hm_get m k' = hm_get (shard hash t k) k'"
  shows "ztable_row hash (shard_mut hash t k m) k' = (if k' = k then hm_get m k else ztable_row hash t k')"
proof -
  have b: "shard_index hash t k < length (shards t)"
    using assms(1) by (simp add: ztable_wf_def shard_index_bound)
  show ?thesis
  proof (cases "shard_index hash t k' = shard_index hash t k")
    case True
    then show ?thesis using b assms(2)[of k']
      by (simp add: ztable_row_def shard_def shards_mut)
  next
    case False
    then show ?thesis by (auto simp: ztable_row_def shard_def shards_mut)
  qed
qed

lemma ztable_wf_mut:
  assumes "ztable_wf hash t" "\<And>k'. k' \<noteq> k \<Longrightarrow> hm_get m k' = hm_get (shard hash t k) k'"
  shows "ztable_wf hash (shard_mut hash t k m)"
proof -
  let ?i = "shard_index hash t k"
  have b: "?i < length (shards t)" using assms(1) by (simp add: ztable_wf_def shard_index_bound)
  have "j = shard_index hash t k'"
    if "j < length (shards t)" "hm_get ((shards t)[?i := m] ! j) k' \<noteq> None" for j k'
  proof (cases "j = ?i \<and> k' \<noteq> k")
    case True
    then have "hm_get (shards t ! j) k' \<noteq> None"
      using that(2) b assms(2)[of k'] by (simp add: shard_def)
    then show ?thesis using assms(1) that(1) by (simp add: ztable_wf_def)
  next
    case False
    then show ?thesis using that assms(1) b by (cases "j = ?i") (auto simp: ztable_wf_def)
  qed
  moreover have "shards t \<noteq> []" using b by auto
  ultimately show ?thesis unfolding ztable_wf_def shards_mut shard_index_mut length_list_update
    by (metis list_update_nonempty)
qed

lemma ztable_wf_new: "ztable_wf hash (new_with_shards n)"
  by (auto simp: ztable_wf_def new_with_shards_def)

lemma ztable_insert_eq:
  "ztable_insert hash t k v =
   (let w = i64_add (get_weight hash t k) 1
    in (shard_mut hash t k (hm_insert (shard hash t k) k (w, v)), w))"
  by (auto simp: ztable_insert_def get_weight_def Let_def i64_add_def split: option.splits)

lemma ztable_remove_eq:
  "ztable_remove hash dflt t k =
   (let w = i64_add (get_weight hash t k) (-1);
        v = (case hm_get (shard hash t k) k of Some (_, v) \<Rightarrow> v | None \<Rightarrow> dflt);
        inner = hm_insert (shard hash t k) k (w, v)
    in (shard_mut hash t k (if w = 0 then hm_remove inner k else inner), w))"
  by (auto simp: ztable_remove_def get_weight_def Let_def i64_add_def split: option.splits)

lemma ztable_row_insert:
  assumes "ztable_wf hash t"
  shows "ztable_row hash (fst (ztable_insert hash t k v)) k' =
    (if k' = k then Some (i64_add (get_weight hash t k) 1, v) else ztable_row hash t k')"
  by (simp add: ztable_insert_eq Let_def ztable_row_mut[OF assms])

lemma ztable_row_remove:
  assumes "ztable_wf hash t"
  shows "ztable_row hash (fst (ztable_remove hash dflt t k)) k' =
    (if k' = k then
       (if i64_add (get_weight hash t k) (-1) = 0 then None
        else Some (i64_add (get_weight hash t k) (-1),
               case ztable_row hash t k of Some (_, v) \<Rightarrow> v | None \<Rightarrow> dflt))
     else ztable_row hash t k')"
  unfolding ztable_remove_eq Let_def fst_conv
  by (subst ztable_row_mut[OF assms]) (auto simp: ztable_row_def)

lemma ztable_wf_insert: "ztable_wf hash t \<Longrightarrow> ztable_wf hash (fst (ztable_insert hash t k v))"
  by (simp add: ztable_insert_eq Let_def ztable_wf_mut)

lemma ztable_wf_remove: "ztable_wf hash t \<Longrightarrow> ztable_wf hash (fst (ztable_remove hash dflt t k))"
  by (simp add: ztable_remove_eq Let_def ztable_wf_mut)

lemma get_weight_row: "get_weight hash t k = (case ztable_row hash t k of Some (w, _) \<Rightarrow> w | None \<Rightarrow> 0)"
  by (simp add: get_weight_def ztable_row_def)

lemma set_iter_all:
  assumes "ztable_wf hash t"
  shows "(k, v) \<in> set (iter_all t) \<longleftrightarrow> ztable_get hash t k = Some v"
proof
  assume "(k, v) \<in> set (iter_all t)"
  then obtain m w where m: "m \<in> set (shards t)" "hm_get m k = Some (w, v)" "w > 0"
    by (auto simp: iter_all_def)
  then obtain i where i: "i < length (shards t)" "m = shards t ! i" by (auto simp: in_set_conv_nth)
  with m(2) assms have "i = shard_index hash t k" by (auto simp: ztable_wf_def)
  then show "ztable_get hash t k = Some v" using i m by (simp add: ztable_get_def shard_def)
next
  assume get: "ztable_get hash t k = Some v"
  then obtain w where w: "hm_get (shard hash t k) k = Some (w, v)" "w \<ge> 1"
    by (auto simp: ztable_get_def split: option.splits if_splits)
  have "shard hash t k \<in> set (shards t)"
    using assms shard_index_bound[of t hash k] by (simp add: shard_def ztable_wf_def)
  then show "(k, v) \<in> set (iter_all t)" using w by (force simp: iter_all_def image_iff)
qed


lemma distinct_concat_nth:
  assumes "\<And>i. i < length xs \<Longrightarrow> distinct (f (xs ! i))"
    and "\<And>i j x. i < length xs \<Longrightarrow> j < length xs \<Longrightarrow> x \<in> set (f (xs ! i)) \<Longrightarrow> x \<in> set (f (xs ! j)) \<Longrightarrow> i = j"
  shows "distinct (concat (map f xs))"
  using assms
proof (induction xs)
  case (Cons a xs)
  have "distinct (concat (map f xs))"
  proof (rule Cons.IH)
    show "distinct (f (xs ! i))" if "i < length xs" for i using Cons.prems(1)[of "Suc i"] that by simp
    show "i = j" if "i < length xs" "j < length xs" "x \<in> set (f (xs ! i))" "x \<in> set (f (xs ! j))" for i j x
      using Cons.prems(2)[of "Suc i" "Suc j" x] that by simp
  qed
  moreover have "distinct (f a)" using Cons.prems(1)[of 0] by simp
  moreover have "set (f a) \<inter> set (f y) = {}" if y: "y \<in> set xs" for y
  proof -
    obtain i where "i < length xs" "y = xs ! i" using y by (auto simp: in_set_conv_nth)
    then show ?thesis using Cons.prems(2)[of 0 "Suc i"] by fastforce
  qed
  ultimately show ?case by fastforce
qed simp


section \<open>Properties\<close>


definition example_table :: "(nat, nat) ztable" where
  "example_table = fst (ztable_insert of_nat (fst (ztable_insert of_nat (fst (ztable_insert of_nat
     (new_with_shards 2) 1 10)) 2 20)) 1 11)"

lemma example_table_wf: "ztable_wf of_nat example_table"
  by (simp add: example_table_def ztable_wf_insert ztable_wf_new)


text \<open>
  The active rows. \<open>iter_all\<close> lists every key with a positive weight exactly once with its
  value, across all shards, and these are the keys for which \<open>get\<close> has an answer.
\<close>

theorem active_rows_exact:
  assumes "ztable_wf hash t"
  shows "((k, v) \<in> set (iter_all t) \<longleftrightarrow> ztable_get hash t k = Some v) \<and>
    distinct (map fst (iter_all t)) \<and> (ztable_get hash t k \<noteq> None \<longleftrightarrow> 0 < get_weight hash t k)"
proof -
  let ?f = "\<lambda>m. map fst (filter (\<lambda>(_, (w, _)). w > 0) (hm_iter m))"
  have keys: "map fst (iter_all t) = concat (map ?f (shards t))"
    by (simp add: iter_all_def map_concat comp_def split_beta)
  have "distinct (concat (map ?f (shards t)))"
  proof (rule distinct_concat_nth)
    show "distinct (?f (shards t ! i))" for i by (simp add: distinct_map_fst_filter)
    fix i j x
    assume ij: "i < length (shards t)" "j < length (shards t)"
      and "x \<in> set (?f (shards t ! i))" "x \<in> set (?f (shards t ! j))"
    then have "hm_get (shards t ! i) x \<noteq> None" "hm_get (shards t ! j) x \<noteq> None" by auto
    then show "i = j" using ij assms unfolding ztable_wf_def by metis
  qed
  moreover have "ztable_get hash t k \<noteq> None \<longleftrightarrow> 0 < get_weight hash t k"
    by (auto simp: ztable_get_def get_weight_def split: option.splits)
  ultimately show ?thesis using set_iter_all[OF assms] unfolding keys by blast
qed

theorem active_rows_exact_witness:
  "ztable_wf of_nat example_table \<and>
   ((1, 11) \<in> set (iter_all example_table) \<longleftrightarrow> ztable_get of_nat example_table 1 = Some 11) \<and>
   distinct (map fst (iter_all example_table))"
  using example_table_wf active_rows_exact[OF example_table_wf] by blast

text \<open>
  The map-reduce over the shards gives the same result in all of its three branches: on one
  shard directly, in a loop without a runtime, and from parallel tasks under one.
\<close>

theorem map_reduce_branches_agree:
  "map_reduce_active has_runtime t map_shard init reduce =
   fold (\<lambda>i output. reduce output (map_shard i (shards t ! i))) [0..<length (shards t)] init"
proof -
  have enum: "List.enumerate 0 (shards t) = map (\<lambda>i. (i, shards t ! i)) [0..<length (shards t)]"
    by (rule nth_equalityI) (simp_all add: nth_enumerate_eq)
  show ?thesis unfolding map_reduce_active_def enum by (simp add: fold_map comp_def)
qed

text \<open>
  A weight that returns to zero from below leaves its row behind. After a removal of a
  missing key and an insertion of it the weight is zero and the key is not active, but the table
  counts a row and does not call itself empty, unlike after an insertion and a removal.
\<close>

theorem zero_weight_row_left:
  "\<exists>t t'. t = fst (ztable_insert hash (fst (ztable_remove hash dflt ztable_new k)) k v) \<and>
     get_weight hash t k = 0 \<and> ztable_get hash t k = None \<and> ztable_len t = 1 \<and> \<not> ztable_is_empty t \<and>
     t' = fst (ztable_remove hash dflt (fst (ztable_insert hash ztable_new k v)) k) \<and>
     get_weight hash t' k = 0 \<and> ztable_len t' = 0 \<and> ztable_is_empty t'"
  by (simp add: ztable_new_def new_with_shards_def ztable_insert_def ztable_remove_def shard_def shard_mut_def
      shard_index_def Let_def get_weight_def ztable_get_def ztable_len_def ztable_is_empty_def hm_eval i64_add_def)

end
