(* ===== verification/Network_Layer.thy ===== *)
theory Network_Layer
  imports Crdt Containers Descriptor
begin

text \<open>
  The replication network (\<^verbatim>\<open>src/src/network.rs\<close>). \<open>ReplicaNetwork\<close> is the side of
  the replica: the writers of the connected peers and the queue of discovered members.
  \<open>NetworkManager\<close> is the task behind that queue, which dials peers, backs off after
  failures and registers established connections. Sockets and tasks are not modelled: a
  writer is an abstract handle, a dial is an effect returned by the handler, and the outcome
  of a connection attempt is an event.
\<close>

section \<open>Members and connection candidates\<close>

record network_member =
  nmem_pid :: pid
  nmem_address :: socket_addr
  nmem_final_counter :: "counter option"

definition nmem_is_shutdown :: "network_member \<Rightarrow> bool" where
  "nmem_is_shutdown self \<longleftrightarrow> nmem_final_counter self \<noteq> None"

definition member_of_descriptor :: "replica_descriptor \<Rightarrow> network_member" where
  "member_of_descriptor d =
     \<lparr>nmem_pid = rd_pid d, nmem_address = rd_address d, nmem_final_counter = rd_final_counter d\<rparr>"

text \<open>The identifiers that some descriptor retires.\<close>

definition shutdown_pids :: "replica_descriptor list \<Rightarrow> pid list" where
  "shutdown_pids members = map rd_pid (filter is_shutdown members)"

definition newest_by_pid ::
  "replica_descriptor list \<Rightarrow> pid \<Rightarrow> pid hashset \<Rightarrow> (pid, replica_descriptor) hashmap" where
  "newest_by_pid members local_pid connected_pids =
     fold (\<lambda>descriptor newest.
       if rd_pid descriptor = local_pid \<or> is_shutdown descriptor \<or>
          rd_pid descriptor \<in> set (shutdown_pids members) \<or> hs_contains connected_pids (rd_pid descriptor)
       then newest
       else hm_modify_or_insert newest (rd_pid descriptor)
              (\<lambda>current. if rd_gc_counter descriptor > rd_gc_counter current then descriptor else current)
              descriptor)
     members hm_new"

definition network_connection_candidates ::
  "replica_descriptor list \<Rightarrow> pid \<Rightarrow> pid hashset \<Rightarrow> replica_descriptor list" where
  "network_connection_candidates members local_pid connected_pids =
     sort_key rd_pid (hm_values (newest_by_pid members local_pid connected_pids))"


section \<open>The replica's side\<close>

text \<open>The channel to the network manager holds at most 100 members.\<close>

record 'w replica_network =
  rn_local_pid :: pid
  rn_writers :: "(pid, 'w) hashmap"
  rn_member_queue :: "network_member list"
  rn_start_sent :: bool
  rn_shutdown_sent :: bool

definition rn_new :: "pid \<Rightarrow> 'w replica_network" where
  "rn_new local_pid =
     \<lparr>rn_local_pid = local_pid, rn_writers = hm_new, rn_member_queue = [],
      rn_start_sent = False, rn_shutdown_sent = False\<rparr>"

definition rn_start :: "'w replica_network \<Rightarrow> 'w replica_network" where
  "rn_start self = self\<lparr>rn_start_sent := True\<rparr>"

definition rn_shutdown :: "'w replica_network \<Rightarrow> 'w replica_network" where
  "rn_shutdown self = self\<lparr>rn_shutdown_sent := True, rn_writers := hm_new\<rparr>"

definition peer_count :: "'w replica_network \<Rightarrow> nat" where
  "peer_count self = hm_len (rn_writers self)"

definition add_writer :: "'w replica_network \<Rightarrow> pid \<Rightarrow> 'w \<Rightarrow> 'w replica_network" where
  "add_writer self p writer = self\<lparr>rn_writers := hm_insert (rn_writers self) p writer\<rparr>"

definition remove_writer :: "'w replica_network \<Rightarrow> pid \<Rightarrow> 'w replica_network" where
  "remove_writer self p = self\<lparr>rn_writers := hm_remove (rn_writers self) p\<rparr>"

definition rn_writer :: "'w replica_network \<Rightarrow> pid \<Rightarrow> 'w option" where
  "rn_writer self p = hm_get (rn_writers self) p"

text \<open>The index drawn from the generator is the argument \<open>index\<close>.\<close>

definition random_writer :: "nat \<Rightarrow> 'w replica_network \<Rightarrow> (pid \<times> 'w) option" where
  "random_writer index self =
     (if hm_is_empty (rn_writers self) then None
      else if index < hm_len (rn_writers self) then Some (hm_iter (rn_writers self) ! index) else None)"

definition send_member :: "'w replica_network \<Rightarrow> network_member \<Rightarrow> 'w replica_network" where
  "send_member self member =
     (if length (rn_member_queue self) < 100
      then self\<lparr>rn_member_queue := rn_member_queue self @ [member]\<rparr> else self)"

definition discovered_gc_counters :: "replica_descriptor list \<Rightarrow> pid \<Rightarrow> (pid, counter) hashmap" where
  "discovered_gc_counters members local_pid =
     fold (\<lambda>descriptor discovered.
       if rd_pid descriptor = local_pid \<or> is_shutdown descriptor \<or>
          rd_pid descriptor \<in> set (shutdown_pids members)
       then discovered
       else hm_modify_or_insert discovered (rd_pid descriptor)
              (\<lambda>counter. max counter (rd_gc_counter descriptor)) (rd_gc_counter descriptor))
     members hm_new"

definition enqueue_members ::
  "'w replica_network \<Rightarrow> replica_descriptor list \<Rightarrow> crdt_wrapper \<Rightarrow> 'w replica_network \<times> crdt_wrapper" where
  "enqueue_members self members wrapper =
     (let wrapper' = fold (\<lambda>(p, gc) w. observe_active_replica w p gc)
                       (hm_iter (discovered_gc_counters members (rn_local_pid self))) wrapper;
          connected_pids = fold (\<lambda>p s. hs_insert s p) (hm_keys (rn_writers self)) hm_new;
          self' = fold (\<lambda>descriptor s. send_member s (member_of_descriptor descriptor))
                    (network_connection_candidates members (rn_local_pid self) connected_pids) self
      in (self', wrapper'))"

definition notify_departure :: "'w replica_network \<Rightarrow> replica_descriptor \<Rightarrow> 'w replica_network" where
  "notify_departure self descriptor =
     send_member (remove_writer self (rd_pid descriptor)) (member_of_descriptor descriptor)"


section \<open>The network manager\<close>

record network_manager =
  nm_pid :: pid
  nm_address :: socket_addr
  dead_members :: "pid hashset"
  connected_members :: "pid hashset"
  connecting_members :: "pid hashset"
  connection_retry_at :: "(pid, nat) hashmap"
  connection_failures :: "(pid, 32 word) hashmap"

text \<open>The order of \<open>SocketAddr\<close>: by address, then by port.\<close>

definition addr_less :: "socket_addr \<Rightarrow> socket_addr \<Rightarrow> bool" where
  "addr_less a b \<longleftrightarrow> (addr_ip a, addr_port a) < (addr_ip b, addr_port b)"

datatype 'w connection_result =
    Established "pid option" pid 'w
  | Failed "pid option"

text \<open>
  The times are seconds; \<open>now\<close> is the clock. The second result is the member the manager
  starts to dial.
\<close>

definition handle_new_member ::
  "nat \<Rightarrow> network_manager \<Rightarrow> network_member \<Rightarrow> network_manager \<times> network_member option" where
  "handle_new_member now self member =
     (let p = nmem_pid member
      in if nmem_is_shutdown member then
           (self\<lparr>dead_members := hs_insert (dead_members self) p,
                 connecting_members := hs_remove (connecting_members self) p,
                 connected_members := hs_remove (connected_members self) p,
                 connection_retry_at := hm_remove (connection_retry_at self) p,
                 connection_failures := hm_remove (connection_failures self) p\<rparr>, None)
         else if p = nm_pid self \<or> nmem_address member = nm_address self \<or>
                 addr_less (nmem_address member) (nm_address self) \<or>
                 hs_contains (dead_members self) p \<or> hs_contains (connected_members self) p \<or>
                 hs_contains (connecting_members self) p \<or>
                 (case hm_get (connection_retry_at self) p of Some retry_at \<Rightarrow> retry_at > now | None \<Rightarrow> False)
         then (self, None)
         else (self\<lparr>connecting_members := hs_insert (connecting_members self) p\<rparr>, Some member))"

definition u32_saturating_add_1 :: "32 word \<Rightarrow> 32 word" where
  "u32_saturating_add_1 w = (if w = -1 then w else w + 1)"

definition retry_delay :: "32 word \<Rightarrow> nat" where
  "retry_delay failures = min (2 ^ min (unat failures) 5) 30"

datatype 'w registration = Registered pid 'w | Aborted pid | NoConnection

text \<open>\<open>send_ok\<close> is whether the channel to the replica accepts the new writer.\<close>

fun handle_connection_result ::
  "nat \<Rightarrow> bool \<Rightarrow> network_manager \<Rightarrow> 'w connection_result \<Rightarrow> network_manager \<times> 'w registration" where
  "handle_connection_result now send_ok self (Failed expected_pid) =
     (case expected_pid of
        None \<Rightarrow> (self, NoConnection)
      | Some p \<Rightarrow>
          (let failures = u32_saturating_add_1
                 (case hm_get (connection_failures self) p of Some f \<Rightarrow> f | None \<Rightarrow> 0)
           in (self\<lparr>connecting_members := hs_remove (connecting_members self) p,
                    connection_failures := hm_insert (connection_failures self) p failures,
                    connection_retry_at := hm_insert (connection_retry_at self) p (now + retry_delay failures)\<rparr>,
               NoConnection)))"
| "handle_connection_result now send_ok self (Established expected_pid peer_pid writer) =
     (let self1 = (case expected_pid of
                     None \<Rightarrow> self
                   | Some p \<Rightarrow>
                       self\<lparr>connecting_members := hs_remove (connecting_members self) p,
                            connection_retry_at := hm_remove (connection_retry_at self) p,
                            connection_failures := hm_remove (connection_failures self) p\<rparr>)
      in if (case expected_pid of Some p \<Rightarrow> peer_pid \<noteq> p | None \<Rightarrow> False) then (self1, Aborted peer_pid)
         else if hs_contains (dead_members self1) peer_pid then (self1, Aborted peer_pid)
         else if hs_contains (connected_members self1) peer_pid then (self1, Aborted peer_pid)
         else
           (let self2 = self1\<lparr>connected_members := hs_insert (connected_members self1) peer_pid\<rparr>
            in if send_ok then (self2, Registered peer_pid writer)
               else (self2\<lparr>connected_members := hs_remove (connected_members self2) peer_pid\<rparr>, Aborted peer_pid)))"


section \<open>Which descriptors are candidates\<close>

definition connectable :: "replica_descriptor list \<Rightarrow> pid \<Rightarrow> pid hashset \<Rightarrow> replica_descriptor \<Rightarrow> bool" where
  "connectable members local_pid connected d \<longleftrightarrow>
     rd_pid d \<noteq> local_pid \<and> \<not> is_shutdown d \<and> rd_pid d \<notin> set (shutdown_pids members) \<and>
     \<not> hs_contains connected (rd_pid d)"

text \<open>
  A loop that keeps, per key, the best of the values it accepts: the entry of a key is one of
  the accepted values with that key and none of them is better.
\<close>

lemma fold_best:
  fixes score :: "'a \<Rightarrow> int"
  assumes "\<forall>k v. hm_get m k = Some v \<longrightarrow> key v = k"
  shows "case hm_get (fold (\<lambda>x m. if skip x then m
        else hm_modify_or_insert m (key x) (\<lambda>cur. if score x > score cur then x else cur) x) xs m) k of
      None \<Rightarrow> hm_get m k = None \<and> (\<forall>x \<in> set xs. key x = k \<longrightarrow> skip x)
    | Some v \<Rightarrow> key v = k \<and> (hm_get m k = Some v \<or> v \<in> set xs \<and> \<not> skip v) \<and>
        (\<forall>x \<in> set xs. key x = k \<longrightarrow> \<not> skip x \<longrightarrow> score x \<le> score v) \<and>
        (\<forall>u. hm_get m k = Some u \<longrightarrow> score u \<le> score v)"
  using assms
proof (induction xs arbitrary: m)
  case Nil
  then show ?case by (simp split: option.splits)
next
  case (Cons x xs)
  let ?upd = "\<lambda>x m. if skip x then m
        else hm_modify_or_insert m (key x) (\<lambda>cur. if score x > score cur then x else cur) x"
  have keys: "\<forall>k v. hm_get (?upd x m) k = Some v \<longrightarrow> key v = k"
    using Cons.prems by (auto split: if_splits option.splits)
  note IH = Cons.IH[OF keys]
  show ?case
  proof (cases "skip x \<or> key x \<noteq> k")
    case True
    then have "hm_get (?upd x m) k = hm_get m k" by auto
    with IH True show ?thesis by (auto split: option.splits)
  next
    case False
    then have "hm_get (?upd x m) k =
        Some (case hm_get m k of Some cur \<Rightarrow> if score x > score cur then x else cur | None \<Rightarrow> x)"
      by simp
    with IH False show ?thesis
      by (cases "hm_get m k") (auto split: option.splits if_splits)
  qed
qed

lemma newest_by_pid_eq:
  "newest_by_pid members local_pid connected =
   fold (\<lambda>x m. if \<not> connectable members local_pid connected x then m
     else hm_modify_or_insert m (rd_pid x)
       (\<lambda>cur. if rd_gc_counter x > rd_gc_counter cur then x else cur) x) members hm_new"
  unfolding newest_by_pid_def by (intro fold_cong) (auto simp: connectable_def fun_eq_iff)

lemma newest_by_pid_get:
  "case hm_get (newest_by_pid members local_pid connected) p of
     None \<Rightarrow> \<forall>d \<in> set members. rd_pid d = p \<longrightarrow> \<not> connectable members local_pid connected d
   | Some d \<Rightarrow> rd_pid d = p \<and> d \<in> set members \<and> connectable members local_pid connected d \<and>
       (\<forall>d' \<in> set members. rd_pid d' = p \<longrightarrow> connectable members local_pid connected d' \<longrightarrow>
          rd_gc_counter d' \<le> rd_gc_counter d)"
  using fold_best[where m = hm_new and key = rd_pid and score = rd_gc_counter and xs = members and k = p
      and skip = "\<lambda>d. \<not> connectable members local_pid connected d"]
  by (simp add: newest_by_pid_eq split: option.splits)

lemma map_key_values:
  assumes "\<And>k v. hm_get m k = Some v \<Longrightarrow> key v = k"
  shows "map key (hm_values m) = hm_keys m"
proof -
  have "key (snd x) = fst x" if "x \<in> set (hm_iter m)" for x
    using assms[of "fst x" "snd x"] that in_hm_iter_iff[of "fst x" "snd x" m] by simp
  then show ?thesis by (simp add: hm_values_def hm_keys_def)
qed


section \<open>Discovery keeps the collection conservative\<close>

lemma row_observe_active:
  "hm_get (matrix (wr_version_matrix (observe_active_replica w p gc))) q =
   (if q = p \<and> p \<noteq> wrapper_own_pid w \<and> p \<noteq> STABLE_REPLICA_PID \<and>
       hm_get (matrix (wr_version_matrix w)) p = None
    then Some (set_counter (set_counter dotset_new p (-1)) STABLE_REPLICA_PID gc)
    else hm_get (matrix (wr_version_matrix w)) q)"
  by (auto simp: observe_active_replica_def vm_insert_pid_def split: option.splits)

lemma observe_active_frame [simp]:
  "wrapper_own_pid (observe_active_replica w p gc) = wrapper_own_pid w"
  "final_dots (wr_version_matrix (observe_active_replica w p gc)) = final_dots (wr_version_matrix w)"
  "wr_gc_markers (observe_active_replica w p gc) = wr_gc_markers w"
  by (auto simp: observe_active_replica_def vm_insert_pid_def wrapper_own_pid_def split: option.splits)

abbreviation observe_all :: "(pid \<times> counter) list \<Rightarrow> crdt_wrapper \<Rightarrow> crdt_wrapper" where
  "observe_all \<equiv> fold (\<lambda>(p, gc) w. observe_active_replica w p gc)"

lemma observe_all_frame [simp]:
  "wrapper_own_pid (observe_all ps w) = wrapper_own_pid w"
  "final_dots (wr_version_matrix (observe_all ps w)) = final_dots (wr_version_matrix w)"
  "wr_gc_markers (observe_all ps w) = wr_gc_markers w"
  by (induction ps arbitrary: w) (auto simp: split_beta)

lemma wrapper_inv_observe_all: "wrapper_inv w \<Longrightarrow> wrapper_inv (observe_all ps w)"
  by (induction ps arbitrary: w) (auto simp: wrapper_inv_observe_active)

lemma row_observe_all:
  assumes "distinct (map fst ps)"
  shows "hm_get (matrix (wr_version_matrix (observe_all ps w))) q =
    (case hm_get (matrix (wr_version_matrix w)) q of
       Some row \<Rightarrow> Some row
     | None \<Rightarrow>
         (if q = wrapper_own_pid w \<or> q = STABLE_REPLICA_PID then None
          else map_option (\<lambda>gc. set_counter (set_counter dotset_new q (-1)) STABLE_REPLICA_PID gc) (map_of ps q)))"
  using assms
proof (induction ps arbitrary: w)
  case Nil
  then show ?case by (simp split: option.splits)
next
  case (Cons x ps)
  obtain p gc where x: "x = (p, gc)" by (cases x)
  have "map_of ps p = None" using Cons.prems x by (simp add: map_of_eq_None_iff)
  then show ?case using Cons.IH[of "observe_active_replica w p gc"] Cons.prems
    by (cases "hm_get (matrix (wr_version_matrix w)) q") (auto simp: x row_observe_active split: option.splits)
qed

definition active_member :: "replica_descriptor list \<Rightarrow> pid \<Rightarrow> pid \<Rightarrow> bool" where
  "active_member members local_pid p \<longleftrightarrow> p \<noteq> local_pid \<and> p \<notin> set (shutdown_pids members) \<and>
     (\<exists>d \<in> set members. rd_pid d = p \<and> \<not> is_shutdown d)"

lemma fold_discovered_dom:
  "hm_get (fold (\<lambda>d m. if skip d then m
      else hm_modify_or_insert m (rd_pid d) (\<lambda>c. max c (rd_gc_counter d)) (rd_gc_counter d)) ds m) p \<noteq> None \<longleftrightarrow>
   hm_get m p \<noteq> None \<or> (\<exists>d \<in> set ds. rd_pid d = p \<and> \<not> skip d)"
  by (induction ds arbitrary: m) auto

lemma discovered_dom:
  "hm_get (discovered_gc_counters members local_pid) p \<noteq> None \<longleftrightarrow> active_member members local_pid p"
  unfolding discovered_gc_counters_def
  by (subst fold_discovered_dom) (auto simp: active_member_def)

lemma send_member_frame [simp]:
  "rn_writers (send_member s m) = rn_writers s" "rn_local_pid (send_member s m) = rn_local_pid s"
  by (simp_all add: send_member_def)

section \<open>Connections of the manager\<close>

text \<open>A departed peer is neither connected nor being dialled.\<close>

definition manager_inv :: "network_manager \<Rightarrow> bool" where
  "manager_inv m \<longleftrightarrow> (\<forall>p. hs_contains (dead_members m) p \<longrightarrow> \<not> hs_contains (connected_members m) p \<and>
     \<not> hs_contains (connecting_members m) p)"

definition manager_new :: "pid \<Rightarrow> socket_addr \<Rightarrow> network_manager" where
  "manager_new p address =
     \<lparr>nm_pid = p, nm_address = address, dead_members = hm_new, connected_members = hm_new,
      connecting_members = hm_new, connection_retry_at = hm_new, connection_failures = hm_new\<rparr>"

lemma manager_inv_new: "manager_inv (manager_new p a)"
  by (simp add: manager_inv_def manager_new_def)

lemma manager_inv_new_member: "manager_inv m \<Longrightarrow> manager_inv (fst (handle_new_member now m member))"
  by (auto simp: manager_inv_def handle_new_member_def Let_def)

lemma manager_inv_result:
  "manager_inv m \<Longrightarrow> manager_inv (fst (handle_connection_result now send_ok m r))"
  by (cases r) (auto simp: manager_inv_def Let_def split: option.splits)


section \<open>Properties\<close>

definition example_members :: "replica_descriptor list" where
  "example_members =
     (let d = (\<lambda>p gc fin. \<lparr>rd_pid = p, rd_address = SocketAddrV4 (10, 0, 0, 1) 80, rd_gc_counter = gc,
                 rd_final_counter = fin\<rparr>)
      in [d 3 0 None, d 1 0 None, d 3 2 None, d 4 0 None, d 4 0 (Some 7), d 5 1 None])"

text \<open>
  Connection candidates. The candidates are sorted by identifier with none repeated; each
  is an active descriptor of a peer that is neither this replica, nor connected, nor retired by
  any descriptor of the listing, and carries the highest epoch of that peer; and every such peer
  has a candidate.
\<close>

theorem connection_candidates_exact:
  "sorted_wrt (<) (map rd_pid (network_connection_candidates members local_pid connected)) \<and>
   (\<forall>d \<in> set (network_connection_candidates members local_pid connected).
      d \<in> set members \<and> connectable members local_pid connected d \<and>
      (\<forall>d' \<in> set members. rd_pid d' = rd_pid d \<longrightarrow> connectable members local_pid connected d' \<longrightarrow>
         rd_gc_counter d' \<le> rd_gc_counter d)) \<and>
   (\<forall>d \<in> set members. connectable members local_pid connected d \<longrightarrow>
      (\<exists>d' \<in> set (network_connection_candidates members local_pid connected). rd_pid d' = rd_pid d))"
proof -
  let ?m = "newest_by_pid members local_pid connected"
  let ?cs = "network_connection_candidates members local_pid connected"
  note get = newest_by_pid_get[where members = members and local_pid = local_pid and connected = connected]
  have "map rd_pid (hm_values ?m) = hm_keys ?m"
    by (rule map_key_values) (use get in \<open>fastforce split: option.splits\<close>)
  then have "distinct (map rd_pid (hm_values ?m))" by simp
  then have "distinct (map rd_pid ?cs)"
    unfolding network_connection_candidates_def by (metis distinct_map distinct_sort set_sort)
  moreover have "sorted (map rd_pid ?cs)" by (simp add: network_connection_candidates_def)
  ultimately have "sorted_wrt (<) (map rd_pid ?cs)" by (simp add: strict_sorted_iff)
  moreover have set_cs: "d \<in> set ?cs \<longleftrightarrow> (\<exists>p. hm_get ?m p = Some d)" for d
    by (simp add: network_connection_candidates_def)
  moreover have "d \<in> set members \<and> connectable members local_pid connected d \<and>
      (\<forall>d' \<in> set members. rd_pid d' = rd_pid d \<longrightarrow> connectable members local_pid connected d' \<longrightarrow>
         rd_gc_counter d' \<le> rd_gc_counter d)" if "d \<in> set ?cs" for d
  proof -
    from that set_cs obtain p where "hm_get ?m p = Some d" by blast
    then show ?thesis using get[of p] by auto
  qed
  moreover have "\<exists>d' \<in> set ?cs. rd_pid d' = rd_pid d"
    if "d \<in> set members" "connectable members local_pid connected d" for d
    using get[of "rd_pid d"] that set_cs by (cases "hm_get ?m (rd_pid d)") auto
  ultimately show ?thesis by blast
qed

theorem connection_candidates_exact_witness:
  "sorted_wrt (<) (map rd_pid (network_connection_candidates example_members 1 hm_new)) \<and>
   map (\<lambda>d. (rd_pid d, rd_gc_counter d)) (network_connection_candidates example_members 1 hm_new) = [(3, 2), (5, 1)]"
proof -
  have "map (\<lambda>d. (rd_pid d, rd_gc_counter d)) (network_connection_candidates example_members 1 hm_new) = [(3, 2), (5, 1)]"
    by code_simp
  then show ?thesis using connection_candidates_exact[of example_members 1 hm_new] by blast
qed

text \<open>
  A newly discovered peer holds back garbage collection. When a membership listing names an
  active peer the replica has no row for, it gets one that has seen nothing; until that peer
  reports otherwise no dot of any replica is stable, so nothing the peer may lack is collected.
\<close>

theorem discovery_blocks_collection:
  assumes "wrapper_inv w" and "wrapper_own_pid w = rn_local_pid net"
    and "active_member members (rn_local_pid net) p" "p \<noteq> STABLE_REPLICA_PID"
    and "hm_get (matrix (wr_version_matrix w)) p = None" "hm_get (final_dots (wr_version_matrix w)) p = None"
    and "enqueue_members net members w = (net', w')"
    and "get_stable (wr_version_matrix w') = Done (Some st, departed)"
    and "0 \<le> dot_counter d" "dot_pid d \<noteq> STABLE_REPLICA_PID"
  shows "\<not> dotset_contains st d"
proof -
  let ?ps = "hm_iter (discovered_gc_counters members (rn_local_pid net))"
  have w': "w' = observe_all ?ps w" using assms(7) by (simp add: enqueue_members_def Let_def)
  have "hm_get (discovered_gc_counters members (rn_local_pid net)) p \<noteq> None"
    using assms(3) by (simp only: discovered_dom)
  then obtain gc where "hm_get (discovered_gc_counters members (rn_local_pid net)) p = Some gc" by blast
  then have gc: "map_of ?ps p = Some gc" by (simp only: hm_get_iter)
  define row where "row = set_counter (set_counter dotset_new p (-1)) STABLE_REPLICA_PID gc"
  have "hm_get (matrix (wr_version_matrix w')) p = Some row"
    using assms(2,3,4,5) gc by (simp add: w' row_observe_all row_def active_member_def)
  then have obs: "observer (wr_version_matrix w') p row"
    using assms(4,6) by (simp add: observer_def w')
  obtain rows where rows: "get_observer_rows (wr_version_matrix w') = Done rows"
    using get_stable_Some[OF assms(8)] by blast
  have "(p, row) \<in> set rows" using obs by (simp add: get_observer_rows_set[OF rows])
  then have "dotset_get (vm_frontier rows) (dot_pid d) \<le> dotset_get row (dot_pid d)" by (rule frontier_le_row)
  also have "\<dots> = -1" using assms(10) by (simp add: row_def dotset_get_def)
  finally have "dotset_get st (dot_pid d) \<le> -1" by (simp add: dotset_get_stable[OF assms(8) rows])
  then show ?thesis using assms(9) by (simp add: dotset_contains_nonneg)
qed

theorem discovery_blocks_collection_witness:
  "\<exists>net' w' st departed. wrapper_inv (wrapper_new 1) \<and>
     wrapper_own_pid (wrapper_new 1) = rn_local_pid (rn_new 1 :: unit replica_network) \<and>
     active_member example_members 1 3 \<and>
     enqueue_members (rn_new 1 :: unit replica_network) example_members (wrapper_new 1) = (net', w') \<and>
     get_stable (wr_version_matrix w') = Done (Some st, departed) \<and> \<not> dotset_contains st (Dot 1 0)"
proof -
  let ?net = "rn_new 1 :: unit replica_network"
  have h: "wrapper_inv (wrapper_new 1)" "wrapper_own_pid (wrapper_new 1) = rn_local_pid ?net"
    "active_member example_members (rn_local_pid ?net) 3" "3 \<noteq> STABLE_REPLICA_PID"
    "hm_get (matrix (wr_version_matrix (wrapper_new 1))) 3 = None"
    "hm_get (final_dots (wr_version_matrix (wrapper_new 1))) 3 = None"
    by (simp add: wrapper_inv_new STABLE_REPLICA_PID_def) code_simp+
  obtain net' w' where e: "enqueue_members ?net example_members (wrapper_new 1) = (net', w')" by fastforce
  have "wrapper_inv w'" using e h(1) by (auto simp: enqueue_members_def Let_def wrapper_inv_observe_all)
  then obtain r where r: "get_stable (wr_version_matrix w') = Done r"
    using get_stable_Done unfolding wrapper_inv_def by blast
  have "\<exists>st departed. r = (Some st, departed)"
  proof -
    have "case get_stable (wr_version_matrix (snd (enqueue_members ?net example_members (wrapper_new 1)))) of
        Done (Some _, _) \<Rightarrow> True | _ \<Rightarrow> False"
      by code_simp
    then show ?thesis using r e by (auto split: option.splits prod.splits)
  qed
  then obtain st departed where st: "get_stable (wr_version_matrix w') = Done (Some st, departed)" using r by auto
  have d: "0 \<le> dot_counter (Dot 1 0)" "dot_pid (Dot 1 0) \<noteq> STABLE_REPLICA_PID"
    by (simp_all add: STABLE_REPLICA_PID_def)
  have "\<not> dotset_contains st (Dot 1 0)"
    by (rule discovery_blocks_collection[OF h e st d])
  moreover have "active_member example_members 1 3" using h(3) by (simp add: rn_new_def)
  ultimately show ?thesis using h(1,2) e st by blast
qed

text \<open>
  C24: retries back off. After a failed dial the peer is not dialled again before a delay that
  doubles with every consecutive failure from two seconds up and never exceeds thirty.
\<close>

theorem retry_backoff:
  assumes "handle_connection_result now send_ok m (Failed (Some p)) = (m', r)"
    and "failures = u32_saturating_add_1 (case hm_get (connection_failures m) p of Some f \<Rightarrow> f | None \<Rightarrow> 0)"
    and "t < now + retry_delay failures" "nmem_pid member = p" "\<not> nmem_is_shutdown member"
  shows "handle_new_member t m' member = (m', None) \<and>
    2 \<le> retry_delay failures \<and> retry_delay failures \<le> 30 \<and>
    (unat failures < 5 \<longrightarrow> retry_delay failures = 2 ^ unat failures)"
proof -
  have "failures \<noteq> 0" using assms(2) by (auto simp: u32_saturating_add_1_def eq_neg_iff_add_eq_0)
  then have pos: "1 \<le> unat failures" by (simp add: unat_gt_0 Suc_le_eq)
  have "(2::nat) ^ 1 \<le> 2 ^ min (unat failures) 5" using pos by (intro power_increasing) auto
  then have lower: "2 \<le> retry_delay failures" by (simp add: retry_delay_def)
  have small: "retry_delay failures = 2 ^ unat failures" if "unat failures < 5"
  proof -
    have "(2::nat) ^ unat failures \<le> 2 ^ 4" using that by (intro power_increasing) auto
    then show ?thesis using that by (simp add: retry_delay_def)
  qed
  have "hm_get (connection_retry_at m') p = Some (now + retry_delay failures)"
    using assms(1,2) by (auto simp: Let_def)
  then have "handle_new_member t m' member = (m', None)"
    using assms(3-5) by (simp add: handle_new_member_def Let_def)
  then show ?thesis using lower small by (simp add: retry_delay_def)
qed

theorem retry_backoff_witness:
  "\<exists>m' r. handle_connection_result 100 True (manager_new 1 (SocketAddrV4 (10, 0, 0, 1) 80))
       (Failed (Some 2) :: unit connection_result) = (m', r) \<and>
     handle_new_member 101 m' \<lparr>nmem_pid = 2, nmem_address = SocketAddrV4 (10, 0, 0, 2) 80,
       nmem_final_counter = None\<rparr> = (m', None)"
proof -
  let ?m = "manager_new 1 (SocketAddrV4 (10, 0, 0, 1) 80)"
  obtain m' r where r: "handle_connection_result 100 True ?m (Failed (Some 2) :: unit connection_result) = (m', r)"
    by fastforce
  have h: "(101::nat) < 100 + retry_delay (u32_saturating_add_1
      (case hm_get (connection_failures ?m) 2 of Some f \<Rightarrow> f | None \<Rightarrow> 0))"
    by code_simp
  have "handle_new_member 101 m' \<lparr>nmem_pid = 2, nmem_address = SocketAddrV4 (10, 0, 0, 2) 80,
       nmem_final_counter = None\<rparr> = (m', None)"
    using retry_backoff[OF r refl h] by (simp add: nmem_is_shutdown_def)
  then show ?thesis using r by blast
qed

text \<open>
  Departed peers stay away. Every handler of the manager keeps departed peers out of the
  connected and the dialled ones, and a connection to a departed peer is never registered.
\<close>

theorem departed_peer_refused:
  assumes "manager_inv m"
  shows "manager_inv (fst (handle_new_member now m member)) \<and>
    manager_inv (fst (handle_connection_result now send_ok m r)) \<and>
    (hs_contains (dead_members m) p \<longrightarrow>
       snd (handle_connection_result now send_ok m (Established e p writer)) = Aborted p \<and>
       (nmem_pid member = p \<longrightarrow> snd (handle_new_member now m member) = None))"
proof -
  have "snd (handle_connection_result now send_ok m (Established e p writer)) = Aborted p"
    "nmem_pid member = p \<longrightarrow> snd (handle_new_member now m member) = None"
    if "hs_contains (dead_members m) p"
    using that by (auto simp: Let_def handle_new_member_def split: option.splits)
  then show ?thesis using manager_inv_new_member[OF assms] manager_inv_result[OF assms] by blast
qed

theorem departed_peer_refused_witness:
  "\<exists>m. manager_inv m \<and> hs_contains (dead_members m) 2 \<and>
     snd (handle_connection_result 5 True m (Established None 2 ())) = Aborted 2"
proof -
  let ?m = "(manager_new 1 (SocketAddrV4 (10, 0, 0, 1) 80))\<lparr>dead_members := hs_insert hm_new 2\<rparr>"
  have h: "manager_inv ?m" "hs_contains (dead_members ?m) 2" by (simp_all add: manager_inv_def manager_new_def)
  show ?thesis
    using h departed_peer_refused[OF h(1), of 5 undefined True "Failed None" 2 None "()"] by blast
qed

text \<open>
  One side dials. If two replicas with different addresses each publish the address they
  listen on, at most one of them starts a dial on discovering the other.
\<close>

theorem single_dialer:
  assumes "nm_address a = nmem_address member_a" "nm_address b = nmem_address member_b"
  shows "snd (handle_new_member now_a a member_b) = None \<or> snd (handle_new_member now_b b member_a) = None"
proof (cases "addr_less (nmem_address member_b) (nm_address a) \<or> nmem_address member_b = nm_address a")
  case True
  then show ?thesis by (auto simp: handle_new_member_def Let_def)
next
  case False
  then have "addr_less (nmem_address member_a) (nm_address b)"
    using assms by (auto simp: addr_less_def) (metis less_linear prod.inject socket_addr.expand)
  then show ?thesis by (auto simp: handle_new_member_def Let_def)
qed

theorem single_dialer_witness:
  "\<exists>a b member_a member_b. nm_address a = nmem_address member_a \<and> nm_address b = nmem_address member_b \<and>
     snd (handle_new_member 0 a member_b) = Some member_b \<and>
     (snd (handle_new_member 0 a member_b) = None \<or> snd (handle_new_member 0 b member_a) = None)"
proof -
  let ?a = "SocketAddrV4 (10, 0, 0, 1) 80" and ?b = "SocketAddrV4 (10, 0, 0, 2) 80"
  let ?ma = "\<lparr>nmem_pid = 1, nmem_address = ?a, nmem_final_counter = None\<rparr>"
  let ?mb = "\<lparr>nmem_pid = 2, nmem_address = ?b, nmem_final_counter = None\<rparr>"
  have h: "nm_address (manager_new 1 ?a) = nmem_address ?ma" "nm_address (manager_new 2 ?b) = nmem_address ?mb"
    by (simp_all add: manager_new_def)
  have "snd (handle_new_member 0 (manager_new 1 ?a) ?mb) = Some ?mb" by code_simp
  then show ?thesis using h single_dialer[OF h, of 0 0] by blast
qed

text \<open>
  C37: a lost connection is never replaced. Nothing but a shutdown notice takes a peer out of the
  connected ones: while it is there the peer is not dialled however often it is rediscovered, and
  a new connection from it is torn down, although the replica dropped the writer of the old one.
\<close>

theorem lost_connection_not_replaced:
  assumes "hs_contains (connected_members m) p" and "nmem_pid member \<noteq> p \<or> \<not> nmem_is_shutdown member"
  shows "hs_contains (connected_members (fst (handle_new_member now m member))) p \<and>
    (nmem_pid member = p \<longrightarrow> snd (handle_new_member now m member) = None) \<and>
    hs_contains (connected_members (fst (handle_connection_result now send_ok m r))) p \<and>
    snd (handle_connection_result now send_ok m r) \<noteq> Registered p writer"
proof -
  have "hs_contains (connected_members (fst (handle_new_member now m member))) p"
    "nmem_pid member = p \<longrightarrow> snd (handle_new_member now m member) = None"
    using assms by (auto simp: handle_new_member_def Let_def)
  moreover have "hs_contains (connected_members (fst (handle_connection_result now send_ok m r))) p"
    "snd (handle_connection_result now send_ok m r) \<noteq> Registered p writer"
    using assms(1) by (cases r; auto simp: Let_def split: option.splits)+
  ultimately show ?thesis by blast
qed

theorem lost_connection_not_replaced_witness:
  "\<exists>m. hs_contains (connected_members m) 2 \<and>
     snd (handle_connection_result 5 True m (Established None 2 ())) \<noteq> Registered 2 ()"
proof -
  let ?m = "(manager_new 1 (SocketAddrV4 (10, 0, 0, 1) 80))\<lparr>connected_members := hs_insert hm_new 2\<rparr>"
  let ?member = "\<lparr>nmem_pid = 2, nmem_address = SocketAddrV4 (10, 0, 0, 2) 80, nmem_final_counter = None\<rparr>"
  have h: "hs_contains (connected_members ?m) 2" "nmem_pid ?member \<noteq> 2 \<or> \<not> nmem_is_shutdown ?member"
    by (simp_all add: nmem_is_shutdown_def)
  have "snd (handle_connection_result 5 True ?m (Established None 2 ())) \<noteq> Registered 2 ()"
    using lost_connection_not_replaced[OF h, of 5 True "Established None 2 ()" "()"] by blast
  then show ?thesis using h(1) by blast
qed

end
