(* ===== verification/Replica.thy ===== *)
theory Replica
  imports Journal Network_Layer
begin

text \<open>
  The replica (\<^verbatim>\<open>src/src/replica.rs\<close>): the handlers of its event loop over the CRDT
  state, the replication metadata, the network and the journal. Object storage is outside
  the repository: the answers of its calls are arguments of the handlers (\<open>storage_answers\<close>)
  and the writes a handler issues are returned in order (\<open>storage_effect\<close>). The CRDT is the
  argument \<open>ops\<close>, the JSON codec the argument \<open>c\<close>. Commits of client mutations and of remote
  deltas hold the same lock in the program, so each handler acts on the state as a whole.
\<close>

section \<open>State\<close>

record ('s, 'w) replica =
  rp_crdt :: 's
  rp_wrapper :: crdt_wrapper
  rp_pid :: pid
  rp_address :: socket_addr
  rp_network :: "'w replica_network"
  rp_journal :: "journal \<times> disk"
  rp_members :: "replica_descriptor list"

datatype 's storage_effect =
    CreateDescriptor replica_descriptor
  | CreateShutdownDescriptor replica_descriptor 's
  | DeleteDescriptor replica_descriptor
  | DeleteDescriptorsFor pid
  | WritePersistentReplica "'s persistent_replica"

text \<open>
  What object storage answers to the calls of one handler: to the creation of a descriptor
  (\<open>None\<close> an error, \<open>Some False\<close> it existed), to the listing of the membership directory
  (\<open>None\<close> an error), to a second listing in the same handler, to the write of the persistent
  replica, and to the deletion of all descriptors of a process.
\<close>

record storage_answers =
  sa_create :: "bool option"
  sa_list :: "replica_descriptor list option"
  sa_relist :: "replica_descriptor list option"
  sa_write_persistent :: bool
  sa_delete_ok :: "pid \<Rightarrow> bool"

datatype send_result = SendOk | SendFull | SendClosed


section \<open>Helpers\<close>

definition own_descriptor :: "('s, 'w) replica \<Rightarrow> replica_descriptor" where
  "own_descriptor self =
     \<lparr>rd_pid = rp_pid self, rd_address = rp_address self,
      rd_gc_counter = dot_counter (current_gc_marker (rp_wrapper self)), rd_final_counter = None\<rparr>"

definition refresh_own_version_vector ::
  "('s, 'd, 'x, 'q, 'm, 'r) crdt_ops \<Rightarrow> ('s, 'w) replica \<Rightarrow> (('s, 'w) replica \<times> dot_set) exec" where
  "refresh_own_version_vector ops self =
     exec_bind (update_own_version_vector (rp_wrapper self) (op_get_version_vector ops (rp_crdt self)))
       (\<lambda>(w, vv). Done (self\<lparr>rp_wrapper := w\<rparr>, vv))"

definition persistent_of :: "('s, 'w) replica \<Rightarrow> 's persistent_replica" where
  "persistent_of self = \<lparr>pr_local_state = rp_crdt self, pr_crdt_wrapper = rp_wrapper self\<rparr>"

text \<open>Journal a delta group, then merge it, under the commit lock.\<close>

definition commit_delta ::
  "('s, 'd, 'x, 'q, 'm, 'r) crdt_ops \<Rightarrow> ('v, 's, 'd, 'x, 'm) codec \<Rightarrow> io_outcome \<Rightarrow>
   ('d, 'x) delta_group \<Rightarrow> ('s, 'w) replica \<Rightarrow> ('s, 'w) replica exec" where
  "commit_delta ops c io delta self =
     exec_bind (append_delta_group c io delta (rp_journal self)) (\<lambda>jd.
     exec_bind (op_merge_delta_group ops (rp_crdt self) delta) (\<lambda>s.
       Done (self\<lparr>rp_journal := jd, rp_crdt := s\<rparr>)))"


section \<open>Client mutations\<close>

definition handle_client_mutation ::
  "('s, 'd, 'x, 'q, 'm, 'r) crdt_ops \<Rightarrow> ('v, 's, 'd, 'x, 'm) codec \<Rightarrow> io_outcome \<Rightarrow> 'm \<Rightarrow>
   ('s, 'w) replica \<Rightarrow> (('s, 'w) replica \<times> 'r) exec" where
  "handle_client_mutation ops c io mutation self =
     (case append_mutation c io mutation (rp_journal self) of
        (jd, Inl _) \<Rightarrow> Panicked (PanicMessage ''Failed to append durable client mutation'')
      | (jd, Inr _) \<Rightarrow>
          exec_bind (op_mutate ops (rp_crdt self) mutation) (\<lambda>(s, response).
            Done (self\<lparr>rp_journal := jd, rp_crdt := s\<rparr>, response)))"


section \<open>Garbage collection\<close>

definition replica_apply_gc_marker ::
  "('s, 'd, 'x, 'q, 'm, 'r) crdt_ops \<Rightarrow> ('v, 's, 'd, 'x, 'm) codec \<Rightarrow> io_outcome \<Rightarrow> gc_marker \<Rightarrow>
   ('s, 'w) replica \<Rightarrow> ('s, 'w) replica exec" where
  "replica_apply_gc_marker ops c io marker self =
     exec_bind (append_gc_marker c io marker (rp_journal self)) (\<lambda>jd.
       (let s = op_gc ops (rp_crdt self) (gm_stable marker) (gm_departed_pids marker)
        in exec_bind (push_gc_marker (rp_wrapper self) marker) (\<lambda>w.
             Done (self\<lparr>rp_journal := jd, rp_crdt := s, rp_wrapper := w\<rparr>))))"

definition observe_gc ::
  "('s, 'd, 'x, 'q, 'm, 'r) crdt_ops \<Rightarrow> ('v, 's, 'd, 'x, 'm) codec \<Rightarrow> io_outcome \<Rightarrow> gc_marker \<Rightarrow>
   ('s, 'w) replica \<Rightarrow> ('s, 'w) replica exec" where
  "observe_gc ops c io metadata self =
     (if dot_pid (gm_marker metadata) \<noteq> STABLE_REPLICA_PID \<or>
         dot_counter (gm_marker metadata) \<le> dot_counter (current_gc_marker (rp_wrapper self))
      then Done self
      else replica_apply_gc_marker ops c io metadata self)"

definition membership_gc_counters_by_pid :: "replica_descriptor list \<Rightarrow> (pid, counter) hashmap" where
  "membership_gc_counters_by_pid members =
     fold (\<lambda>descriptor gc_counters.
       hm_modify_or_insert gc_counters (rd_pid descriptor)
         (\<lambda>gc. max gc (rd_gc_counter descriptor)) (rd_gc_counter descriptor)) members hm_new"

text \<open>The result is whether the round may go on; an aborted round deletes its new descriptor.\<close>

definition validate_gc_membership ::
  "storage_answers \<Rightarrow> (pid, counter) hashmap \<Rightarrow> replica_descriptor \<Rightarrow> ('s, 'w) replica \<Rightarrow>
   ('s, 'w) replica \<times> bool \<times> 's storage_effect list" where
  "validate_gc_membership ans previous new_descriptor self =
     (case sa_list ans of
        None \<Rightarrow> (self, False, [DeleteDescriptor new_descriptor])
      | Some current_members \<Rightarrow>
          (let self1 = self\<lparr>rp_members := current_members\<rparr>;
               current = membership_gc_counters_by_pid current_members;
               is_stable = list_all (\<lambda>(p, counter).
                  p = rp_pid self \<or> (case hm_get previous p of Some old \<Rightarrow> counter \<le> old | None \<Rightarrow> False))
                 (hm_iter current)
           in if is_stable then (self1, True, [])
              else (self1\<lparr>rp_members := (case sa_relist ans of Some ms \<Rightarrow> ms | None \<Rightarrow> current_members)\<rparr>,
                    False, [DeleteDescriptor new_descriptor])))"

definition change_own_gc_counter ::
  "storage_answers \<Rightarrow> counter \<Rightarrow> ('s, 'w) replica \<Rightarrow> replica_descriptor option \<times> 's storage_effect list" where
  "change_own_gc_counter ans gc self =
     (let descriptor = \<lparr>rd_pid = rp_pid self, rd_address = rp_address self, rd_gc_counter = gc,
                        rd_final_counter = None\<rparr>
      in (if sa_create ans = Some True then Some descriptor else None, [CreateDescriptor descriptor]))"

text \<open>The descriptors of a departed process leave the cache only if all of them were deleted.\<close>

definition gc_departed_pids ::
  "storage_answers \<Rightarrow> pid list \<Rightarrow> ('s, 'w) replica \<Rightarrow> ('s, 'w) replica \<times> 's storage_effect list" where
  "gc_departed_pids ans departed_pids self =
     (self\<lparr>rp_members := filter (\<lambda>d. \<not> (rd_pid d \<in> set departed_pids \<and> sa_delete_ok ans (rd_pid d)))
                          (rp_members self)\<rparr>,
      map DeleteDescriptorsFor departed_pids)"

definition complete_local_gc ::
  "('s, 'd, 'x, 'q, 'm, 'r) crdt_ops \<Rightarrow> ('v, 's, 'd, 'x, 'm) codec \<Rightarrow> io_outcome \<Rightarrow> storage_answers \<Rightarrow>
   gc_marker \<Rightarrow> ('s, 'w) replica \<Rightarrow> (('s, 'w) replica \<times> bool \<times> 's storage_effect list) exec" where
  "complete_local_gc ops c io ans marker self =
     exec_bind (replica_apply_gc_marker ops c io marker self) (\<lambda>self1.
       (let write = [WritePersistentReplica (persistent_of self1)]
        in if \<not> sa_write_persistent ans then Done (self1, False, write)
           else
             (case gm_departed_pids marker of
                None \<Rightarrow> Done (self1, True, write)
              | Some ps \<Rightarrow>
                  (case gc_departed_pids ans ps self1 of (self2, fx) \<Rightarrow> Done (self2, True, write @ fx)))))"

definition init_gc ::
  "('s, 'd, 'x, 'q, 'm, 'r) crdt_ops \<Rightarrow> ('v, 's, 'd, 'x, 'm) codec \<Rightarrow> io_outcome \<Rightarrow> storage_answers \<Rightarrow>
   ('s, 'w) replica \<Rightarrow> (('s, 'w) replica \<times> 's storage_effect list) exec" where
  "init_gc ops c io ans self0 =
     exec_bind (refresh_own_version_vector ops self0) (\<lambda>(self, _).
     exec_bind (needs_gc (rp_wrapper self)) (\<lambda>due.
       if \<not> due then Done (self, [])
       else
         exec_bind (get_stable (wr_version_matrix (rp_wrapper self))) (\<lambda>(now_stable, departed_pids).
           case now_stable of
             None \<Rightarrow> Done (self, [])
           | Some st \<Rightarrow>
               (let previous_gc_counters = membership_gc_counters_by_pid (rp_members self);
                    previous_descriptor = own_descriptor self;
                    new_marker = next_gc_marker (rp_wrapper self);
                    (created, fx1) = change_own_gc_counter ans (dot_counter new_marker) self
                in case created of
                     None \<Rightarrow> Done (self, fx1)
                   | Some new_descriptor \<Rightarrow>
                       (case validate_gc_membership ans previous_gc_counters new_descriptor self of
                          (self1, valid, fx2) \<Rightarrow>
                            if \<not> valid then Done (self1, fx1 @ fx2)
                            else
                              exec_bind (complete_local_gc ops c io ans
                                  \<lparr>gm_marker = new_marker, gm_stable = st, gm_departed_pids = departed_pids\<rparr> self1)
                                (\<lambda>(self2, completed, fx3).
                                  if \<not> completed then Done (self2, fx1 @ fx2 @ fx3)
                                  else Done (self2, fx1 @ fx2 @ fx3 @ [DeleteDescriptor previous_descriptor])))))))"


section \<open>Replication\<close>

definition handle_delta ::
  "('s, 'd, 'x, 'q, 'm, 'r) crdt_ops \<Rightarrow> ('v, 's, 'd, 'x, 'm) codec \<Rightarrow> io_outcome \<Rightarrow>
   ('d, 'x) delta_group \<Rightarrow> gc_marker \<Rightarrow> ('s, 'w) replica \<Rightarrow> ('s, 'w) replica exec" where
  "handle_delta ops c io delta gc_md self =
     (if gc_counter (dg_version_vector delta) < dot_counter (current_gc_marker (rp_wrapper self)) then Done self
      else
        exec_bind (observe_gc ops c io gc_md self) (\<lambda>self1.
        exec_bind (commit_delta ops c io delta self1) (\<lambda>self2.
        exec_map fst (refresh_own_version_vector ops self2))))"

text \<open>\<open>send\<close> is the result of handing the reply to the peer's writer, if it has one.\<close>

definition handle_version_vector ::
  "('s, 'd, 'x, 'q, 'm, 'r) crdt_ops \<Rightarrow> send_result \<Rightarrow> pid \<Rightarrow> dot_set \<Rightarrow> ('s, 'w) replica \<Rightarrow>
   (('s, 'w) replica \<times> ('d, 'x) replica_message option) exec" where
  "handle_version_vector ops send p version_vector self =
     exec_bind (vm_update (wr_version_matrix (rp_wrapper self)) p version_vector) (\<lambda>m.
       (let w1 = (rp_wrapper self)\<lparr>wr_version_matrix := m\<rparr>;
            delta = op_get_delta ops (rp_crdt self) version_vector
        in exec_bind (update_own_version_vector w1 (dg_version_vector delta)) (\<lambda>(w2, vv).
             (let self1 = self\<lparr>rp_wrapper := w2\<rparr>;
                  delta' = delta\<lparr>dg_version_vector := vv\<rparr>
              in case rn_writer (rp_network self) p of
                   None \<Rightarrow> Done (self1, None)
                 | Some _ \<Rightarrow>
                     exec_bind (gc_metadata w2) (\<lambda>md.
                       case send of
                         SendOk \<Rightarrow> Done (self1, Some (MsgDeltaGroup delta' md))
                       | SendFull \<Rightarrow> Done (self1, None)
                       | SendClosed \<Rightarrow>
                           Done (self1\<lparr>rp_network := remove_writer (rp_network self1) p\<rparr>, None))))))"

definition pull_delta ::
  "('s, 'd, 'x, 'q, 'm, 'r) crdt_ops \<Rightarrow> nat \<Rightarrow> send_result \<Rightarrow> ('s, 'w) replica \<Rightarrow>
   (('s, 'w) replica \<times> (pid \<times> ('d, 'x) replica_message) option) exec" where
  "pull_delta ops index send self =
     (case random_writer index (rp_network self) of
        None \<Rightarrow> Done (self, None)
      | Some (p, _) \<Rightarrow>
          exec_bind (refresh_own_version_vector ops self) (\<lambda>(self1, vv).
            case send of
              SendOk \<Rightarrow> Done (self1, Some (p, MsgVersionVector (rp_pid self) vv))
            | SendFull \<Rightarrow> Done (self1, None)
            | SendClosed \<Rightarrow> Done (self1\<lparr>rp_network := remove_writer (rp_network self1) p\<rparr>, None)))"


section \<open>Membership\<close>

text \<open>\<open>payload\<close> is the answer to reading the final state: an error, no object, or the state.\<close>

definition merge_shutdown_payload ::
  "('s, 'd, 'x, 'q, 'm, 'r) crdt_ops \<Rightarrow> ('v, 's, 'd, 'x, 'm) codec \<Rightarrow> io_outcome \<Rightarrow>
   's option option \<Rightarrow> ('s, 'w) replica \<Rightarrow> (('s, 'w) replica \<times> bool) exec" where
  "merge_shutdown_payload ops c io payload self =
     (case payload of
        None \<Rightarrow> Done (self, False)
      | Some None \<Rightarrow> Done (self, False)
      | Some (Some shutdown_state) \<Rightarrow>
          (let delta = op_get_delta ops shutdown_state (op_get_version_vector ops (rp_crdt self))
           in if dg_list delta = [] then
                exec_map (\<lambda>(self1, _). (self1, True)) (refresh_own_version_vector ops self)
              else
                exec_bind (commit_delta ops c io delta self) (\<lambda>self1.
                exec_map (\<lambda>(self2, _). (self2, True)) (refresh_own_version_vector ops self1))))"

definition handle_shutdown_descriptor ::
  "('s, 'd, 'x, 'q, 'm, 'r) crdt_ops \<Rightarrow> ('v, 's, 'd, 'x, 'm) codec \<Rightarrow> io_outcome \<Rightarrow>
   (replica_descriptor \<Rightarrow> 's option option) \<Rightarrow> replica_descriptor \<Rightarrow> ('s, 'w) replica \<Rightarrow>
   ('s, 'w) replica exec" where
  "handle_shutdown_descriptor ops c io payloads descriptor self =
     exec_bind (expect ''shutdown descriptor missing final counter'' (rd_final_counter descriptor)) (\<lambda>final_counter.
       (let final_dot = Dot (rd_pid descriptor) final_counter
        in if \<not> should_fetch_departed_replica (rp_wrapper self) final_dot then Done self
           else
             exec_bind (merge_shutdown_payload ops c io (payloads descriptor) self) (\<lambda>(self1, merged).
               if \<not> merged then Done self1
               else Done (self1\<lparr>rp_wrapper := observe_departed_replica (rp_wrapper self1) final_dot,
                                rp_network := notify_departure (rp_network self1) descriptor\<rparr>))))"

definition apply_membership_poll ::
  "('s, 'd, 'x, 'q, 'm, 'r) crdt_ops \<Rightarrow> ('v, 's, 'd, 'x, 'm) codec \<Rightarrow> io_outcome \<Rightarrow>
   (replica_descriptor \<Rightarrow> 's option option) \<Rightarrow> replica_descriptor list option \<Rightarrow> ('s, 'w) replica \<Rightarrow>
   ('s, 'w) replica exec" where
  "apply_membership_poll ops c io payloads polled self =
     (case polled of
        None \<Rightarrow> Done self
      | Some members \<Rightarrow>
          (case enqueue_members (rp_network self) members (rp_wrapper self) of
             (net, w) \<Rightarrow>
               exec_fold (handle_shutdown_descriptor ops c io payloads) (filter is_shutdown members)
                 (self\<lparr>rp_members := members, rp_network := net, rp_wrapper := w\<rparr>)))"


section \<open>Startup and shutdown\<close>

definition effective_pid :: "pid \<Rightarrow> 's persistent_replica option \<Rightarrow> pid" where
  "effective_pid requested_pid recovered =
     (case recovered of Some r \<Rightarrow> wrapper_own_pid (pr_crdt_wrapper r) | None \<Rightarrow> requested_pid)"

text \<open>The registration: an error of the creation or of the listing is fatal at startup.\<close>

definition register_and_list_members ::
  "storage_answers \<Rightarrow> ('s, 'w) replica \<Rightarrow> (('s, 'w) replica \<times> 's storage_effect list) exec" where
  "register_and_list_members ans self =
     exec_bind (expect ''Failed to register and list replica membership''
                  (if sa_create ans = None then None else sa_list ans)) (\<lambda>members.
       Done (self\<lparr>rp_members := members\<rparr>, [CreateDescriptor (own_descriptor self)]))"

definition persist_durable_snapshot ::
  "('v, 's, 'd, 'x, 'm) codec \<Rightarrow> io_outcome \<Rightarrow> ('s, 'w) replica \<Rightarrow> ('s, 'w) replica exec" where
  "persist_durable_snapshot c io self =
     exec_map (\<lambda>jd. self\<lparr>rp_journal := jd\<rparr>) (append_snapshot c io (persistent_of self) (rp_journal self))"

text \<open>\<open>stored\<close> is the answer to reading the persistent replica: an error, no object, or the state.\<close>

definition bootstrap_from_object_storage ::
  "('s, 'd, 'x, 'q, 'm, 'r) crdt_ops \<Rightarrow> ('v, 's, 'd, 'x, 'm) codec \<Rightarrow> io_outcome \<Rightarrow> storage_answers \<Rightarrow>
   's persistent_replica option option \<Rightarrow> ('s, 'w) replica \<Rightarrow>
   (('s, 'w) replica \<times> 's storage_effect list) exec" where
  "bootstrap_from_object_storage ops c io ans stored self =
     (case stored of
        None \<Rightarrow> Panicked (PanicMessage ''Failed to read persistent replica state'')
      | Some found \<Rightarrow>
          exec_bind (register_and_list_members ans self) (\<lambda>(self1, fx).
            case found of
              Some persistent \<Rightarrow>
                (let rebound = pr_rebind_own_pid ops persistent (rp_pid self1)
                 in exec_bind (append_snapshot c io rebound (rp_journal self1)) (\<lambda>jd.
                      Done (self1\<lparr>rp_journal := jd, rp_crdt := pr_local_state rebound,
                                  rp_wrapper := pr_crdt_wrapper rebound\<rparr>, fx)))
            | None \<Rightarrow>
                exec_bind (persist_durable_snapshot c io self1) (\<lambda>self2.
                  Done (self2, fx @ [WritePersistentReplica (persistent_of self1)]))))"

text \<open>
  The construction of a replica: recover the journal, keep the recovered identity, and either
  register with the recovered state or bootstrap from object storage.
\<close>

definition with_config ::
  "('s, 'd, 'x, 'q, 'm, 'r) crdt_ops \<Rightarrow> ('v, 's, 'd, 'x, 'm) codec \<Rightarrow> io_outcome \<Rightarrow> storage_answers \<Rightarrow>
   's persistent_replica option option \<Rightarrow> pid \<Rightarrow> 's \<Rightarrow> socket_addr \<Rightarrow> journal \<times> disk \<Rightarrow>
   (('s, 'w) replica \<times> 's storage_effect list) exec" where
  "with_config ops c io ans stored requested_pid crdt address jd0 =
     exec_bind (journal_recover ops c io jd0) (\<lambda>(jd, result).
       case result of
         Inl _ \<Rightarrow> Panicked (PanicMessage ''Failed to recover durable replica state'')
       | Inr recovered \<Rightarrow>
           (let p = effective_pid requested_pid recovered;
                (crdt0, w0) = (case recovered of
                                 Some r \<Rightarrow> (pr_local_state r, pr_crdt_wrapper r)
                               | None \<Rightarrow> (crdt, wrapper_new p));
                crdt1 = op_set_pid ops crdt0 p;
                w1 = wrapper_rebind_own_pid w0 p (op_get_version_vector ops crdt1);
                self = \<lparr>rp_crdt = crdt1, rp_wrapper = w1, rp_pid = p, rp_address = address,
                        rp_network = rn_new p, rp_journal = jd, rp_members = []\<rparr>
            in case recovered of
                 Some _ \<Rightarrow> register_and_list_members ans self
               | None \<Rightarrow> bootstrap_from_object_storage ops c io ans stored self))"

definition write_shutdown_descriptor ::
  "('s, 'd, 'x, 'q, 'm, 'r) crdt_ops \<Rightarrow> ('s, 'w) replica \<Rightarrow> 's storage_effect list" where
  "write_shutdown_descriptor ops self =
     (let final_counter = (case counter_of (op_get_version_vector ops (rp_crdt self)) (rp_pid self) of
                             Some n \<Rightarrow> n | None \<Rightarrow> -1)
      in [CreateShutdownDescriptor ((own_descriptor self)\<lparr>rd_final_counter := Some final_counter\<rparr>) (rp_crdt self)])"

definition replica_shutdown ::
  "('s, 'd, 'x, 'q, 'm, 'r) crdt_ops \<Rightarrow> ('s, 'w) replica \<Rightarrow> ('s, 'w) replica \<times> 's storage_effect list" where
  "replica_shutdown ops self =
     (self\<lparr>rp_network := rn_shutdown (rp_network self)\<rparr>, write_shutdown_descriptor ops self)"


section \<open>The event loop\<close>

datatype ('s, 'd, 'x, 'm, 'w) replica_event =
    ClientMutation 'm
  | LocalMutation
  | RemoteDelta "('d, 'x) delta_group" gc_marker
  | RemoteVersionVector send_result pid dot_set
  | PeerWriter pid 'w
  | SyncTick nat send_result
  | GcTick storage_answers
  | MembershipPolled "replica_descriptor \<Rightarrow> 's option option" "replica_descriptor list option"

text \<open>One turn of the loop, as the state it leaves.\<close>

fun replica_step ::
  "('s, 'd, 'x, 'q, 'm, 'r) crdt_ops \<Rightarrow> ('v, 's, 'd, 'x, 'm) codec \<Rightarrow> io_outcome \<Rightarrow>
   ('s, 'd, 'x, 'm, 'w) replica_event \<Rightarrow> ('s, 'w) replica \<Rightarrow> ('s, 'w) replica exec" where
  "replica_step ops c io (ClientMutation mutation) self =
     exec_map fst (handle_client_mutation ops c io mutation self)"
| "replica_step ops c io LocalMutation self = exec_map fst (refresh_own_version_vector ops self)"
| "replica_step ops c io (RemoteDelta delta gc_md) self = handle_delta ops c io delta gc_md self"
| "replica_step ops c io (RemoteVersionVector send p vv) self =
     exec_map fst (handle_version_vector ops send p vv self)"
| "replica_step ops c io (PeerWriter p writer) self =
     Done (self\<lparr>rp_network := add_writer (rp_network self) p writer\<rparr>)"
| "replica_step ops c io (SyncTick index send) self = exec_map fst (pull_delta ops index send self)"
| "replica_step ops c io (GcTick ans) self = exec_map fst (init_gc ops c io ans self)"
| "replica_step ops c io (MembershipPolled payloads polled) self =
     apply_membership_poll ops c io payloads polled self"

text \<open>
  The start of \<open>run\<close> (the network is started and the members known from the bootstrap are
  handed to it) and the loop over a sequence of events.
\<close>

definition run_start :: "('s, 'w) replica \<Rightarrow> ('s, 'w) replica" where
  "run_start self =
     (case enqueue_members (rn_start (rp_network self)) (rp_members self) (rp_wrapper self) of
        (net, w) \<Rightarrow> self\<lparr>rp_network := net, rp_wrapper := w\<rparr>)"

definition replica_run ::
  "('s, 'd, 'x, 'q, 'm, 'r) crdt_ops \<Rightarrow> ('v, 's, 'd, 'x, 'm) codec \<Rightarrow> io_outcome \<Rightarrow>
   ('s, 'd, 'x, 'm, 'w) replica_event list \<Rightarrow> ('s, 'w) replica \<Rightarrow> ('s, 'w) replica exec" where
  "replica_run ops c io events self = exec_fold (replica_step ops c io) events (run_start self)"

end
