(* ===== verification/Replica_Durability.thy ===== *)
theory Replica_Durability
  imports Replica Orset
begin

text \<open>
  Durability of a replica: what the journal on disk holds agrees with the replica in memory
  after every turn of the event loop, so a restarted process resumes with the state, the
  collection markers and the identity the replica had when it stopped.
\<close>

section \<open>Frames of the matrix operations\<close>

lemma vm_update_frame:
  assumes "vm_update m p v = Done m'"
  shows "own_pid m' = own_pid m \<and> final_dots m' = final_dots m \<and> (vm_inv m \<longrightarrow> vm_inv m')"
  using assms by (auto simp: vm_update_def vm_inv_def exec_simps split: if_splits)

lemma final_dots_remove_step:
  "hm_get (final_dots m) q = None \<Longrightarrow> hm_get (final_dots (vm_remove_pids_step vv p m)) q = None"
  by (auto simp: vm_remove_pids_step_def vm_forget_pid_def split: option.splits)

lemma final_dots_fold_remove:
  "hm_get (final_dots m) q = None \<Longrightarrow> hm_get (final_dots (fold (vm_remove_pids_step vv) ps m)) q = None"
  by (induction ps arbitrary: m) (auto simp: final_dots_remove_step)

lemma vm_apply_gc_marker_final:
  assumes "vm_apply_gc_marker m st departed gc = Done m'" "hm_get (final_dots m) q = None"
  shows "hm_get (final_dots m') q = None"
  using assms final_dots_fold_remove[OF assms(2)]
  by (auto simp: vm_apply_gc_marker_def vm_remove_pids_def exec_simps Let_def split: option.splits)

lemma push_gc_marker_frame:
  assumes "push_gc_marker w mk = Done w'" "vm_inv (wr_version_matrix w)"
    and "wrapper_own_pid w \<notin> set (departed_list (gm_departed_pids mk))"
  shows "vm_inv (wr_version_matrix w') \<and> wrapper_own_pid w' = wrapper_own_pid w \<and>
    wr_gc_markers w' = wr_gc_markers w @ [mk]"
  using assms by (auto simp: push_gc_marker_def wrapper_own_pid_def exec_simps dest: vm_apply_gc_marker_inv)

lemma push_gc_marker_total:
  assumes "vm_inv (wr_version_matrix w)" "wrapper_own_pid w \<notin> set (departed_list (gm_departed_pids mk))"
  obtains w' where "push_gc_marker w mk = Done w'"
  using vm_apply_gc_marker_Done[OF assms(1)] assms(2) unfolding push_gc_marker_def wrapper_own_pid_def
  by (metis exec_bind.simps(1))


section \<open>The invariant\<close>

text \<open>
  The replica in memory has its own row, keeps its identifier and does not take itself for
  departed.
\<close>

definition live_inv :: "('s, 'w) replica \<Rightarrow> bool" where
  "live_inv self \<longleftrightarrow> vm_inv (wr_version_matrix (rp_wrapper self)) \<and>
     wrapper_own_pid (rp_wrapper self) = rp_pid self \<and>
     hm_get (final_dots (wr_version_matrix (rp_wrapper self))) (rp_pid self) = None"

text \<open>Replaying the journal gives \<open>y\<close>.\<close>

definition journal_yields ::
  "('s, 'd, 'x, 'q, 'm, 'r) crdt_ops \<Rightarrow> ('v, 's, 'd, 'x, 'm) codec \<Rightarrow> journal \<times> disk \<Rightarrow>
   's persistent_replica \<Rightarrow> bool" where
  "journal_yields ops c jd y \<longleftrightarrow> jr_enabled (fst jd) \<and>
     (\<exists>x es. disk_holds c (jr_generation (fst jd)) x es (snd jd) \<and> replay_spec ops c x es = Done y)"

text \<open>
  The durable replica agrees with the one in memory on the CRDT, on the markers and on the
  identity. (The rows of peers are not journaled: they are learnt again.)
\<close>

definition agrees :: "'s persistent_replica \<Rightarrow> ('s, 'w) replica \<Rightarrow> bool" where
  "agrees y self \<longleftrightarrow> pr_local_state y = rp_crdt self \<and>
     wr_gc_markers (pr_crdt_wrapper y) = wr_gc_markers (rp_wrapper self) \<and>
     vm_inv (wr_version_matrix (pr_crdt_wrapper y)) \<and> wrapper_own_pid (pr_crdt_wrapper y) = rp_pid self"

definition durable_inv ::
  "('s, 'd, 'x, 'q, 'm, 'r) crdt_ops \<Rightarrow> ('v, 's, 'd, 'x, 'm) codec \<Rightarrow> ('s, 'w) replica \<Rightarrow> bool" where
  "durable_inv ops c self \<longleftrightarrow> live_inv self \<and> (\<exists>y. journal_yields ops c (rp_journal self) y \<and> agrees y self)"

text \<open>
  What is required of the codec: it reads back what it wrote. Encoding may still fail; the
  handler then panics before it changes anything.
\<close>

definition codec_exact :: "('v, 's, 'd, 'x, 'm) codec \<Rightarrow> bool" where
  "codec_exact c \<longleftrightarrow> codec_ok c \<and>
     (\<forall>e. entry_payload c e \<noteq> None \<longrightarrow> reload_entry c e = Some e) \<and>
     (\<forall>x. js_snapshot_to c x \<noteq> None \<longrightarrow> reload_snapshot c x = Some x)"

lemma codec_exactD:
  assumes "codec_exact c"
  shows "codec_ok c" "entry_payload c e \<noteq> None \<Longrightarrow> reload_entry c e = Some e"
    "js_snapshot_to c x \<noteq> None \<Longrightarrow> reload_snapshot c x = Some x"
  using assms by (simp_all add: codec_exact_def)

text \<open>
  A peer does not report this replica as departed, neither in a marker nor by a shutdown
  descriptor in the membership directory.
\<close>

fun event_ok :: "pid \<Rightarrow> ('s, 'd, 'x, 'm, 'w) replica_event \<Rightarrow> bool" where
  "event_ok p (RemoteDelta _ mk) \<longleftrightarrow> p \<notin> set (departed_list (gm_departed_pids mk))"
| "event_ok p (MembershipPolled _ (Some members)) \<longleftrightarrow> p \<notin> set (shutdown_pids members)"
| "event_ok p _ \<longleftrightarrow> True"


section \<open>Turns that write nothing\<close>

definition unwritten :: "('s, 'w) replica \<Rightarrow> ('s, 'w) replica \<Rightarrow> bool" where
  "unwritten self self' \<longleftrightarrow> rp_crdt self' = rp_crdt self \<and> rp_journal self' = rp_journal self \<and>
     rp_pid self' = rp_pid self \<and> wr_gc_markers (rp_wrapper self') = wr_gc_markers (rp_wrapper self) \<and>
     (live_inv self \<longrightarrow> live_inv self')"

lemma unwritten_refl [simp]: "unwritten self self"
  by (simp add: unwritten_def)

lemma unwritten_trans: "unwritten a b \<Longrightarrow> unwritten b c \<Longrightarrow> unwritten a c"
  by (simp add: unwritten_def)

lemma unwritten_durable: "unwritten self self' \<Longrightarrow> durable_inv ops c self \<Longrightarrow> durable_inv ops c self'"
  by (auto simp: unwritten_def durable_inv_def agrees_def)

lemma unwritten_network [simp]:
  "unwritten self (self'\<lparr>rp_network := net\<rparr>) \<longleftrightarrow> unwritten self self'"
  "unwritten self (self'\<lparr>rp_members := ms\<rparr>) \<longleftrightarrow> unwritten self self'"
  by (simp_all add: unwritten_def live_inv_def)

lemma refresh_unwritten:
  assumes "refresh_own_version_vector ops self = Done (self', vv)"
  shows "unwritten self self'"
  using assms
  by (auto simp: refresh_own_version_vector_def update_own_version_vector_def exec_simps Let_def
      unwritten_def live_inv_def wrapper_own_pid_def dest!: vm_update_frame)

lemma matrix_unwritten:
  assumes "own_pid m = own_pid (wr_version_matrix (rp_wrapper self))"
    and "final_dots m = final_dots (wr_version_matrix (rp_wrapper self))"
    and "vm_inv (wr_version_matrix (rp_wrapper self)) \<longrightarrow> vm_inv m"
    and "wr_gc_markers w = wr_gc_markers (rp_wrapper self)" "wr_version_matrix w = m"
  shows "unwritten self (self\<lparr>rp_wrapper := w\<rparr>)"
  using assms by (auto simp: unwritten_def live_inv_def wrapper_own_pid_def)

lemma update_own_frame:
  assumes "update_own_version_vector w vv = Done (w', vv')"
  shows "wr_gc_markers w' = wr_gc_markers w \<and> own_pid (wr_version_matrix w') = own_pid (wr_version_matrix w) \<and>
    final_dots (wr_version_matrix w') = final_dots (wr_version_matrix w) \<and>
    (vm_inv (wr_version_matrix w) \<longrightarrow> vm_inv (wr_version_matrix w'))"
  using assms by (auto simp: update_own_version_vector_def exec_simps Let_def dest!: vm_update_frame)

lemma version_vector_unwritten:
  assumes "handle_version_vector ops send p vv self = Done (self', msg)"
  shows "unwritten self self'"
proof -
  obtain m w2 vv' where m: "vm_update (wr_version_matrix (rp_wrapper self)) p vv = Done m"
    and w2: "update_own_version_vector ((rp_wrapper self)\<lparr>wr_version_matrix := m\<rparr>)
      (dg_version_vector (op_get_delta ops (rp_crdt self) vv)) = Done (w2, vv')"
    and self': "self' = self\<lparr>rp_wrapper := w2\<rparr> \<or>
      (\<exists>net. self' = self\<lparr>rp_wrapper := w2, rp_network := net\<rparr>)"
    using assms unfolding handle_version_vector_def Let_def
    by (cases send) (auto simp: exec_simps split: option.splits)
  have "unwritten self (self\<lparr>rp_wrapper := w2\<rparr>)"
    using vm_update_frame[OF m] update_own_frame[OF w2] by (intro matrix_unwritten) auto
  then show ?thesis using self' by auto
qed

lemma pull_unwritten:
  assumes "pull_delta ops index send self = Done (self', msg)"
  shows "unwritten self self'"
  using assms
  by (cases send) (auto simp: pull_delta_def exec_simps dest!: refresh_unwritten split: option.splits)

lemma vm_inv_observe_all: "vm_inv (wr_version_matrix w) \<Longrightarrow> vm_inv (wr_version_matrix (observe_all ps w))"
proof (induction ps arbitrary: w)
  case (Cons x ps)
  have "vm_inv (wr_version_matrix (observe_active_replica w (fst x) (snd x)))"
    using Cons.prems by (simp add: observe_active_replica_def vm_inv_insert_pid)
  from Cons.IH[OF this] show ?case by (simp add: split_beta)
qed simp

lemma enqueue_unwritten:
  assumes "enqueue_members net members (rp_wrapper self) = (net', w)"
  shows "unwritten self (self\<lparr>rp_wrapper := w\<rparr>)"
proof -
  obtain ps where "w = observe_all ps (rp_wrapper self)" using assms by (auto simp: enqueue_members_def Let_def)
  then show ?thesis by (auto simp: unwritten_def live_inv_def vm_inv_observe_all)
qed

lemma run_start_unwritten: "unwritten self (run_start self)"
proof -
  obtain net w where e: "enqueue_members (rn_start (rp_network self)) (rp_members self) (rp_wrapper self) = (net, w)"
    by fastforce
  show ?thesis using enqueue_unwritten[OF e] by (simp add: run_start_def e unwritten_def live_inv_def)
qed



section \<open>Turns that write\<close>

text \<open>Appending an entry that the codec reads back extends what the journal yields by that entry.\<close>

lemma journal_yields_append:
  assumes "codec_exact c" "journal_yields ops c jd y" "entry_payload c e \<noteq> None"
    and "append_entry c io_ok e jd = Done jd'" "apply_entry ops e y = Done y'"
  shows "journal_yields ops c jd' y'"
proof -
  obtain j d where jd: "jd = (j, d)" by (cases jd)
  obtain x es where x: "disk_holds c (jr_generation j) x es d" "replay_spec ops c x es = Done y" "jr_enabled j"
    using assms(2) by (auto simp: journal_yields_def jd)
  obtain d' where d': "append_entry c io_ok e jd = Done (j, d')" "disk_holds c (jr_generation j) x (es @ [e]) d'"
    using append_entry_holds[OF x(1,3) refl assms(3)] by (auto simp: jd)
  have "replay_spec ops c x (es @ [e]) = Done y'"
    using x(2) assms(5) codec_exactD(2)[OF assms(1,3)] by (simp add: replay_spec_def exec_simps)
  then show ?thesis using d' x(3) assms(4) by (auto simp: journal_yields_def)
qed

lemma append_delta_encodes:
  "append_delta_group c io g jd = Done jd' \<Longrightarrow> jr_enabled (fst jd) \<Longrightarrow> entry_payload c (EntryDelta g) \<noteq> None"
  by (auto simp: append_delta_group_def split: prod.splits option.splits)

lemma append_marker_encodes:
  "append_gc_marker c io k jd = Done jd' \<Longrightarrow> jr_enabled (fst jd) \<Longrightarrow> entry_payload c (EntryMarker k) \<noteq> None"
  by (auto simp: append_gc_marker_def split: prod.splits option.splits)

lemma append_mutation_encodes:
  "append_mutation c io m jd = (jd', Inr u) \<Longrightarrow> jr_enabled (fst jd) \<Longrightarrow> entry_payload c (EntryMutation m) \<noteq> None"
  by (auto simp: append_mutation_def split: prod.splits option.splits)

lemma durable_invE:
  assumes "durable_inv ops c self"
  obtains y where "live_inv self" "journal_yields ops c (rp_journal self) y" "agrees y self"
    "jr_enabled (fst (rp_journal self))"
  using assms by (auto simp: durable_inv_def journal_yields_def)

lemma commit_durable:
  assumes "codec_exact c" "durable_inv ops c self" "commit_delta ops c io_ok delta self = Done self'"
  shows "durable_inv ops c self'"
proof -
  obtain y where y: "live_inv self" "journal_yields ops c (rp_journal self) y" "agrees y self"
    "jr_enabled (fst (rp_journal self))"
    by (rule durable_invE[OF assms(2)])
  obtain jd s where jd: "append_delta_group c io_ok delta (rp_journal self) = Done jd"
    and s: "op_merge_delta_group ops (rp_crdt self) delta = Done s"
    and self': "self' = self\<lparr>rp_journal := jd, rp_crdt := s\<rparr>"
    using assms(3) by (auto simp: commit_delta_def exec_simps)
  have "apply_entry ops (EntryDelta delta) y = Done (y\<lparr>pr_local_state := s\<rparr>)"
    using s y(3) by (simp add: agrees_def)
  from journal_yields_append[OF assms(1) y(2) append_delta_encodes[OF jd y(4)] _ this, of jd] jd
  have "journal_yields ops c jd (y\<lparr>pr_local_state := s\<rparr>)" by simp
  then show ?thesis using y by (auto simp: durable_inv_def self' live_inv_def agrees_def)
qed

lemma mutation_durable:
  assumes "codec_exact c" "durable_inv ops c self"
    and "handle_client_mutation ops c io_ok mutation self = Done (self', response)"
  shows "durable_inv ops c self'"
proof -
  obtain y where y: "live_inv self" "journal_yields ops c (rp_journal self) y" "agrees y self"
    "jr_enabled (fst (rp_journal self))"
    by (rule durable_invE[OF assms(2)])
  obtain jd s u where jd: "append_mutation c io_ok mutation (rp_journal self) = (jd, Inr u)"
    and s: "op_mutate ops (rp_crdt self) mutation = Done (s, response)"
    and self': "self' = self\<lparr>rp_journal := jd, rp_crdt := s\<rparr>"
    using assms(3) by (auto simp: handle_client_mutation_def exec_simps split: prod.splits sum.splits)
  have "apply_entry ops (EntryMutation mutation) y = Done (y\<lparr>pr_local_state := s\<rparr>)"
    using s y(3) by (simp add: agrees_def)
  from journal_yields_append[OF assms(1) y(2) append_mutation_encodes[OF jd y(4)] _ this, of jd] jd
  have "journal_yields ops c jd (y\<lparr>pr_local_state := s\<rparr>)" by simp
  then show ?thesis using y by (auto simp: durable_inv_def self' live_inv_def agrees_def)
qed

lemma marker_live:
  assumes "live_inv self" "rp_pid self \<notin> set (departed_list (gm_departed_pids mk))"
    and "push_gc_marker (rp_wrapper self) mk = Done w"
  shows "live_inv (self\<lparr>rp_journal := jd, rp_crdt := s, rp_wrapper := w\<rparr>)"
  using assms push_gc_marker_frame[OF assms(3)]
  by (auto simp: live_inv_def push_gc_marker_def exec_simps dest: vm_apply_gc_marker_final)

lemma marker_durable:
  assumes "codec_exact c" "durable_inv ops c self" "rp_pid self \<notin> set (departed_list (gm_departed_pids mk))"
    and "replica_apply_gc_marker ops c io_ok mk self = Done self'"
  shows "durable_inv ops c self' \<and> rp_pid self' = rp_pid self"
proof -
  obtain y where y: "live_inv self" "journal_yields ops c (rp_journal self) y" "agrees y self"
    "jr_enabled (fst (rp_journal self))"
    by (rule durable_invE[OF assms(2)])
  let ?s = "op_gc ops (rp_crdt self) (gm_stable mk) (gm_departed_pids mk)"
  obtain jd w where jd: "append_gc_marker c io_ok mk (rp_journal self) = Done jd"
    and w: "push_gc_marker (rp_wrapper self) mk = Done w"
    and self': "self' = self\<lparr>rp_journal := jd, rp_crdt := ?s, rp_wrapper := w\<rparr>"
    using assms(4) by (auto simp: replica_apply_gc_marker_def exec_simps Let_def)
  have own: "wrapper_own_pid (pr_crdt_wrapper y) \<notin> set (departed_list (gm_departed_pids mk))"
    "vm_inv (wr_version_matrix (pr_crdt_wrapper y))"
    using y(3) assms(3) by (simp_all add: agrees_def)
  obtain wy where wy: "push_gc_marker (pr_crdt_wrapper y) mk = Done wy"
    by (rule push_gc_marker_total[OF own(2,1)])
  have "apply_entry ops (EntryMarker mk) y = Done \<lparr>pr_local_state = ?s, pr_crdt_wrapper = wy\<rparr>"
    using y(3) wy by (simp add: agrees_def)
  from journal_yields_append[OF assms(1) y(2) append_marker_encodes[OF jd y(4)] _ this, of jd] jd
  have j: "journal_yields ops c jd \<lparr>pr_local_state = ?s, pr_crdt_wrapper = wy\<rparr>" by simp
  have "live_inv self'" unfolding self' by (rule marker_live[OF y(1) assms(3) w])
  moreover have "agrees \<lparr>pr_local_state = ?s, pr_crdt_wrapper = wy\<rparr> self'"
    using push_gc_marker_frame[OF wy own(2,1)] push_gc_marker_frame[OF w] y(1,3) assms(3)
    by (simp add: self' agrees_def live_inv_def)
  moreover have "rp_journal self' = jd" "rp_pid self' = rp_pid self" by (simp_all add: self')
  ultimately show ?thesis using j unfolding durable_inv_def by metis
qed


text \<open>The departed a replica itself reports do not include it, since it has no final dot for itself.\<close>

lemma own_not_departed:
  assumes "get_stable m = Done (Some st, departed)" "hm_get (final_dots m) p = None"
  shows "p \<notin> set (departed_list departed)"
  using get_stable_Some[OF assms(1)] assms(2) by (auto simp: set_departed_pids split: if_splits)

lemma validate_unwritten:
  "validate_gc_membership ans previous descriptor self = (self', valid, fx) \<Longrightarrow> unwritten self self'"
  by (auto simp: validate_gc_membership_def Let_def split: option.splits if_splits)

lemma complete_durable:
  assumes "codec_exact c" "durable_inv ops c self" "rp_pid self \<notin> set (departed_list (gm_departed_pids mk))"
    and "complete_local_gc ops c io_ok ans mk self = Done (self', completed, fx)"
  shows "durable_inv ops c self' \<and> rp_pid self' = rp_pid self"
proof -
  obtain self1 where s1: "replica_apply_gc_marker ops c io_ok mk self = Done self1" and "unwritten self1 self'"
    using assms(4)
    by (auto simp: complete_local_gc_def exec_simps Let_def gc_departed_pids_def split: if_splits option.splits)
  then show ?thesis using marker_durable[OF assms(1-3) s1] unwritten_durable unfolding unwritten_def by metis
qed

text \<open>
  How a round ends: nothing is due, the descriptor of the new epoch could not be created, the
  membership moved, or the collection is carried out.
\<close>

abbreviation epoch_descriptor :: "('s, 'w) replica \<Rightarrow> replica_descriptor" where
  "epoch_descriptor self \<equiv> \<lparr>rd_pid = rp_pid self, rd_address = rp_address self,
     rd_gc_counter = dot_counter (next_gc_marker (rp_wrapper self)), rd_final_counter = None\<rparr>"

lemma init_gc_due:
  assumes "refresh_own_version_vector ops self = Done (s1, vv)" "needs_gc (rp_wrapper s1) = Done True"
    and "get_stable (wr_version_matrix (rp_wrapper s1)) = Done (Some st, departed)"
  shows "init_gc ops c io ans self =
    (if sa_create ans \<noteq> Some True then Done (s1, [CreateDescriptor (epoch_descriptor s1)])
     else case validate_gc_membership ans (membership_gc_counters_by_pid (rp_members s1)) (epoch_descriptor s1) s1 of
       (s2, valid, fx2) \<Rightarrow>
         if \<not> valid then Done (s2, CreateDescriptor (epoch_descriptor s1) # fx2)
         else exec_map (\<lambda>(s3, completed, fx3). (s3, CreateDescriptor (epoch_descriptor s1) # fx2 @ fx3 @
                (if completed then [DeleteDescriptor (own_descriptor s1)] else [])))
           (complete_local_gc ops c io ans \<lparr>gm_marker = next_gc_marker (rp_wrapper s1), gm_stable = st,
              gm_departed_pids = departed\<rparr> s2))"
proof -
  obtain s2 valid fx2 where v: "validate_gc_membership ans (membership_gc_counters_by_pid (rp_members s1))
      (epoch_descriptor s1) s1 = (s2, valid, fx2)"
    by (metis prod_cases3)
  show ?thesis
    by (cases "complete_local_gc ops c io ans \<lparr>gm_marker = next_gc_marker (rp_wrapper s1), gm_stable = st,
          gm_departed_pids = departed\<rparr> s2")
      (auto simp: init_gc_def assms change_own_gc_counter_def Let_def v split: prod.splits)
qed

lemma init_gc_cases:
  assumes "init_gc ops c io ans self = Done (self', fx)"
  obtains (idle) s1 vv where "refresh_own_version_vector ops self = Done (s1, vv)" "self' = s1" "fx = []"
  | (taken) s1 vv where "refresh_own_version_vector ops self = Done (s1, vv)" "self' = s1"
      "sa_create ans \<noteq> Some True" "fx = [CreateDescriptor (epoch_descriptor s1)]"
  | (aborted) s1 vv fx2 where "refresh_own_version_vector ops self = Done (s1, vv)" "sa_create ans = Some True"
      "validate_gc_membership ans (membership_gc_counters_by_pid (rp_members s1)) (epoch_descriptor s1) s1 =
         (self', False, fx2)"
      "fx = CreateDescriptor (epoch_descriptor s1) # fx2"
  | (collected) s1 vv s2 st departed completed fx2 fx3
    where "refresh_own_version_vector ops self = Done (s1, vv)" "sa_create ans = Some True"
      "needs_gc (rp_wrapper s1) = Done True"
      "get_stable (wr_version_matrix (rp_wrapper s1)) = Done (Some st, departed)"
      "validate_gc_membership ans (membership_gc_counters_by_pid (rp_members s1)) (epoch_descriptor s1) s1 =
         (s2, True, fx2)"
      "complete_local_gc ops c io ans \<lparr>gm_marker = next_gc_marker (rp_wrapper s1), gm_stable = st,
         gm_departed_pids = departed\<rparr> s2 = Done (self', completed, fx3)"
      "fx = CreateDescriptor (epoch_descriptor s1) # fx2 @ fx3 @
         (if completed then [DeleteDescriptor (own_descriptor s1)] else [])"
proof -
  obtain s1 vv due where r: "refresh_own_version_vector ops self = Done (s1, vv)"
    and due: "needs_gc (rp_wrapper s1) = Done due"
    using assms by (auto simp: init_gc_def exec_simps)
  show thesis
  proof (cases due)
    case False
    then show thesis using assms r due idle by (simp add: init_gc_def)
  next
    case True
    obtain now departed where get: "get_stable (wr_version_matrix (rp_wrapper s1)) = Done (now, departed)"
      using due by (auto simp: needs_gc_def exec_simps)
    show thesis
    proof (cases now)
      case None
      then show thesis using assms r due get True idle[OF r] by (simp add: init_gc_def)
    next
      case (Some st)
      note round = init_gc_due[OF r due[unfolded eqTrueI[OF True]] get[unfolded Some], of c io ans]
      obtain s2 valid fx2 where v: "validate_gc_membership ans (membership_gc_counters_by_pid (rp_members s1))
          (epoch_descriptor s1) s1 = (s2, valid, fx2)"
        by (metis prod_cases3)
      show thesis
        using assms r due get True Some v taken[OF r] aborted[OF r] collected[OF r]
        by (cases valid; cases "sa_create ans = Some True") (auto simp: round exec_simps)
    qed
  qed
qed

lemma init_gc_durable:
  assumes "codec_exact c" "durable_inv ops c self" "init_gc ops c io_ok ans self = Done (self', fx)"
  shows "durable_inv ops c self' \<and> rp_pid self' = rp_pid self"
  using assms(3)
proof (cases rule: init_gc_cases)
  case (idle s1 vv)
  then show ?thesis using refresh_unwritten[OF idle(1)] unwritten_durable[OF _ assms(2)]
    unfolding unwritten_def by metis
next
  case (taken s1 vv)
  then show ?thesis using refresh_unwritten[OF taken(1)] unwritten_durable[OF _ assms(2)]
    unfolding unwritten_def by metis
next
  case (aborted s1 vv fx2)
  have "unwritten self self'"
    by (rule unwritten_trans[OF refresh_unwritten[OF aborted(1)] validate_unwritten[OF aborted(3)]])
  then show ?thesis using unwritten_durable[OF _ assms(2)] unfolding unwritten_def by metis
next
  case (collected s1 vv s2 st departed completed fx2 fx3)
  have u: "unwritten self s1" "unwritten s1 s2"
    using refresh_unwritten[OF collected(1)] validate_unwritten[OF collected(5)] by auto
  have d: "durable_inv ops c s1" "durable_inv ops c s2"
    using unwritten_durable[OF u(1) assms(2)] unwritten_durable[OF u(2)] by auto
  have "hm_get (final_dots (wr_version_matrix (rp_wrapper s1))) (rp_pid s1) = None"
    using d(1) by (simp add: durable_inv_def live_inv_def)
  then have "rp_pid s2 \<notin> set (departed_list departed)"
    using own_not_departed[OF collected(4)] u(2) by (simp add: unwritten_def)
  then show ?thesis using complete_durable[OF assms(1) d(2) _ collected(6)] u by (simp add: unwritten_def)
qed

definition durable_keeps ::
  "('s, 'd, 'x, 'q, 'm, 'r) crdt_ops \<Rightarrow> ('v, 's, 'd, 'x, 'm) codec \<Rightarrow> ('s, 'w) replica \<Rightarrow> ('s, 'w) replica \<Rightarrow> bool" where
  "durable_keeps ops c self self' \<longleftrightarrow> durable_inv ops c self' \<and> rp_pid self' = rp_pid self"

lemma unwritten_keeps: "unwritten self self' \<Longrightarrow> durable_inv ops c self \<Longrightarrow> durable_keeps ops c self self'"
  using unwritten_durable by (auto simp: durable_keeps_def unwritten_def)

lemma keeps_trans: "durable_keeps ops c a b \<Longrightarrow> durable_keeps ops c b d \<Longrightarrow> durable_keeps ops c a d"
  by (simp add: durable_keeps_def)

lemma keeps_fold:
  assumes "durable_keeps ops c self s" "exec_fold f xs s = Done t"
    and "\<And>x u v. x \<in> set xs \<Longrightarrow> durable_inv ops c u \<Longrightarrow> rp_pid u = rp_pid self \<Longrightarrow> f x u = Done v \<Longrightarrow>
      durable_keeps ops c u v"
  shows "durable_keeps ops c self t"
proof (rule exec_fold_invariant[where P = "durable_keeps ops c self", OF _ assms(1,2)])
  fix x u v
  assume "x \<in> set xs" "durable_keeps ops c self u" "f x u = Done v"
  then show "durable_keeps ops c self v" using assms(3)[of x u v] by (simp add: durable_keeps_def)
qed

lemma commit_keeps:
  assumes "codec_exact c" "durable_inv ops c self" "commit_delta ops c io_ok delta self = Done self'"
  shows "durable_keeps ops c self self'"
  using commit_durable[OF assms] assms(3) by (auto simp: durable_keeps_def commit_delta_def exec_simps)

lemma observe_gc_keeps:
  assumes "codec_exact c" "durable_inv ops c self" "rp_pid self \<notin> set (departed_list (gm_departed_pids mk))"
    and "observe_gc ops c io_ok mk self = Done self'"
  shows "durable_keeps ops c self self'"
  using assms marker_durable[OF assms(1-3)]
  by (auto simp: observe_gc_def durable_keeps_def split: if_splits)

lemma refresh_keeps:
  assumes "durable_inv ops c self" "refresh_own_version_vector ops self = Done (self', vv)"
  shows "durable_keeps ops c self self'"
  by (rule unwritten_keeps[OF refresh_unwritten[OF assms(2)] assms(1)])

lemma handle_delta_keeps:
  assumes "codec_exact c" "durable_inv ops c self" "rp_pid self \<notin> set (departed_list (gm_departed_pids mk))"
    and "handle_delta ops c io_ok delta mk self = Done self'"
  shows "durable_keeps ops c self self'"
proof (cases "gc_counter (dg_version_vector delta) < dot_counter (current_gc_marker (rp_wrapper self))")
  case True
  then show ?thesis using assms(2,4) by (simp add: handle_delta_def durable_keeps_def)
next
  case False
  then obtain s1 s2 vv where s: "observe_gc ops c io_ok mk self = Done s1" "commit_delta ops c io_ok delta s1 = Done s2"
    "refresh_own_version_vector ops s2 = Done (self', vv)"
    using assms(4) by (auto simp: handle_delta_def exec_simps)
  have 1: "durable_keeps ops c self s1" by (rule observe_gc_keeps[OF assms(1-3) s(1)])
  then have 2: "durable_keeps ops c s1 s2" using commit_keeps[OF assms(1) _ s(2)] by (simp add: durable_keeps_def)
  then have "durable_keeps ops c s2 self'" using refresh_keeps[OF _ s(3), of c] by (simp add: durable_keeps_def)
  with 1 2 show ?thesis by (auto intro: keeps_trans)
qed

lemma merge_payload_keeps:
  assumes "codec_exact c" "durable_inv ops c self"
    and "merge_shutdown_payload ops c io_ok payload self = Done (self', merged)"
  shows "durable_keeps ops c self self'"
proof -
  consider "self' = self" | vv where "refresh_own_version_vector ops self = Done (self', vv)"
    | delta s1 vv where "commit_delta ops c io_ok delta self = Done s1"
        "refresh_own_version_vector ops s1 = Done (self', vv)"
    using assms(3)
    by (auto simp: merge_shutdown_payload_def exec_simps Let_def split: option.splits if_splits)
  then show ?thesis
  proof cases
    case 1
    then show ?thesis using assms(2) by (simp add: durable_keeps_def)
  next
    case 2
    then show ?thesis by (rule refresh_keeps[OF assms(2)])
  next
    case 3
    then show ?thesis using commit_keeps[OF assms(1,2) 3(1)] refresh_keeps[OF _ 3(2)]
      by (auto simp: durable_keeps_def)
  qed
qed

lemma observe_departed_unwritten:
  assumes "dot_pid d \<noteq> rp_pid self"
  shows "unwritten self (self\<lparr>rp_wrapper := observe_departed_replica (rp_wrapper self) d, rp_network := net\<rparr>)"
  using assms
  by (auto simp: unwritten_def live_inv_def observe_departed_replica_def insert_final_dot_def vm_inv_def wrapper_own_pid_def)

lemma shutdown_descriptor_keeps:
  assumes "codec_exact c" "durable_inv ops c self" "rd_pid descriptor \<noteq> rp_pid self"
    and "handle_shutdown_descriptor ops c io_ok payloads descriptor self = Done self'"
  shows "durable_keeps ops c self self'"
proof -
  obtain n where n: "rd_final_counter descriptor = Some n"
    using assms(4) by (auto simp: handle_shutdown_descriptor_def exec_simps)
  consider "self' = self" | s1 merged where
      "merge_shutdown_payload ops c io_ok (payloads descriptor) self = Done (s1, merged)"
      "self' = s1 \<or> (\<exists>net. self' = s1\<lparr>rp_wrapper := observe_departed_replica (rp_wrapper s1) (Dot (rd_pid descriptor) n),
          rp_network := net\<rparr>)"
    using assms(4) n
    by (auto simp: handle_shutdown_descriptor_def exec_simps Let_def split: if_splits)
  then show ?thesis
  proof cases
    case 1
    then show ?thesis using assms(2) by (simp add: durable_keeps_def)
  next
    case 2
    have m: "durable_keeps ops c self s1" by (rule merge_payload_keeps[OF assms(1,2) 2(1)])
    from 2(2) show ?thesis
      using m unwritten_keeps[OF observe_departed_unwritten[of "Dot (rd_pid descriptor) n" s1], of ops c] assms(3)
      by (auto simp: durable_keeps_def)
  qed
qed

lemma membership_poll_keeps:
  assumes "codec_exact c" "durable_inv ops c self" "event_ok (rp_pid self) (MembershipPolled payloads polled)"
    and "apply_membership_poll ops c io_ok payloads polled self = Done self'"
  shows "durable_keeps ops c self self'"
proof (cases polled)
  case None
  then show ?thesis using assms by (simp add: apply_membership_poll_def durable_keeps_def)
next
  case (Some members)
  obtain net w where e: "enqueue_members (rp_network self) members (rp_wrapper self) = (net, w)" by fastforce
  let ?s = "self\<lparr>rp_members := members, rp_network := net, rp_wrapper := w\<rparr>"
  have "unwritten self ?s"
    using enqueue_unwritten[OF e] by (simp add: unwritten_def live_inv_def)
  then have start: "durable_keeps ops c self ?s" by (rule unwritten_keeps[OF _ assms(2)])
  have others: "\<forall>d \<in> set (filter is_shutdown members). rd_pid d \<noteq> rp_pid self"
    using assms(3) by (force simp: Some shutdown_pids_def)
  have "exec_fold (handle_shutdown_descriptor ops c io_ok payloads) (filter is_shutdown members) ?s = Done self'"
    using assms(4) by (simp add: Some apply_membership_poll_def e)
  from start this show ?thesis
  proof (rule keeps_fold)
    fix d u v
    assume "d \<in> set (filter is_shutdown members)" "durable_inv ops c u" "rp_pid u = rp_pid self"
      "handle_shutdown_descriptor ops c io_ok payloads d u = Done v"
    then show "durable_keeps ops c u v" using shutdown_descriptor_keeps[OF assms(1), of ops u d payloads v] others by simp
  qed
qed

lemma replica_step_keeps:
  assumes "codec_exact c" "durable_inv ops c self" "event_ok (rp_pid self) ev"
    and "replica_step ops c io_ok ev self = Done self'"
  shows "durable_keeps ops c self self'"
proof (cases ev)
  case (ClientMutation mutation)
  then obtain r where "handle_client_mutation ops c io_ok mutation self = Done (self', r)"
    using assms(4) by (auto simp: exec_simps)
  with mutation_durable[OF assms(1,2) this] show ?thesis
    by (auto simp: durable_keeps_def handle_client_mutation_def exec_simps split: prod.splits sum.splits)
next
  case LocalMutation
  then show ?thesis using assms(4) refresh_keeps[OF assms(2)] by (auto simp: exec_simps)
next
  case (RemoteDelta delta mk)
  then show ?thesis using assms(3,4) handle_delta_keeps[OF assms(1,2)] by simp
next
  case (RemoteVersionVector send p vv)
  then show ?thesis using assms(4) unwritten_keeps[OF version_vector_unwritten assms(2)]
    by (auto simp: exec_simps)
next
  case (PeerWriter p w)
  then show ?thesis using assms(4) unwritten_keeps[OF _ assms(2), of self'] by auto
next
  case (SyncTick index send)
  then show ?thesis using assms(4) unwritten_keeps[OF pull_unwritten assms(2)] by (auto simp: exec_simps)
next
  case (GcTick ans)
  then show ?thesis using assms(4) init_gc_durable[OF assms(1,2)] by (auto simp: durable_keeps_def exec_simps)
next
  case (MembershipPolled payloads polled)
  then show ?thesis using assms(3,4) membership_poll_keeps[OF assms(1,2)] by simp
qed

lemma replica_run_keeps:
  assumes "codec_exact c" "durable_inv ops c self" "\<forall>ev \<in> set events. event_ok (rp_pid self) ev"
    and "replica_run ops c io_ok events self = Done self'"
  shows "durable_keeps ops c self self'"
proof -
  have "durable_keeps ops c self (run_start self)" by (rule unwritten_keeps[OF run_start_unwritten assms(2)])
  then show ?thesis
  proof (rule keeps_fold)
    show "exec_fold (replica_step ops c io_ok) events (run_start self) = Done self'"
      using assms(4) by (simp add: replica_run_def)
  next
    fix ev u v
    assume "ev \<in> set events" "durable_inv ops c u" "rp_pid u = rp_pid self" "replica_step ops c io_ok ev u = Done v"
    then show "durable_keeps ops c u v" using replica_step_keeps[OF assms(1)] assms(3) by metis
  qed
qed


section \<open>Starting and restarting\<close>

lemma append_snapshot_yields:
  assumes "codec_exact c" "jr_enabled (fst jd)" "append_snapshot c io_ok x jd = Done jd'"
  shows "journal_yields ops c jd' x"
proof -
  obtain j d where jd: "jd = (j, d)" by (cases jd)
  obtain v where v: "js_snapshot_to c x = Some v"
    using assms(2,3)
    by (auto simp: jd append_snapshot_def replace_snapshot_and_clear_log_locked_def Let_def split: option.splits)
  then have reload: "reload_snapshot c x = Some x" using codec_exactD(3)[OF assms(1), of x] by simp
  have "jr_enabled j" using assms(2) by (simp add: jd)
  from append_snapshot_holds[OF this v, of d] assms(2,3) reload show ?thesis
    by (auto simp: jd journal_yields_def replay_spec_def intro!: exI[of _ x] exI[of _ "[]"])
qed

lemma register_frame:
  assumes "register_and_list_members ans self = Done (self', fx)"
  shows "unwritten self self' \<and> fx = [CreateDescriptor (own_descriptor self)]"
  using assms by (auto simp: register_and_list_members_def exec_simps split: if_splits)

lemma rebind_facts:
  "vm_inv (wr_version_matrix (wrapper_rebind_own_pid w p vv)) \<longleftrightarrow> p \<noteq> STABLE_REPLICA_PID"
  "wrapper_own_pid (wrapper_rebind_own_pid w p vv) = p"
  "wr_gc_markers (wrapper_rebind_own_pid w p vv) = wr_gc_markers w"
  "final_dots (wr_version_matrix (wrapper_rebind_own_pid w p vv)) = final_dots (wr_version_matrix w)"
  by (simp_all add: wrapper_rebind_own_pid_def vm_rebind_own_pid_def Let_def vm_inv_def wrapper_own_pid_def)

lemma bootstrap_durable:
  assumes "codec_exact c" "jr_enabled (fst (rp_journal self))" "live_inv self"
    and "\<forall>x. stored = Some (Some x) \<longrightarrow> hm_get (final_dots (wr_version_matrix (pr_crdt_wrapper x))) (rp_pid self) = None"
    and "bootstrap_from_object_storage ops c io_ok ans stored self = Done (self', fx)"
  shows "durable_keeps ops c self self'"
proof -
  obtain found s1 fx1 where found: "stored = Some found" and s1: "register_and_list_members ans self = Done (s1, fx1)"
    using assms(5) by (auto simp: bootstrap_from_object_storage_def exec_simps split: option.splits)
  have u: "unwritten self s1" using register_frame[OF s1] ..
  then have f: "rp_pid s1 = rp_pid self" "rp_journal s1 = rp_journal self" "live_inv s1"
    using assms(3) by (simp_all add: unwritten_def)
  note step = assms(5)[unfolded bootstrap_from_object_storage_def found option.case s1 exec_bind.simps prod.case]
  show ?thesis
  proof (cases found)
    case None
    then obtain jd where jd: "append_snapshot c io_ok (persistent_of s1) (rp_journal self) = Done jd"
      and self': "self' = s1\<lparr>rp_journal := jd\<rparr>"
      using step by (auto simp: persist_durable_snapshot_def exec_simps f)
    have "agrees (persistent_of s1) self'" "live_inv self'"
      using f(3) by (simp_all add: self' agrees_def persistent_of_def live_inv_def)
    then show ?thesis using append_snapshot_yields[OF assms(1,2) jd] f(1)
      by (auto simp: durable_keeps_def durable_inv_def self')
  next
    case (Some x)
    let ?y = "pr_rebind_own_pid ops x (rp_pid self)"
    obtain jd where jd: "append_snapshot c io_ok ?y (rp_journal self) = Done jd"
      and self': "self' = s1\<lparr>rp_journal := jd, rp_crdt := pr_local_state ?y, rp_wrapper := pr_crdt_wrapper ?y\<rparr>"
      using step by (auto simp: Some exec_simps f Let_def)
    have "rp_pid self \<noteq> STABLE_REPLICA_PID"
      using assms(3) by (auto simp: live_inv_def vm_inv_def wrapper_own_pid_def)
    then have "agrees ?y self'" "live_inv self'"
      using assms(4) found f(1) Some
      by (simp_all add: self' agrees_def live_inv_def pr_rebind_own_pid_def Let_def rebind_facts)
    then show ?thesis using append_snapshot_yields[OF assms(1,2) jd] f(1)
      by (auto simp: durable_keeps_def durable_inv_def self')
  qed
qed

text \<open>A first start on files without a snapshot.\<close>

lemma first_start_durable:
  assumes "codec_exact c" "jr_enabled j" "d_snapshot d = None" "p \<noteq> STABLE_REPLICA_PID"
    and "\<forall>x. stored = Some (Some x) \<longrightarrow> hm_get (final_dots (wr_version_matrix (pr_crdt_wrapper x))) p = None"
    and "with_config ops c io_ok ans stored p crdt addr (j, d) = Done (self, fx)"
  shows "durable_inv ops c self \<and> rp_pid self = p"
proof -
  let ?crdt = "op_set_pid ops crdt p"
  let ?self = "\<lparr>rp_crdt = ?crdt, rp_wrapper = wrapper_rebind_own_pid (wrapper_new p) p (op_get_version_vector ops ?crdt),
    rp_pid = p, rp_address = addr, rp_network = rn_new p, rp_journal = (j, d), rp_members = []\<rparr>"
  have boot: "bootstrap_from_object_storage ops c io_ok ans stored ?self = Done (self, fx)"
    using assms(2,3,6)
    by (auto simp: with_config_def journal_recover_def recover_locked_def effective_pid_def Let_def exec_simps
        split: option.splits if_splits)
  have "live_inv ?self" using assms(4)
    by (simp add: live_inv_def rebind_facts) (simp add: wrapper_new_def vm_new_def Let_def)
  then show ?thesis using bootstrap_durable[OF assms(1) _ _ _ boot] assms(2,5)
    by (auto simp: durable_keeps_def)
qed

text \<open>A restart on the files of a replica.\<close>

lemma restart_restores:
  assumes "codec_exact c" "durable_inv ops c self" "sa_create ans \<noteq> None" "sa_list ans = Some members"
  shows "\<exists>j self' fx. journal_new c Locked (snd (rp_journal self)) = Inr j \<and>
    with_config ops c io ans stored p crdt addr (j, snd (rp_journal self)) = Done (self', fx) \<and>
    rp_crdt self' = op_set_pid ops (rp_crdt self) (rp_pid self) \<and> rp_pid self' = rp_pid self \<and>
    wr_gc_markers (rp_wrapper self') = wr_gc_markers (rp_wrapper self) \<and> rp_members self' = members \<and>
    fx = [CreateDescriptor ((own_descriptor self)\<lparr>rd_address := addr\<rparr>)]"
proof -
  obtain y where y: "journal_yields ops c (rp_journal self) y" "agrees y self" by (rule durable_invE[OF assms(2)])
  obtain j d where jd: "rp_journal self = (j, d)" by (cases "rp_journal self")
  obtain x es where x: "disk_holds c (jr_generation j) x es d" "replay_spec ops c x es = Done y" "jr_enabled j"
    using y(1) by (auto simp: journal_yields_def jd)
  have "journal_new c Locked d = Inr j"
    using journal_new_holds[OF codec_exactD(1)[OF assms(1)], of "jr_generation j" x d] x(1,3)
    by (simp add: disk_holds_def)
  moreover have "journal_recover ops c io (j, d) = Done ((j, d), Inr (Some y))"
    using recover_disk_holds[OF codec_exactD(1)[OF assms(1)] x(1), of ops io j] x(2,3)
    by (simp add: journal_recover_def)
  ultimately show ?thesis using assms(3,4) y(2)
    by (auto simp: with_config_def jd effective_pid_def Let_def register_and_list_members_def agrees_def
        rebind_facts own_descriptor_def current_gc_marker_def)
qed


text \<open>
  For a CRDT that keeps identities apart from contents, clients and peers cannot tell a restarted
  replica from the one that stopped.
\<close>

context identified_crdt
begin

lemma restart_invisible:
  fixes self :: "('s, 'w) replica"
  assumes "codec_exact c" "durable_inv ops c self" "sa_create ans \<noteq> None" "sa_list ans = Some members"
  shows "\<exists>j (self' :: ('s, 'w) replica) fx. journal_new c Locked (snd (rp_journal self)) = Inr j \<and>
    with_config ops c io ans stored p crdt addr (j, snd (rp_journal self)) = Done (self', fx) \<and>
    rp_pid self' = rp_pid self \<and> wr_gc_markers (rp_wrapper self') = wr_gc_markers (rp_wrapper self) \<and>
    (\<forall>q. op_query ops (rp_crdt self') q = op_query ops (rp_crdt self) q) \<and>
    op_get_version_vector ops (rp_crdt self') = op_get_version_vector ops (rp_crdt self) \<and>
    (\<forall>vv. op_get_delta ops (rp_crdt self') vv = op_get_delta ops (rp_crdt self) vv)"
proof -
  obtain j fx and self' :: "('s, 'w) replica" where r: "journal_new c Locked (snd (rp_journal self)) = Inr j"
    "with_config ops c io ans stored p crdt addr (j, snd (rp_journal self)) = Done (self', fx)"
    "rp_crdt self' = op_set_pid ops (rp_crdt self) (rp_pid self)" "rp_pid self' = rp_pid self"
    "wr_gc_markers (rp_wrapper self') = wr_gc_markers (rp_wrapper self)"
    using restart_restores[OF assms, of io stored p crdt addr] by metis
  show ?thesis
    by (intro exI conjI, rule r(1), rule r(2), rule r(4), rule r(5))
      (simp_all add: r(3) set_pid_query set_pid_version_vector set_pid_get_delta)
qed

end


section \<open>A replica for closed examples\<close>

text \<open>A counter whose records are read back exactly; snapshots of other replicas are not encodable.\<close>

definition counter_wrapper :: crdt_wrapper where
  "counter_wrapper = wrapper_rebind_own_pid (wrapper_new 7) 7 dotset_new"

definition counter_delta :: "(unit, unit) delta_group" where
  "counter_delta = \<lparr>dg_list = [()], dg_side_effects = None, dg_version_vector = dotset_of [(0, 1), (8, 4)]\<rparr>"

definition exact_codec :: "(nat, nat, unit, unit, nat) codec" where
  "exact_codec = counter_codec
     \<lparr>js_snapshot_to := (\<lambda>x. if pr_crdt_wrapper x = counter_wrapper then Some (pr_local_state x) else None),
      js_snapshot_from := (\<lambda>v. Some \<lparr>pr_local_state = v, pr_crdt_wrapper = counter_wrapper\<rparr>),
      js_delta_to := (\<lambda>g. if g = counter_delta then Some 0 else None), js_delta_from := (\<lambda>_. Some counter_delta),
      js_marker_to := (\<lambda>k. if k = example_marker then Some 1 else None), js_marker_from := (\<lambda>_. Some example_marker)\<rparr>"

lemma exact_codec_exact: "codec_exact exact_codec"
proof -
  have "entry_payload exact_codec e \<noteq> None \<longrightarrow> reload_entry exact_codec e = Some e" for e
    by (cases e) (simp_all add: exact_codec_def counter_codec_def)
  moreover have "js_snapshot_to exact_codec x \<noteq> None \<longrightarrow> reload_snapshot exact_codec x = Some x" for x
    by (cases x) (simp add: exact_codec_def reload_snapshot_def)
  moreover have "js_to_vec exact_codec = js_to_vec counter_codec" "js_from_slice exact_codec = js_from_slice counter_codec"
    by (simp_all add: exact_codec_def)
  ultimately show ?thesis using counter_codec_ok
    unfolding codec_exact_def codec_ok_def by (auto simp: exact_codec_def)
qed

definition example_answers :: storage_answers where
  "example_answers = \<lparr>sa_create = Some True, sa_list = Some [], sa_relist = Some [], sa_write_persistent = True,
     sa_delete_ok = (\<lambda>_. True)\<rparr>"

definition example_addr :: socket_addr where
  "example_addr = SocketAddrV4 (127, 0, 0, 1) 80"

abbreviation fresh_disk :: disk where
  "fresh_disk \<equiv> \<lparr>d_snapshot = None, d_mutations = None\<rparr>"

definition example_start :: "((nat, unit) replica \<times> nat storage_effect list) exec" where
  "example_start = with_config counter_ops exact_codec io_ok example_answers (Some None) 7 0 example_addr
     (\<lparr>jr_enabled = True, jr_generation = 0\<rparr>, fresh_disk)"

definition example_events :: "(nat, unit, unit, nat, unit) replica_event list" where
  "example_events = [ClientMutation 5, LocalMutation, PeerWriter 8 (), RemoteDelta counter_delta example_marker,
     ClientMutation 2, SyncTick 0 SendOk]"

lemma example_run_done:
  "case exec_bind example_start (\<lambda>(self0, _). replica_run counter_ops exact_codec io_ok example_events self0) of
     Done self \<Rightarrow> rp_crdt self = 7 \<and> current_gc_marker (rp_wrapper self) = Dot 0 1 | Panicked _ \<Rightarrow> False"
  by code_simp


section \<open>Properties\<close>

text \<open>
  C2: a restart resumes where the replica stopped. A replica is started on empty files, from
  scratch or from the persistent state of object storage, and runs through any sequence of
  client mutations, remote deltas, pulls, collection rounds and membership polls. Stopped at any
  point between two of them, a process started on its files with whatever identifier and initial
  state recovers the identity, the CRDT (with its identifier set again) and every collection
  marker, and registers under the epoch the replica had reached.
\<close>

theorem crash_recovery:
  assumes "codec_exact c" "jr_enabled j" "d_snapshot d = None" "p \<noteq> STABLE_REPLICA_PID"
    and "\<forall>x. stored = Some (Some x) \<longrightarrow> hm_get (final_dots (wr_version_matrix (pr_crdt_wrapper x))) p = None"
    and "with_config ops c io_ok ans stored p crdt addr (j, d) = Done (self0, fx0)"
    and "\<forall>ev \<in> set events. event_ok p ev" "replica_run ops c io_ok events self0 = Done self"
    and "sa_create ans' \<noteq> None" "sa_list ans' = Some members"
  shows "\<exists>j' self' fx. journal_new c Locked (snd (rp_journal self)) = Inr j' \<and>
    with_config ops c io ans' stored' p' crdt' addr' (j', snd (rp_journal self)) = Done (self', fx) \<and>
    rp_pid self' = p \<and> rp_crdt self' = op_set_pid ops (rp_crdt self) p \<and>
    wr_gc_markers (rp_wrapper self') = wr_gc_markers (rp_wrapper self) \<and> rp_members self' = members \<and>
    fx = [CreateDescriptor ((own_descriptor self)\<lparr>rd_address := addr'\<rparr>)]"
proof -
  have start: "durable_inv ops c self0" "rp_pid self0 = p" using first_start_durable[OF assms(1-6)] by auto
  have "durable_keeps ops c self0 self"
    using replica_run_keeps[OF assms(1) start(1) _ assms(8)] assms(7) start(2) by simp
  then have "durable_inv ops c self" "rp_pid self = p" using start(2) by (simp_all add: durable_keeps_def)
  then show ?thesis
    using restart_restores[OF assms(1) _ assms(9,10), of ops self io stored' p' crdt' addr'] by metis
qed

theorem crash_recovery_witness:
  "codec_exact exact_codec \<and> d_snapshot fresh_disk = None \<and> (7 :: pid) \<noteq> STABLE_REPLICA_PID \<and>
   list_all (event_ok 7) example_events \<and>
   (\<exists>self0 fx0 self. example_start = Done (self0, fx0) \<and>
      replica_run counter_ops exact_codec io_ok example_events self0 = Done self \<and> rp_crdt self = 7 \<and>
      (\<exists>j' (self' :: (nat, unit) replica) fx. journal_new exact_codec Locked (snd (rp_journal self)) = Inr j' \<and>
         with_config counter_ops exact_codec io_ok example_answers None 9 100 example_addr
           (j', snd (rp_journal self)) = Done (self', fx) \<and>
         rp_pid self' = 7 \<and> rp_crdt self' = op_set_pid counter_ops (rp_crdt self) 7 \<and>
         wr_gc_markers (rp_wrapper self') = wr_gc_markers (rp_wrapper self) \<and> rp_members self' = [] \<and>
         fx = [CreateDescriptor ((own_descriptor self)\<lparr>rd_address := example_addr\<rparr>)]))"
proof -
  obtain self0 fx0 self where run: "example_start = Done (self0, fx0)"
    "replica_run counter_ops exact_codec io_ok example_events self0 = Done self" "rp_crdt self = 7"
    using example_run_done by (auto simp: exec_simps split: exec.splits)
  have pid: "(7 :: pid) \<noteq> STABLE_REPLICA_PID" by (simp add: STABLE_REPLICA_PID_def)
  have ev: "list_all (event_ok 7) example_events" by code_simp
  have evs: "\<forall>ev \<in> set example_events. event_ok 7 ev" using ev by (simp add: list_all_iff)
  have h: "jr_enabled \<lparr>jr_enabled = True, jr_generation = 0\<rparr>" "d_snapshot fresh_disk = None"
    "\<forall>x. Some None = Some (Some x) \<longrightarrow> hm_get (final_dots (wr_version_matrix (pr_crdt_wrapper (x :: nat persistent_replica)))) 7 = None"
    "sa_create example_answers \<noteq> None" "sa_list example_answers = Some []"
    by (simp_all add: example_answers_def)
  show ?thesis
    using exact_codec_exact h(2) pid ev run
      crash_recovery[OF exact_codec_exact h(1,2) pid h(3) run(1)[unfolded example_start_def] evs run(2) h(4,5),
        of io_ok None 9 100 example_addr]
    by blast
qed

end
