(* ===== verification/Replica_Protocol.thy ===== *)
theory Replica_Protocol
  imports Replica_Durability "HOL-Library.Sublist"
begin

text \<open>
  The protocol steps of a replica: no turn of the event loop panics and the epochs only grow;
  a collection round is carried out exactly when the membership did not move; what a remote
  delta does to the state; how a departed replica is absorbed.
\<close>

section \<open>The invariant of the event loop\<close>

definition replica_inv :: "('s, 'w) replica \<Rightarrow> bool" where
  "replica_inv self \<longleftrightarrow> wrapper_inv (rp_wrapper self) \<and> wrapper_own_pid (rp_wrapper self) = rp_pid self \<and>
     hm_get (final_dots (wr_version_matrix (rp_wrapper self))) (rp_pid self) = None"

text \<open>What the loop needs of the CRDT and of the codec: they do not fail.\<close>

definition ops_total :: "('s, 'd, 'x, 'q, 'm, 'r) crdt_ops \<Rightarrow> bool" where
  "ops_total ops \<longleftrightarrow> (\<forall>s m. \<exists>s' r. op_mutate ops s m = Done (s', r)) \<and>
     (\<forall>s g. \<exists>s'. op_merge_delta_group ops s g = Done s')"

definition codec_total :: "('v, 's, 'd, 'x, 'm) codec \<Rightarrow> bool" where
  "codec_total c \<longleftrightarrow> (\<forall>e. entry_payload c e \<noteq> None)"

text \<open>A peer does not speak in this replica's name.\<close>

fun event_honest :: "pid \<Rightarrow> ('s, 'd, 'x, 'm, 'w) replica_event \<Rightarrow> bool" where
  "event_honest p (RemoteVersionVector _ q _) \<longleftrightarrow> q \<noteq> p"
| "event_honest p ev \<longleftrightarrow> event_ok p ev"

text \<open>
  A turn of the loop keeps the invariant and the identity and only extends the list of markers.
\<close>

definition advances :: "('s, 'w) replica \<Rightarrow> ('s, 'w) replica \<Rightarrow> bool" where
  "advances self self' \<longleftrightarrow> replica_inv self' \<and> rp_pid self' = rp_pid self \<and>
     prefix (wr_gc_markers (rp_wrapper self)) (wr_gc_markers (rp_wrapper self'))"

lemma advances_refl: "replica_inv self \<Longrightarrow> advances self self"
  by (simp add: advances_def)

lemma advances_trans: "advances a b \<Longrightarrow> advances b c \<Longrightarrow> advances a c"
  by (auto simp: advances_def intro: prefix_order.trans)

lemma advances_inv: "advances a b \<Longrightarrow> replica_inv b"
  by (simp add: advances_def)

lemma advances_same_wrapper:
  "advances a b \<Longrightarrow> rp_wrapper b' = rp_wrapper b \<Longrightarrow> rp_pid b' = rp_pid b \<Longrightarrow> advances a b'"
  by (auto simp: advances_def replica_inv_def)

lemma append_record_ok:
  obtains d' where "append_record_locked c io_ok j t v d = (d', Inr ())"
  by (simp add: append_record_locked_def io_ok_def Let_def)

lemma append_entry_total:
  assumes "codec_total c"
  obtains jd' where "append_entry c io_ok e jd = Done jd'"
proof -
  obtain j d where jd: "jd = (j, d)" by (cases jd)
  obtain v where "entry_payload c e = Some v" using assms unfolding codec_total_def by blast
  moreover obtain d' where "append_record_locked c io_ok j (entry_type e) v d = (d', Inr ())"
    by (rule append_record_ok)
  ultimately have "\<exists>jd'. append_entry c io_ok e jd = Done jd'"
    by (cases e; cases "jr_enabled j") (auto simp: jd append_delta_group_def append_gc_marker_def)
  then show thesis using that by blast
qed

lemma append_mutation_total:
  assumes "codec_total c"
  obtains jd' where "append_mutation c io_ok m jd = (jd', Inr ())"
proof -
  obtain j d where jd: "jd = (j, d)" by (cases jd)
  obtain v where "entry_payload c (EntryMutation m) = Some v" using assms unfolding codec_total_def by blast
  moreover obtain d' where "append_record_locked c io_ok j ''mutation'' v d = (d', Inr ())"
    by (rule append_record_ok)
  ultimately have "\<exists>jd'. append_mutation c io_ok m jd = (jd', Inr ())"
    by (cases "jr_enabled j") (auto simp: jd append_mutation_def)
  then show thesis using that by blast
qed


section \<open>No turn panics\<close>

lemma refresh_advances:
  assumes "replica_inv self"
  obtains self' vv where "refresh_own_version_vector ops self = Done (self', vv)" "advances self self'"
    "rp_crdt self' = rp_crdt self" "rp_network self' = rp_network self" "rp_members self' = rp_members self"
    "vv = set_counter (op_get_version_vector ops (rp_crdt self)) STABLE_REPLICA_PID
       (dot_counter (current_gc_marker (rp_wrapper self)))"
    "wr_gc_markers (rp_wrapper self') = wr_gc_markers (rp_wrapper self)"
    "rp_journal self' = rp_journal self"
proof -
  have "wrapper_inv (rp_wrapper self)" using assms by (simp add: replica_inv_def)
  from update_own_version_vector_Done[OF this] obtain w where
    w: "update_own_version_vector (rp_wrapper self) (op_get_version_vector ops (rp_crdt self)) =
      Done (w, set_counter (op_get_version_vector ops (rp_crdt self)) STABLE_REPLICA_PID
        (dot_counter (current_gc_marker (rp_wrapper self))))"
    "wrapper_inv w" "wrapper_own_pid w = wrapper_own_pid (rp_wrapper self)"
    "wr_gc_markers w = wr_gc_markers (rp_wrapper self)"
    by blast
  have "replica_inv (self\<lparr>rp_wrapper := w\<rparr>)"
    using assms w(2,3) update_own_frame[OF w(1)] by (simp add: replica_inv_def)
  then show thesis using w(1,4)
    by (intro that[of "self\<lparr>rp_wrapper := w\<rparr>"]) (simp_all add: refresh_own_version_vector_def advances_def)
qed

lemma commit_advances:
  assumes "ops_total ops" "codec_total c" "replica_inv self"
  obtains self' where "commit_delta ops c io_ok delta self = Done self'" "advances self self'"
    "op_merge_delta_group ops (rp_crdt self) delta = Done (rp_crdt self')"
    "rp_wrapper self' = rp_wrapper self"
proof -
  obtain jd where jd: "append_delta_group c io_ok delta (rp_journal self) = Done jd"
    using append_entry_total[OF assms(2), of "EntryDelta delta" "rp_journal self"] by auto
  obtain s where s: "op_merge_delta_group ops (rp_crdt self) delta = Done s"
    using assms(1) unfolding ops_total_def by blast
  show thesis
    by (rule that[of "self\<lparr>rp_journal := jd, rp_crdt := s\<rparr>"])
      (use jd s assms(3) in \<open>simp_all add: commit_delta_def advances_def replica_inv_def\<close>)
qed

lemma marker_advances:
  assumes "codec_total c" "replica_inv self" "rp_pid self \<notin> set (departed_list (gm_departed_pids mk))"
    and "dot_counter (current_gc_marker (rp_wrapper self)) < dot_counter (gm_marker mk)"
  obtains self' where "replica_apply_gc_marker ops c io_ok mk self = Done self'" "advances self self'"
    "rp_crdt self' = op_gc ops (rp_crdt self) (gm_stable mk) (gm_departed_pids mk)"
    "wr_gc_markers (rp_wrapper self') = wr_gc_markers (rp_wrapper self) @ [mk]"
    "rp_members self' = rp_members self"
proof -
  obtain jd where jd: "append_gc_marker c io_ok mk (rp_journal self) = Done jd"
    using append_entry_total[OF assms(1), of "EntryMarker mk" "rp_journal self"] by auto
  have i: "wrapper_inv (rp_wrapper self)" "wrapper_own_pid (rp_wrapper self) = rp_pid self"
    "hm_get (final_dots (wr_version_matrix (rp_wrapper self))) (rp_pid self) = None"
    using assms(2) by (simp_all add: replica_inv_def)
  obtain w where w: "push_gc_marker (rp_wrapper self) mk = Done w" "wrapper_inv w"
    "wrapper_own_pid w = rp_pid self" "wr_gc_markers w = wr_gc_markers (rp_wrapper self) @ [mk]"
    using push_gc_marker_Done[OF i(1) _ assms(4)] i(2) assms(3) by auto
  have "hm_get (final_dots (wr_version_matrix w)) (rp_pid self) = None"
    using w(1) i(3) by (auto simp: push_gc_marker_def exec_simps dest: vm_apply_gc_marker_final)
  then show thesis
    by (intro that[of "self\<lparr>rp_journal := jd,
        rp_crdt := op_gc ops (rp_crdt self) (gm_stable mk) (gm_departed_pids mk), rp_wrapper := w\<rparr>"])
      (use jd w in \<open>simp_all add: replica_apply_gc_marker_def advances_def replica_inv_def\<close>)
qed

lemma observe_gc_advances:
  assumes "codec_total c" "replica_inv self" "rp_pid self \<notin> set (departed_list (gm_departed_pids mk))"
  obtains self' where "observe_gc ops c io_ok mk self = Done self'" "advances self self'"
  using assms marker_advances[OF assms] advances_refl[OF assms(2)]
  by (cases "dot_pid (gm_marker mk) \<noteq> STABLE_REPLICA_PID \<or>
      dot_counter (gm_marker mk) \<le> dot_counter (current_gc_marker (rp_wrapper self))")
    (auto simp: observe_gc_def not_le)

lemma handle_delta_advances:
  assumes "ops_total ops" "codec_total c" "replica_inv self"
    and "rp_pid self \<notin> set (departed_list (gm_departed_pids mk))"
  obtains self' where "handle_delta ops c io_ok delta mk self = Done self'" "advances self self'"
proof (cases "gc_counter (dg_version_vector delta) < dot_counter (current_gc_marker (rp_wrapper self))")
  case True
  then show thesis using that advances_refl[OF assms(3)] by (simp add: handle_delta_def)
next
  case False
  obtain s1 where s1: "observe_gc ops c io_ok mk self = Done s1" "advances self s1"
    by (rule observe_gc_advances[OF assms(2-4)])
  obtain s2 where s2: "commit_delta ops c io_ok delta s1 = Done s2" "advances s1 s2"
    by (rule commit_advances[OF assms(1,2) advances_inv[OF s1(2)]])
  obtain s3 vv where s3: "refresh_own_version_vector ops s2 = Done (s3, vv)" "advances s2 s3"
    by (rule refresh_advances[OF advances_inv[OF s2(2)]])
  show thesis
    by (rule that[of s3]) (use False s1 s2 s3 in \<open>auto simp: handle_delta_def intro: advances_trans\<close>)
qed

text \<open>A peer's version vector changes the peer's row only.\<close>

lemma vm_update_wrapper_inv:
  assumes "wrapper_inv w" "p \<noteq> wrapper_own_pid w" "vm_update (wr_version_matrix w) p vv = Done m"
  shows "wrapper_inv (w\<lparr>wr_version_matrix := m\<rparr>)"
proof -
  have "hm_get (matrix m) (own_pid m) = hm_get (matrix (wr_version_matrix w)) (own_pid (wr_version_matrix w))"
    "vm_inv m" "own_pid m = own_pid (wr_version_matrix w)"
    using assms vm_update_frame[OF assms(3)]
    by (auto simp: vm_update_def exec_simps wrapper_own_pid_def wrapper_inv_def split: if_splits)
  then show ?thesis using assms(1) by (simp add: wrapper_inv_def marker_counters_def)
qed

lemma version_vector_advances:
  assumes "replica_inv self" "p \<noteq> rp_pid self"
  obtains self' msg where "handle_version_vector ops send p vv self = Done (self', msg)" "advances self self'"
    "rp_crdt self' = rp_crdt self"
    "rn_writer (rp_network self) p \<noteq> None \<Longrightarrow> send = SendOk \<Longrightarrow>
      (\<exists>md. msg = Some (MsgDeltaGroup ((op_get_delta ops (rp_crdt self) vv)\<lparr>dg_version_vector :=
         set_counter (dg_version_vector (op_get_delta ops (rp_crdt self) vv)) STABLE_REPLICA_PID
           (dot_counter (current_gc_marker (rp_wrapper self)))\<rparr>) md) \<and>
       dot_counter (gm_marker md) = dot_counter (current_gc_marker (rp_wrapper self)) \<and>
       gm_departed_pids md = (case last_opt (wr_gc_markers (rp_wrapper self)) of
          Some mk \<Rightarrow> gm_departed_pids mk | None \<Rightarrow> None))"
proof -
  let ?w = "rp_wrapper self" and ?g = "op_get_delta ops (rp_crdt self) vv"
  have i: "wrapper_inv ?w" "wrapper_own_pid ?w = rp_pid self" using assms(1) by (simp_all add: replica_inv_def)
  have "vm_inv (wr_version_matrix ?w)" using i(1) by (simp add: wrapper_inv_def)
  then obtain m where m: "vm_update (wr_version_matrix ?w) p vv = Done m" using vm_update_Done by blast
  let ?w1 = "?w\<lparr>wr_version_matrix := m\<rparr>"
  have w1: "wrapper_inv ?w1" using vm_update_wrapper_inv[OF i(1) _ m] assms(2) i(2) by simp
  obtain w2 where w2: "update_own_version_vector ?w1 (dg_version_vector ?g) =
      Done (w2, set_counter (dg_version_vector ?g) STABLE_REPLICA_PID (dot_counter (current_gc_marker ?w)))"
    "wrapper_inv w2" "wr_gc_markers w2 = wr_gc_markers ?w"
    using update_own_version_vector_Done[OF w1, of "dg_version_vector ?g"] by auto
  have f: "own_pid (wr_version_matrix w2) = own_pid (wr_version_matrix ?w)"
    "final_dots (wr_version_matrix w2) = final_dots (wr_version_matrix ?w)"
    using vm_update_frame[OF m] update_own_frame[OF w2(1)] by simp_all
  obtain md where md: "gc_metadata w2 = Done md"
    "dot_counter (gm_marker md) = dot_counter (current_gc_marker ?w)"
    "gm_departed_pids md = (case last_opt (wr_gc_markers ?w) of Some mk \<Rightarrow> gm_departed_pids mk | None \<Rightarrow> None)"
    using get_stable_Done[of "wr_version_matrix w2"] w2(2,3)
    by (cases "last_opt (wr_gc_markers ?w)") (auto simp: gc_metadata_def wrapper_inv_def current_gc_marker_def)
  have adv: "advances self (self\<lparr>rp_wrapper := w2, rp_network := net\<rparr>)" for net
    using assms(1) w2(2,3) f by (simp add: advances_def replica_inv_def wrapper_own_pid_def)
  have adv0: "advances self (self\<lparr>rp_wrapper := w2\<rparr>)" by (rule advances_same_wrapper[OF adv]) simp_all
  obtain self' msg where r: "handle_version_vector ops send p vv self = Done (self', msg)"
    "self' = self\<lparr>rp_wrapper := w2\<rparr> \<or> (\<exists>net. self' = self\<lparr>rp_wrapper := w2, rp_network := net\<rparr>)"
    by (cases send; cases "rn_writer (rp_network self) p")
      (auto simp: handle_version_vector_def m w2(1) md(1) Let_def)
  show thesis
  proof (rule that[OF r(1)])
    show "advances self self'" "rp_crdt self' = rp_crdt self" using r(2) adv adv0 by auto
  qed (use r(1) md in \<open>auto simp: handle_version_vector_def m w2(1) Let_def split: option.splits\<close>)
qed

text \<open>A version vector that is not of an earlier epoch becomes the peer's row.\<close>

lemma version_vector_row:
  assumes "handle_version_vector ops send p vv self = Done (self', msg)" "replica_inv self" "p \<noteq> rp_pid self"
    and "dot_counter (current_gc_marker (rp_wrapper self)) \<le> gc_counter vv"
  shows "hm_get (matrix (wr_version_matrix (rp_wrapper self'))) p = Some vv"
proof -
  let ?m = "wr_version_matrix (rp_wrapper self)"
  obtain m w2 vv' where m: "vm_update ?m p vv = Done m"
    and w2: "update_own_version_vector ((rp_wrapper self)\<lparr>wr_version_matrix := m\<rparr>)
      (dg_version_vector (op_get_delta ops (rp_crdt self) vv)) = Done (w2, vv')"
    and self': "rp_wrapper self' = w2"
    using assms(1) unfolding handle_version_vector_def Let_def
    by (cases send) (auto simp: exec_simps split: option.splits)
  obtain row where row: "hm_get (matrix ?m) (own_pid ?m) = Some row" "gc_counter row \<le> gc_counter vv"
    using assms(2,4) by (force simp: replica_inv_def wrapper_inv_def vm_inv_def)
  then have "hm_get (matrix m) p = Some vv" using m by (auto simp: vm_update_def)
  moreover have "own_pid m \<noteq> p" using vm_update_frame[OF m] assms(2,3) by (auto simp: replica_inv_def wrapper_own_pid_def)
  ultimately show ?thesis using w2
    by (auto simp: self' update_own_version_vector_def Let_def exec_simps wrapper_own_pid_def vm_update_def
        split: if_splits)
qed

lemma pull_advances:
  assumes "replica_inv self"
  obtains self' msg where "pull_delta ops index send self = Done (self', msg)" "advances self self'"
proof -
  obtain s1 vv where s1: "refresh_own_version_vector ops self = Done (s1, vv)" "advances self s1"
    by (rule refresh_advances[OF assms])
  have "advances self (s1\<lparr>rp_network := net\<rparr>)" for net by (rule advances_same_wrapper[OF s1(2)]) simp_all
  then show thesis using that s1 advances_refl[OF assms]
    by (cases "random_writer index (rp_network self)"; cases send) (auto simp: pull_delta_def)
qed

lemma validate_frame:
  assumes "validate_gc_membership ans previous descriptor self = (self', valid, fx)"
  shows "rp_wrapper self' = rp_wrapper self \<and> rp_pid self' = rp_pid self \<and> rp_crdt self' = rp_crdt self \<and>
    rp_journal self' = rp_journal self"
  using assms by (auto simp: validate_gc_membership_def Let_def split: option.splits if_splits)

lemma needs_gc_Done:
  assumes "wrapper_inv w"
  obtains due where "needs_gc w = Done due"
  using get_stable_Done[of "wr_version_matrix w"] assms by (auto simp: needs_gc_def wrapper_inv_def)

text \<open>A carried out collection: the marker is applied, then the writes to object storage follow.\<close>

lemma complete_advances:
  assumes "codec_total c" "replica_inv self" "rp_pid self \<notin> set (departed_list (gm_departed_pids mk))"
    and "dot_counter (current_gc_marker (rp_wrapper self)) < dot_counter (gm_marker mk)"
  obtains self' where "complete_local_gc ops c io_ok ans mk self =
      Done (self', sa_write_persistent ans, WritePersistentReplica (persistent_of self') #
        (if sa_write_persistent ans then map DeleteDescriptorsFor (departed_list (gm_departed_pids mk)) else []))"
    "advances self self'" "rp_crdt self' = op_gc ops (rp_crdt self) (gm_stable mk) (gm_departed_pids mk)"
    "wr_gc_markers (rp_wrapper self') = wr_gc_markers (rp_wrapper self) @ [mk]"
proof -
  obtain s1 where s1: "replica_apply_gc_marker ops c io_ok mk self = Done s1" "advances self s1"
    "rp_crdt s1 = op_gc ops (rp_crdt self) (gm_stable mk) (gm_departed_pids mk)"
    "wr_gc_markers (rp_wrapper s1) = wr_gc_markers (rp_wrapper self) @ [mk]"
    by (rule marker_advances[OF assms])
  have adv: "advances self (s1\<lparr>rp_members := ms\<rparr>)" for ms by (rule advances_same_wrapper[OF s1(2)]) simp_all
  show thesis
  proof (cases "sa_write_persistent ans \<and> gm_departed_pids mk \<noteq> None")
    case True
    then obtain ps where ps: "gm_departed_pids mk = Some ps" by auto
    show thesis
      by (rule that[of "fst (gc_departed_pids ans ps s1)"])
        (use True ps s1 adv in \<open>simp_all add: complete_local_gc_def gc_departed_pids_def persistent_of_def\<close>)
  next
    case False
    then show thesis using that[of s1] s1
      by (cases "gm_departed_pids mk") (auto simp: complete_local_gc_def)
  qed
qed

lemma init_gc_advances:
  assumes "codec_total c" "replica_inv self" "dot_counter (current_gc_marker (rp_wrapper self)) < i64_max"
  obtains self' fx where "init_gc ops c io_ok ans self = Done (self', fx)" "advances self self'"
proof -
  obtain s1 vv where s1: "refresh_own_version_vector ops self = Done (s1, vv)" "advances self s1"
    "wr_gc_markers (rp_wrapper s1) = wr_gc_markers (rp_wrapper self)"
    by (rule refresh_advances[OF assms(2)])
  have i: "wrapper_inv (rp_wrapper s1)" "hm_get (final_dots (wr_version_matrix (rp_wrapper s1))) (rp_pid s1) = None"
    using s1(2) by (auto simp: advances_def replica_inv_def)
  have cur: "current_gc_marker (rp_wrapper s1) = current_gc_marker (rp_wrapper self)"
    using s1(3) by (simp add: current_gc_marker_def)
  obtain due where due: "needs_gc (rp_wrapper s1) = Done due" by (rule needs_gc_Done[OF i(1)])
  obtain now departed where get: "get_stable (wr_version_matrix (rp_wrapper s1)) = Done (now, departed)"
    using due by (auto simp: needs_gc_def exec_simps)
  show thesis
  proof (cases "due \<and> now \<noteq> None \<and> sa_create ans = Some True")
    case False
    then have "\<exists>fx. init_gc ops c io_ok ans self = Done (s1, fx)"
      by (auto simp: init_gc_def s1(1) due get change_own_gc_counter_def Let_def split: option.splits)
    then show thesis using that s1(2) by blast
  next
    case True
    then obtain st where now: "now = Some st" by auto
    note round = init_gc_due[OF s1(1) due[unfolded eqTrueI[OF conjunct1[OF True]]] get[unfolded now], of c io_ok ans]
    obtain s2 valid fx2 where v: "validate_gc_membership ans (membership_gc_counters_by_pid (rp_members s1))
        (epoch_descriptor s1) s1 = (s2, valid, fx2)"
      by (metis prod_cases3)
    have s2: "advances self s2" using advances_same_wrapper[OF s1(2)] validate_frame[OF v] by simp
    let ?mk = "\<lparr>gm_marker = next_gc_marker (rp_wrapper s1), gm_stable = st, gm_departed_pids = departed\<rparr>"
    have later: "dot_counter (current_gc_marker (rp_wrapper s2)) < dot_counter (gm_marker ?mk)"
      using next_gc_marker_counter[OF _ i(1)] assms(3) cur validate_frame[OF v] by simp
    have own: "rp_pid s2 \<notin> set (departed_list (gm_departed_pids ?mk))"
      using own_not_departed[OF get[unfolded now] i(2)] validate_frame[OF v] by simp
    obtain s3 fx3 where s3: "complete_local_gc ops c io_ok ans ?mk s2 = Done (s3, sa_write_persistent ans, fx3)"
      "advances s2 s3"
      by (rule complete_advances[OF assms(1) advances_inv[OF s2] own later])
    show thesis using that round v s2 s3 True by (cases valid) (auto intro: advances_trans)
  qed
qed

lemma merge_payload_advances:
  assumes "ops_total ops" "codec_total c" "replica_inv self"
  obtains self' merged where "merge_shutdown_payload ops c io_ok payload self = Done (self', merged)"
    "advances self self'"
proof -
  have adv: "\<exists>self' merged. merge_shutdown_payload ops c io_ok (Some (Some s)) self = Done (self', merged) \<and>
      advances self self'" for s
  proof -
    let ?delta = "op_get_delta ops s (op_get_version_vector ops (rp_crdt self))"
    obtain s1 where s1: "commit_delta ops c io_ok ?delta self = Done s1" "advances self s1"
      by (rule commit_advances[OF assms])
    obtain s2 vv where s2: "refresh_own_version_vector ops s1 = Done (s2, vv)" "advances s1 s2"
      by (rule refresh_advances[OF advances_inv[OF s1(2)]])
    obtain s3 vv' where s3: "refresh_own_version_vector ops self = Done (s3, vv')" "advances self s3"
      by (rule refresh_advances[OF assms(3)])
    show ?thesis using s1 s2 s3
      by (cases "dg_list ?delta = []") (auto simp: merge_shutdown_payload_def Let_def intro: advances_trans)
  qed
  show thesis using that adv advances_refl[OF assms(3)]
    by (cases payload; cases "the payload") (auto simp: merge_shutdown_payload_def)
qed

lemma shutdown_descriptor_advances:
  assumes "ops_total ops" "codec_total c" "replica_inv self" "is_shutdown descriptor" "rd_pid descriptor \<noteq> rp_pid self"
  obtains self' where "handle_shutdown_descriptor ops c io_ok payloads descriptor self = Done self'" "advances self self'"
proof -
  obtain n where n: "rd_final_counter descriptor = Some n" using assms(4) by (auto simp: is_shutdown_def)
  obtain s1 merged where s1: "merge_shutdown_payload ops c io_ok (payloads descriptor) self = Done (s1, merged)"
    "advances self s1"
    by (rule merge_payload_advances[OF assms(1-3)])
  have i: "replica_inv s1" "rp_pid s1 = rp_pid self" using s1(2) by (simp_all add: advances_def)
  have "replica_inv (s1\<lparr>rp_wrapper := observe_departed_replica (rp_wrapper s1) (Dot (rd_pid descriptor) n),
      rp_network := net\<rparr>)" for net
    using i assms(5) wrapper_inv_observe_departed[of "rp_wrapper s1"]
    by (auto simp: replica_inv_def) (auto simp: observe_departed_replica_def insert_final_dot_def wrapper_own_pid_def)
  then have "advances s1 (s1\<lparr>rp_wrapper := observe_departed_replica (rp_wrapper s1) (Dot (rd_pid descriptor) n),
      rp_network := net\<rparr>)" for net
    using i by (simp add: advances_def observe_departed_replica_def)
  then have d: "advances self (s1\<lparr>rp_wrapper := observe_departed_replica (rp_wrapper s1) (Dot (rd_pid descriptor) n),
      rp_network := net\<rparr>)" for net
    by (rule advances_trans[OF s1(2)])
  show thesis
    using that s1 d advances_refl[OF assms(3)] n
    by (cases "should_fetch_departed_replica (rp_wrapper self) (Dot (rd_pid descriptor) n)"; cases merged)
      (simp_all add: handle_shutdown_descriptor_def Let_def)
qed

lemma shutdown_fold_advances:
  assumes "ops_total ops" "codec_total c" "replica_inv self"
    and "\<forall>d \<in> set ds. is_shutdown d \<and> rd_pid d \<noteq> rp_pid self"
  shows "\<exists>self'. exec_fold (handle_shutdown_descriptor ops c io_ok payloads) ds self = Done self' \<and> advances self self'"
  using assms(3,4)
proof (induction ds arbitrary: self)
  case Nil
  then show ?case by (simp add: advances_refl)
next
  case (Cons d ds)
  then obtain s1 where s1: "handle_shutdown_descriptor ops c io_ok payloads d self = Done s1" "advances self s1"
    using shutdown_descriptor_advances[OF assms(1,2), of self d payloads] by auto
  have "replica_inv s1" "\<forall>d \<in> set ds. is_shutdown d \<and> rd_pid d \<noteq> rp_pid s1"
    using s1(2) Cons.prems(2) by (simp_all add: advances_def)
  from Cons.IH[OF this] s1 show ?case by (auto intro: advances_trans)
qed

lemma enqueue_advances:
  assumes "replica_inv self" "enqueue_members net members (rp_wrapper self) = (net', w)"
    and "rp_wrapper self' = w" "rp_pid self' = rp_pid self"
  shows "advances self self'"
proof -
  obtain ps where "w = observe_all ps (rp_wrapper self)" using assms(2) by (auto simp: enqueue_members_def Let_def)
  then show ?thesis using assms by (simp add: advances_def replica_inv_def wrapper_inv_observe_all)
qed

lemma membership_poll_advances:
  assumes "ops_total ops" "codec_total c" "replica_inv self" "event_ok (rp_pid self) (MembershipPolled payloads polled)"
  obtains self' where "apply_membership_poll ops c io_ok payloads polled self = Done self'" "advances self self'"
proof (cases polled)
  case None
  then show thesis using that advances_refl[OF assms(3)] by (simp add: apply_membership_poll_def)
next
  case (Some members)
  obtain net w where e: "enqueue_members (rp_network self) members (rp_wrapper self) = (net, w)" by fastforce
  let ?s = "self\<lparr>rp_members := members, rp_network := net, rp_wrapper := w\<rparr>"
  have s: "advances self ?s" by (rule enqueue_advances[OF assms(3) e]) simp_all
  have "\<forall>d \<in> set (filter is_shutdown members). is_shutdown d \<and> rd_pid d \<noteq> rp_pid ?s"
    using assms(4) by (force simp: Some shutdown_pids_def)
  from shutdown_fold_advances[OF assms(1,2) advances_inv[OF s] this] s show thesis
    using that by (auto simp: apply_membership_poll_def Some e intro: advances_trans)
qed

lemma replica_step_advances:
  assumes "ops_total ops" "codec_total c" "replica_inv self" "event_honest (rp_pid self) ev"
    and "dot_counter (current_gc_marker (rp_wrapper self)) < i64_max"
  shows "\<exists>self'. replica_step ops c io_ok ev self = Done self' \<and> advances self self'"
proof (cases ev)
  case (ClientMutation mutation)
  obtain jd where jd: "append_mutation c io_ok mutation (rp_journal self) = (jd, Inr ())"
    by (rule append_mutation_total[OF assms(2)])
  obtain s r where "op_mutate ops (rp_crdt self) mutation = Done (s, r)"
    using assms(1) unfolding ops_total_def by blast
  then show ?thesis using ClientMutation jd assms(3)
    by (simp add: handle_client_mutation_def advances_def replica_inv_def)
next
  case LocalMutation
  then show ?thesis using refresh_advances[OF assms(3), of ops] by (metis exec_map.simps(1) fst_conv replica_step.simps(2))
next
  case (RemoteDelta delta mk)
  then show ?thesis using handle_delta_advances[OF assms(1-3), of mk delta] assms(4) by auto
next
  case (RemoteVersionVector send p vv)
  then have "p \<noteq> rp_pid self" using assms(4) by simp
  from version_vector_advances[OF assms(3) this, of ops send vv] RemoteVersionVector show ?thesis
    by (metis exec_map.simps(1) fst_conv replica_step.simps(4))
next
  case (PeerWriter p w)
  then show ?thesis using assms(3) by (simp add: advances_def replica_inv_def)
next
  case (SyncTick index send)
  then show ?thesis using pull_advances[OF assms(3), of ops index send]
    by (metis exec_map.simps(1) fst_conv replica_step.simps(6))
next
  case (GcTick ans)
  then show ?thesis using init_gc_advances[OF assms(2,3,5), of ops ans]
    by (metis exec_map.simps(1) fst_conv replica_step.simps(7))
next
  case (MembershipPolled payloads polled)
  then show ?thesis using membership_poll_advances[OF assms(1-3), of payloads polled] assms(4) by auto
qed


section \<open>Validating the membership\<close>

text \<open>The counter kept for a process is the largest of its descriptors.\<close>

lemma membership_gc_counters_get:
  "case hm_get (membership_gc_counters_by_pid members) p of
     None \<Rightarrow> \<forall>d \<in> set members. rd_pid d \<noteq> p
   | Some gc \<Rightarrow> (\<exists>d \<in> set members. rd_pid d = p \<and> rd_gc_counter d = gc) \<and>
       (\<forall>d \<in> set members. rd_pid d = p \<longrightarrow> rd_gc_counter d \<le> gc)"
proof (induction members rule: rev_induct)
  case Nil
  then show ?case by (simp add: membership_gc_counters_by_pid_def)
next
  case (snoc d members)
  have step: "hm_get (membership_gc_counters_by_pid (members @ [d])) p =
      (if p = rd_pid d then Some (case hm_get (membership_gc_counters_by_pid members) p of
           Some gc \<Rightarrow> max gc (rd_gc_counter d) | None \<Rightarrow> rd_gc_counter d)
       else hm_get (membership_gc_counters_by_pid members) p)"
    by (auto simp: membership_gc_counters_by_pid_def split: option.splits)
  show ?case using snoc by (auto simp: step max_def split: option.splits)
qed

definition membership_quiet :: "pid \<Rightarrow> replica_descriptor list \<Rightarrow> replica_descriptor list \<Rightarrow> bool" where
  "membership_quiet own before now \<longleftrightarrow> (\<forall>d \<in> set now. rd_pid d \<noteq> own \<longrightarrow>
     (\<exists>d' \<in> set before. rd_pid d' = rd_pid d \<and> rd_gc_counter d \<le> rd_gc_counter d'))"

lemma validate_gc_membership_exact:
  assumes "validate_gc_membership ans (membership_gc_counters_by_pid before) descriptor self = (self', valid, fx)"
  shows "valid \<longleftrightarrow> (\<exists>now. sa_list ans = Some now \<and> membership_quiet (rp_pid self) before now)"
    and "fx = (if valid then [] else [DeleteDescriptor descriptor])"
proof -
  let ?old = "membership_gc_counters_by_pid before"
  have quiet: "list_all (\<lambda>(p, counter). p = rp_pid self \<or>
        (case hm_get ?old p of Some old \<Rightarrow> counter \<le> old | None \<Rightarrow> False)) (hm_iter (membership_gc_counters_by_pid now)) \<longleftrightarrow>
      membership_quiet (rp_pid self) before now" (is "?l now \<longleftrightarrow> ?r now") for now
  proof
    assume l: "?l now"
    show "?r now" unfolding membership_quiet_def
    proof (intro ballI impI)
      fix d assume d: "d \<in> set now" "rd_pid d \<noteq> rp_pid self"
      then obtain gc where gc: "hm_get (membership_gc_counters_by_pid now) (rd_pid d) = Some gc" "rd_gc_counter d \<le> gc"
        using membership_gc_counters_get[of now "rd_pid d"] by (auto split: option.splits)
      then obtain old where "hm_get ?old (rd_pid d) = Some old" "gc \<le> old"
        using l d(2) by (force simp: list_all_iff split: option.splits)
      then show "\<exists>d' \<in> set before. rd_pid d' = rd_pid d \<and> rd_gc_counter d \<le> rd_gc_counter d'"
        using gc(2) membership_gc_counters_get[of before "rd_pid d"] by force
    qed
  next
    assume r: "?r now"
    have "case hm_get ?old p of Some old \<Rightarrow> counter \<le> old | None \<Rightarrow> False"
      if h: "hm_get (membership_gc_counters_by_pid now) p = Some counter" "p \<noteq> rp_pid self" for p counter
    proof -
      obtain d where d: "d \<in> set now" "rd_pid d = p" "rd_gc_counter d = counter"
        using membership_gc_counters_get[of now p] unfolding h(1) option.case by blast
      then obtain d' where "d' \<in> set before" "rd_pid d' = p" "counter \<le> rd_gc_counter d'"
        using r h(2) unfolding membership_quiet_def by blast
      then show ?thesis using membership_gc_counters_get[of before p] by (force split: option.splits)
    qed
    then show "?l now" by (fastforce simp: list_all_iff)
  qed
  show "valid \<longleftrightarrow> (\<exists>now. sa_list ans = Some now \<and> membership_quiet (rp_pid self) before now)"
    using assms by (cases "sa_list ans") (auto simp: validate_gc_membership_def Let_def quiet split: if_splits)
  show "fx = (if valid then [] else [DeleteDescriptor descriptor])"
    using assms by (cases "sa_list ans") (auto simp: validate_gc_membership_def Let_def quiet split: if_splits)
qed


section \<open>An exchange between two replicas\<close>

lemma anti_entropy_exchange:
  assumes "codec_total c" "replica_inv a" "replica_inv b" "rp_pid a \<noteq> rp_pid b"
    and "dot_counter (current_gc_marker (rp_wrapper a)) = epoch" "dot_counter (current_gc_marker (rp_wrapper b)) = epoch"
    and "random_writer index (rp_network a) = Some (rp_pid b, w)" "rn_writer (rp_network b) (rp_pid a) \<noteq> None"
    and "vv = set_counter (op_get_version_vector ops (rp_crdt a)) STABLE_REPLICA_PID epoch"
    and "g = op_get_delta ops (rp_crdt b) vv"
    and "delta = g\<lparr>dg_version_vector := set_counter (dg_version_vector g) STABLE_REPLICA_PID epoch\<rparr>"
    and "op_merge_delta_group ops (rp_crdt a) delta = Done s"
  shows "\<exists>a1 b1 md a2.
    pull_delta ops index SendOk a = Done (a1, Some (rp_pid b, MsgVersionVector (rp_pid a) vv)) \<and>
    handle_version_vector ops SendOk (rp_pid a) vv b = Done (b1, Some (MsgDeltaGroup delta md)) \<and>
    handle_delta ops c io_ok delta md a1 = Done a2 \<and>
    rp_crdt a2 = s \<and> rp_crdt b1 = rp_crdt b \<and> replica_inv a2 \<and> replica_inv b1 \<and>
    hm_get (matrix (wr_version_matrix (rp_wrapper b1))) (rp_pid a) = Some vv"
proof -
  obtain a1 where a1: "refresh_own_version_vector ops a = Done (a1, vv)" "advances a a1" "rp_crdt a1 = rp_crdt a"
    "wr_gc_markers (rp_wrapper a1) = wr_gc_markers (rp_wrapper a)"
    using refresh_advances[OF assms(2), of ops] assms(5,9) by metis
  have pull: "pull_delta ops index SendOk a = Done (a1, Some (rp_pid b, MsgVersionVector (rp_pid a) vv))"
    using assms(7) a1(1) by (simp add: pull_delta_def)
  obtain b1 msg where b1: "handle_version_vector ops SendOk (rp_pid a) vv b = Done (b1, msg)" "advances b b1"
    "rp_crdt b1 = rp_crdt b"
    "\<exists>md. msg = Some (MsgDeltaGroup delta md) \<and> dot_counter (gm_marker md) = epoch"
    using version_vector_advances[OF assms(3,4), of ops SendOk vv] assms(6,8,10,11) by metis
  then obtain md where md: "msg = Some (MsgDeltaGroup delta md)" "dot_counter (gm_marker md) = epoch" by blast
  have e1: "dot_counter (current_gc_marker (rp_wrapper a1)) = epoch"
    using a1(4) assms(5) by (simp add: current_gc_marker_def)
  obtain jd where jd: "append_delta_group c io_ok delta (rp_journal a1) = Done jd"
    using append_entry_total[OF assms(1), of "EntryDelta delta" "rp_journal a1"] by auto
  let ?a = "a1\<lparr>rp_journal := jd, rp_crdt := s\<rparr>"
  have "replica_inv ?a" using advances_inv[OF a1(2)] by (simp add: replica_inv_def)
  then obtain a2 vv2 where a2: "refresh_own_version_vector ops ?a = Done (a2, vv2)" "advances ?a a2" "rp_crdt a2 = s"
    using refresh_advances[of ?a ops] by (metis replica.select_convs(1) replica.surjective replica.update_convs(1))
  have "handle_delta ops c io_ok delta md a1 = Done a2"
    using e1 md(2) jd a2(1) a1(3) assms(11,12)
    by (simp add: handle_delta_def observe_gc_def commit_delta_def gc_counter_def dotset_get_def)
  moreover have "hm_get (matrix (wr_version_matrix (rp_wrapper b1))) (rp_pid a) = Some vv"
    by (rule version_vector_row[OF b1(1) assms(3,4)]) (simp add: assms(6,9) gc_counter_def dotset_get_def)
  ultimately show ?thesis
    using pull b1 md(1) a2 advances_inv[OF a2(2)] advances_inv[OF b1(2)] by blast
qed


section \<open>Absorbing a departed replica\<close>

text \<open>What a readable final state does, over any CRDT that merges what is missing of it.\<close>

lemma departed_state_merged:
  assumes "codec_total c" "replica_inv self" "rd_final_counter d = Some n"
    and "hm_get (final_dots (wr_version_matrix (rp_wrapper self))) (rd_pid d) \<noteq> Some n"
    and "payloads d = Some (Some final)" "delta = op_get_delta ops final (op_get_version_vector ops (rp_crdt self))"
    and "op_merge_delta_group ops (rp_crdt self) delta = Done s"
  shows "\<exists>self'. handle_shutdown_descriptor ops c io_ok payloads d self = Done self' \<and>
    rp_crdt self' = (if dg_list delta = [] then rp_crdt self else s) \<and>
    hm_get (final_dots (wr_version_matrix (rp_wrapper self'))) (rd_pid d) = Some n \<and>
    rn_writer (rp_network self') (rd_pid d) = None \<and>
    handle_shutdown_descriptor ops c io_ok payloads d self' = Done self'"
proof -
  have "\<exists>s1. merge_shutdown_payload ops c io_ok (payloads d) self = Done (s1, True) \<and>
    rp_crdt s1 = (if dg_list delta = [] then rp_crdt self else s)"
  proof (cases "dg_list delta = []")
    case True
    obtain s1 vv where "refresh_own_version_vector ops self = Done (s1, vv)" "rp_crdt s1 = rp_crdt self"
      by (rule refresh_advances[OF assms(2)])
    then show ?thesis using True by (simp add: merge_shutdown_payload_def assms(5,6))
  next
    case False
    obtain jd where jd: "append_delta_group c io_ok delta (rp_journal self) = Done jd"
      using append_entry_total[OF assms(1), of "EntryDelta delta" "rp_journal self"] by auto
    let ?s1 = "self\<lparr>rp_journal := jd, rp_crdt := s\<rparr>"
    have "replica_inv ?s1" using assms(2) by (simp add: replica_inv_def)
    then obtain s2 vv where "refresh_own_version_vector ops ?s1 = Done (s2, vv)" "rp_crdt s2 = s"
      by (rule refresh_advances[of ?s1 ops]) simp
    then show ?thesis using False jd assms(7)
      by (simp add: merge_shutdown_payload_def commit_delta_def assms(5) assms(6)[symmetric])
  qed
  then obtain s1 where s1: "merge_shutdown_payload ops c io_ok (payloads d) self = Done (s1, True)"
    "rp_crdt s1 = (if dg_list delta = [] then rp_crdt self else s)"
    by blast
  let ?self' = "s1\<lparr>rp_wrapper := observe_departed_replica (rp_wrapper s1) (Dot (rd_pid d) n),
    rp_network := notify_departure (rp_network s1) d\<rparr>"
  have fetch: "should_fetch_departed_replica (rp_wrapper self) (Dot (rd_pid d) n)"
    using assms(4) by (simp add: should_fetch_departed_replica_def contains_final_dot_def)
  have rec: "hm_get (final_dots (wr_version_matrix (rp_wrapper ?self'))) (rd_pid d) = Some n"
    by (simp add: observe_departed_replica_def insert_final_dot_def)
  have "handle_shutdown_descriptor ops c io_ok payloads d ?self' = Done ?self'"
    using rec by (simp add: handle_shutdown_descriptor_def assms(3) should_fetch_departed_replica_def contains_final_dot_def)
  moreover have "rn_writer (rp_network ?self') (rd_pid d) = None"
    by (simp add: notify_departure_def send_member_def remove_writer_def rn_writer_def)
  moreover have "handle_shutdown_descriptor ops c io_ok payloads d self = Done ?self'"
    by (simp add: handle_shutdown_descriptor_def assms(3) fetch s1(1))
  ultimately show ?thesis using s1(2) rec by (intro exI[of _ ?self']) simp
qed


section \<open>Properties\<close>

text \<open>A codec that encodes everything, for closed examples.\<close>

abbreviation total_codec :: "(nat, nat, unit, unit, nat) codec" where
  "total_codec \<equiv> counter_codec\<lparr>js_marker_to := (\<lambda>_. Some 0)\<rparr>"

lemma counter_total: "ops_total counter_ops" "codec_total total_codec"
proof -
  show "ops_total counter_ops" by (simp add: ops_total_def counter_ops_def)
  have "entry_payload total_codec e \<noteq> None" for e by (cases e) (simp_all add: counter_codec_def)
  then show "codec_total total_codec" by (simp add: codec_total_def)
qed

definition example_replica :: "(nat, unit) replica" where
  "example_replica = \<lparr>rp_crdt = 5, rp_wrapper = wrapper_new 7, rp_pid = 7, rp_address = example_addr,
     rp_network = add_writer (rn_new 7) 8 (), rp_journal = (journal_disabled, fresh_disk), rp_members = []\<rparr>"

lemma example_replica_inv:
  "replica_inv example_replica" "dot_counter (current_gc_marker (rp_wrapper example_replica)) < i64_max"
  using wrapper_inv_new[of 7]
  by (simp add: replica_inv_def example_replica_def STABLE_REPLICA_PID_def wrapper_own_pid_def)
    (simp add: wrapper_new_def vm_new_def Let_def, code_simp)



text \<open>
  C7: the collection round. A round that finds something to collect first claims the next epoch
  in the membership directory. It collects exactly when the claim succeeds and the membership
  listed afterwards has no other replica that is new or has advanced; then the marker is applied
  to the CRDT and to the metadata, the persistent state is written, and only after that write
  succeeded the descriptors of departed replicas and the replica's old descriptor are deleted, in
  that order. Otherwise state and markers stay as they are and a claimed descriptor is withdrawn.
\<close>

theorem gc_round_outcome:
  assumes "codec_total c" "replica_inv self" "dot_counter (current_gc_marker (rp_wrapper self)) < i64_max"
    and "refresh_own_version_vector ops self = Done (self1, vv)" "needs_gc (rp_wrapper self1) = Done True"
    and "get_stable (wr_version_matrix (rp_wrapper self1)) = Done (Some st, departed)"
    and "claim = \<lparr>rd_pid = rp_pid self, rd_address = rp_address self,
           rd_gc_counter = dot_counter (current_gc_marker (rp_wrapper self)) + 1, rd_final_counter = None\<rparr>"
  shows "\<exists>self' fx. init_gc ops c io_ok ans self = Done (self', fx) \<and>
    (if sa_create ans = Some True \<and> (\<exists>now. sa_list ans = Some now \<and> membership_quiet (rp_pid self) (rp_members self) now)
     then rp_crdt self' = op_gc ops (rp_crdt self) st departed \<and>
       wr_gc_markers (rp_wrapper self') = wr_gc_markers (rp_wrapper self) @
         [\<lparr>gm_marker = Dot STABLE_REPLICA_PID (rd_gc_counter claim), gm_stable = st, gm_departed_pids = departed\<rparr>] \<and>
       fx = CreateDescriptor claim # WritePersistentReplica (persistent_of self') #
         (if sa_write_persistent ans
          then map DeleteDescriptorsFor (departed_list departed) @ [DeleteDescriptor (own_descriptor self)] else [])
     else rp_crdt self' = rp_crdt self \<and> rp_journal self' = rp_journal self \<and>
       wr_gc_markers (rp_wrapper self') = wr_gc_markers (rp_wrapper self) \<and>
       fx = CreateDescriptor claim # (if sa_create ans = Some True then [DeleteDescriptor claim] else []))"
proof -
  have s1: "advances self self1" "rp_crdt self1 = rp_crdt self" "rp_members self1 = rp_members self"
    "wr_gc_markers (rp_wrapper self1) = wr_gc_markers (rp_wrapper self)" "rp_journal self1 = rp_journal self"
    using refresh_advances[OF assms(2), of ops] assms(4) by (metis Pair_inject exec.inject(1))+
  have i: "wrapper_inv (rp_wrapper self1)" "rp_pid self1 = rp_pid self"
    "hm_get (final_dots (wr_version_matrix (rp_wrapper self1))) (rp_pid self1) = None"
    using s1(1) by (auto simp: advances_def replica_inv_def)
  have addr: "rp_address self1 = rp_address self" using assms(4) by (auto simp: refresh_own_version_vector_def exec_simps)
  have cur: "current_gc_marker (rp_wrapper self1) = current_gc_marker (rp_wrapper self)"
    using s1(4) by (simp add: current_gc_marker_def)
  have "dot_counter (next_gc_marker (rp_wrapper self1)) = rd_gc_counter claim"
    using next_gc_marker_counter[OF _ i(1)] assms(3,7) cur by simp
  then have claim: "epoch_descriptor self1 = claim"
    "next_gc_marker (rp_wrapper self1) = Dot STABLE_REPLICA_PID (rd_gc_counter claim)"
    using assms(7) i(2) addr by (simp_all add: next_gc_marker_def)
  have old: "own_descriptor self1 = own_descriptor self" by (simp add: own_descriptor_def i(2) addr cur)
  note round = init_gc_due[OF assms(4-6), of c io_ok ans, unfolded claim(1) old, unfolded claim(2)]
  obtain s2 valid fx2 where v: "validate_gc_membership ans (membership_gc_counters_by_pid (rp_members self1))
      claim self1 = (s2, valid, fx2)"
    by (metis prod_cases3)
  note valid = validate_gc_membership_exact[OF v, unfolded i(2) s1(3)]
  note f = validate_frame[OF v]
  let ?mk = "\<lparr>gm_marker = Dot STABLE_REPLICA_PID (rd_gc_counter claim), gm_stable = st, gm_departed_pids = departed\<rparr>"
  have r2: "replica_inv s2" using advances_inv[OF advances_same_wrapper[OF s1(1), of s2]] f by simp
  have own: "rp_pid s2 \<notin> set (departed_list (gm_departed_pids ?mk))"
    using own_not_departed[OF assms(6) i(3)] f by simp
  have later: "dot_counter (current_gc_marker (rp_wrapper s2)) < dot_counter (gm_marker ?mk)"
    using assms(7) cur f by simp
  obtain s3 where s3: "complete_local_gc ops c io_ok ans ?mk s2 =
      Done (s3, sa_write_persistent ans, WritePersistentReplica (persistent_of s3) #
        (if sa_write_persistent ans then map DeleteDescriptorsFor (departed_list departed) else []))"
    "rp_crdt s3 = op_gc ops (rp_crdt self) st departed"
    "wr_gc_markers (rp_wrapper s3) = wr_gc_markers (rp_wrapper self) @ [?mk]"
    by (rule complete_advances[OF assms(1) r2 own later, of ops ans]) (simp add: f s1)
  show ?thesis unfolding valid(1)[symmetric] round v prod.case valid(2) s3(1) exec_map.simps
    by (cases valid; cases "sa_create ans = Some True") (simp_all add: f s1 s3(2,3))
qed

lemma example_round_due:
  "case refresh_own_version_vector counter_ops example_replica of
     Panicked _ \<Rightarrow> False
   | Done (self1, vv) \<Rightarrow> needs_gc (rp_wrapper self1) = Done True \<and>
       (case get_stable (wr_version_matrix (rp_wrapper self1)) of
          Done (Some st, departed) \<Rightarrow> departed = None | _ \<Rightarrow> False)"
  by code_simp

theorem gc_round_outcome_witness:
  "\<exists>self1 vv st departed. refresh_own_version_vector counter_ops example_replica = Done (self1, vv) \<and>
     needs_gc (rp_wrapper self1) = Done True \<and>
     get_stable (wr_version_matrix (rp_wrapper self1)) = Done (Some st, departed) \<and>
     (\<exists>self' fx. init_gc counter_ops total_codec io_ok example_answers example_replica = Done (self', fx) \<and>
        rp_crdt self' = op_gc counter_ops (rp_crdt example_replica) st departed \<and>
        length (wr_gc_markers (rp_wrapper self')) = 1)"
proof -
  obtain self1 vv st departed where h: "refresh_own_version_vector counter_ops example_replica = Done (self1, vv)"
    "needs_gc (rp_wrapper self1) = Done True"
    "get_stable (wr_version_matrix (rp_wrapper self1)) = Done (Some st, departed)"
    using example_round_due by (auto split: exec.splits option.splits)
  have "sa_create example_answers = Some True \<and>
      (\<exists>now. sa_list example_answers = Some now \<and>
        membership_quiet (rp_pid example_replica) (rp_members example_replica) now)"
    "wr_gc_markers (rp_wrapper example_replica) = []"
    by (simp_all add: example_answers_def membership_quiet_def example_replica_def wrapper_new_def)
  then show ?thesis
    using h gc_round_outcome[OF counter_total(2) example_replica_inv h refl, of example_answers] by auto
qed

text \<open>
  What a remote delta does. A delta of an earlier epoch than the replica's is ignored
  altogether. Otherwise the collection marker that came with it is applied first, if it is a
  marker and of a later epoch, and the delta is merged into the collected state; the replica is
  then in the later of the two epochs and its own row is the version vector of the new state.
\<close>

theorem remote_delta_effect:
  assumes "ops_total ops" "codec_total c" "replica_inv self"
    and "rp_pid self \<notin> set (departed_list (gm_departed_pids mk))"
    and "later \<longleftrightarrow> dot_pid (gm_marker mk) = STABLE_REPLICA_PID \<and>
           dot_counter (current_gc_marker (rp_wrapper self)) < dot_counter (gm_marker mk)"
  shows "\<exists>self'. handle_delta ops c io_ok delta mk self = Done self' \<and>
    (if gc_counter (dg_version_vector delta) < dot_counter (current_gc_marker (rp_wrapper self)) then self' = self
     else
       op_merge_delta_group ops
         (if later then op_gc ops (rp_crdt self) (gm_stable mk) (gm_departed_pids mk) else rp_crdt self) delta =
           Done (rp_crdt self') \<and>
       wr_gc_markers (rp_wrapper self') = wr_gc_markers (rp_wrapper self) @ (if later then [mk] else []) \<and>
       hm_get (matrix (wr_version_matrix (rp_wrapper self'))) (rp_pid self) =
         Some (set_counter (op_get_version_vector ops (rp_crdt self')) STABLE_REPLICA_PID
           (dot_counter (current_gc_marker (rp_wrapper self')))))"
proof (cases "gc_counter (dg_version_vector delta) < dot_counter (current_gc_marker (rp_wrapper self))")
  case True
  then show ?thesis by (simp add: handle_delta_def)
next
  case False
  obtain s1 where s1: "observe_gc ops c io_ok mk self = Done s1" "advances self s1"
    "rp_crdt s1 = (if later then op_gc ops (rp_crdt self) (gm_stable mk) (gm_departed_pids mk) else rp_crdt self)"
    "wr_gc_markers (rp_wrapper s1) = wr_gc_markers (rp_wrapper self) @ (if later then [mk] else [])"
  proof (cases later)
    case True
    then show thesis using that marker_advances[OF assms(2-4), of ops] assms(5) by (auto simp: observe_gc_def)
  next
    case False
    then show thesis using that[of self] advances_refl[OF assms(3)] assms(5) by (auto simp: observe_gc_def)
  qed
  obtain s2 where s2: "commit_delta ops c io_ok delta s1 = Done s2" "advances s1 s2"
    "op_merge_delta_group ops (rp_crdt s1) delta = Done (rp_crdt s2)" "rp_wrapper s2 = rp_wrapper s1"
    by (rule commit_advances[OF assms(1,2) advances_inv[OF s1(2)]])
  have w2: "wrapper_inv (rp_wrapper s2)" "wrapper_own_pid (rp_wrapper s2) = rp_pid self"
    using s1(2) s2(2) by (auto simp: advances_def replica_inv_def)
  obtain w3 where w3: "update_own_version_vector (rp_wrapper s2) (op_get_version_vector ops (rp_crdt s2)) =
      Done (w3, set_counter (op_get_version_vector ops (rp_crdt s2)) STABLE_REPLICA_PID
        (dot_counter (current_gc_marker (rp_wrapper s2))))"
    "wr_gc_markers w3 = wr_gc_markers (rp_wrapper s2)"
    "\<forall>p. hm_get (matrix (wr_version_matrix w3)) p = (if p = wrapper_own_pid (rp_wrapper s2)
       then Some (set_counter (op_get_version_vector ops (rp_crdt s2)) STABLE_REPLICA_PID
         (dot_counter (current_gc_marker (rp_wrapper s2))))
       else hm_get (matrix (wr_version_matrix (rp_wrapper s2))) p)"
    using update_own_version_vector_Done[OF w2(1)] by blast
  have cur: "current_gc_marker w3 = current_gc_marker (rp_wrapper s2)" by (simp add: current_gc_marker_def w3(2))
  show ?thesis using False s1 s2 w2(2) w3
    by (intro exI[of _ "s2\<lparr>rp_wrapper := w3\<rparr>"]) (simp add: handle_delta_def refresh_own_version_vector_def cur)
qed

theorem remote_delta_effect_witness:
  "ops_total counter_ops \<and> codec_total total_codec \<and> replica_inv example_replica \<and>
   rp_pid example_replica \<notin> set (departed_list (gm_departed_pids example_marker)) \<and>
   (\<exists>self'. handle_delta counter_ops total_codec io_ok counter_delta example_marker example_replica = Done self' \<and>
      op_merge_delta_group counter_ops (op_gc counter_ops (rp_crdt example_replica) (gm_stable example_marker)
        (gm_departed_pids example_marker)) counter_delta = Done (rp_crdt self') \<and>
      wr_gc_markers (rp_wrapper self') = [example_marker])"
proof -
  have own: "rp_pid example_replica \<notin> set (departed_list (gm_departed_pids example_marker))" by code_simp
  have later: "True \<longleftrightarrow> dot_pid (gm_marker example_marker) = STABLE_REPLICA_PID \<and>
      dot_counter (current_gc_marker (rp_wrapper example_replica)) < dot_counter (gm_marker example_marker)"
    by code_simp
  have "\<not> gc_counter (dg_version_vector counter_delta) < dot_counter (current_gc_marker (rp_wrapper example_replica))"
    "wr_gc_markers (rp_wrapper example_replica) = []"
    by code_simp+
  then show ?thesis
    using remote_delta_effect[OF counter_total example_replica_inv(1) own later, of counter_delta]
      counter_total example_replica_inv(1) own by auto
qed

text \<open>
  A round of anti-entropy. A replica asks a connected peer of the same epoch with its version
  vector; the peer answers with what that vector misses, and the replica merges the answer. The
  messages carry the epoch, so neither side refuses the other; the replica ends with exactly the
  merge of the peer's delta, the peer's data is untouched, and the peer now knows the version
  vector the replica had (which is what the stable frontier is computed from).
\<close>

theorem anti_entropy_round:
  assumes "codec_total c" "replica_inv a" "replica_inv b" "rp_pid a \<noteq> rp_pid b"
    and "dot_counter (current_gc_marker (rp_wrapper a)) = epoch" "dot_counter (current_gc_marker (rp_wrapper b)) = epoch"
    and "random_writer index (rp_network a) = Some (rp_pid b, w)" "rn_writer (rp_network b) (rp_pid a) \<noteq> None"
    and "vv = set_counter (op_get_version_vector ops (rp_crdt a)) STABLE_REPLICA_PID epoch"
    and "g = op_get_delta ops (rp_crdt b) vv"
    and "delta = g\<lparr>dg_version_vector := set_counter (dg_version_vector g) STABLE_REPLICA_PID epoch\<rparr>"
    and "op_merge_delta_group ops (rp_crdt a) delta = Done s"
  shows "\<exists>a1 b1 md a2.
    pull_delta ops index SendOk a = Done (a1, Some (rp_pid b, MsgVersionVector (rp_pid a) vv)) \<and>
    handle_version_vector ops SendOk (rp_pid a) vv b = Done (b1, Some (MsgDeltaGroup delta md)) \<and>
    handle_delta ops c io_ok delta md a1 = Done a2 \<and>
    rp_crdt a2 = s \<and> rp_crdt b1 = rp_crdt b \<and> replica_inv a2 \<and> replica_inv b1 \<and>
    hm_get (matrix (wr_version_matrix (rp_wrapper b1))) (rp_pid a) = Some vv"
  by (rule anti_entropy_exchange[OF assms])

definition example_peer :: "(nat, unit) replica" where
  "example_peer = example_replica\<lparr>rp_crdt := 9, rp_wrapper := wrapper_new 8, rp_pid := 8,
     rp_network := add_writer (rn_new 8) 7 ()\<rparr>"

lemma example_peer_inv: "replica_inv example_peer"
  using wrapper_inv_new[of 8]
  by (simp add: replica_inv_def example_peer_def STABLE_REPLICA_PID_def wrapper_own_pid_def)
    (simp add: wrapper_new_def vm_new_def Let_def)

theorem anti_entropy_round_witness:
  "\<exists>vv delta s. codec_total total_codec \<and> replica_inv example_replica \<and> replica_inv example_peer \<and>
     op_merge_delta_group counter_ops (rp_crdt example_replica) delta = Done s \<and>
     (\<exists>a1 b1 md a2.
        pull_delta counter_ops 0 SendOk example_replica =
          Done (a1, Some (rp_pid example_peer, MsgVersionVector (rp_pid example_replica) vv)) \<and>
        handle_version_vector counter_ops SendOk (rp_pid example_replica) vv example_peer =
          Done (b1, Some (MsgDeltaGroup delta md)) \<and>
        handle_delta counter_ops total_codec io_ok delta md a1 = Done a2 \<and> rp_crdt a2 = s)"
proof -
  have h: "rp_pid example_replica \<noteq> rp_pid example_peer"
    "dot_counter (current_gc_marker (rp_wrapper example_replica)) = 0"
    "dot_counter (current_gc_marker (rp_wrapper example_peer)) = 0"
    "random_writer 0 (rp_network example_replica) = Some (rp_pid example_peer, ())"
    "rn_writer (rp_network example_peer) (rp_pid example_replica) \<noteq> None"
    by code_simp+
  have m: "op_merge_delta_group counter_ops (rp_crdt example_replica) d = Done (rp_crdt example_replica)" for d
    by (simp add: counter_ops_def)
  show ?thesis
    using counter_total(2) example_replica_inv(1) example_peer_inv m
      anti_entropy_round[OF counter_total(2) example_replica_inv(1) example_peer_inv h refl refl refl m] by blast
qed

text \<open>
  A departed replica is absorbed once. When a shutdown descriptor appears for the first time
  and its final state can be read, what the replica misses of that state is merged, the final
  dot is recorded and the connection is dropped; seeing the same descriptor again changes
  nothing. While the final state cannot be read nothing is recorded, so the next poll tries again.
\<close>

theorem departed_replica_absorbed:
  assumes "ops_total ops" "codec_total c" "replica_inv self" "rd_final_counter d = Some n" "rd_pid d \<noteq> rp_pid self"
    and "hm_get (final_dots (wr_version_matrix (rp_wrapper self))) (rd_pid d) \<noteq> Some n"
  shows "\<exists>self'. handle_shutdown_descriptor ops c io_ok payloads d self = Done self' \<and>
    (case payloads d of
       Some (Some final) \<Rightarrow>
         (let delta = op_get_delta ops final (op_get_version_vector ops (rp_crdt self))
          in if dg_list delta = [] then rp_crdt self' = rp_crdt self
             else op_merge_delta_group ops (rp_crdt self) delta = Done (rp_crdt self')) \<and>
         hm_get (final_dots (wr_version_matrix (rp_wrapper self'))) (rd_pid d) = Some n \<and>
         rn_writer (rp_network self') (rd_pid d) = None \<and>
         handle_shutdown_descriptor ops c io_ok payloads d self' = Done self'
     | _ \<Rightarrow> self' = self)"
proof (cases "\<exists>final. payloads d = Some (Some final)")
  case False
  then consider "payloads d = None" | "payloads d = Some None" by (cases "payloads d") auto
  then show ?thesis
    by cases (simp_all add: handle_shutdown_descriptor_def assms(4) merge_shutdown_payload_def Let_def)
next
  case True
  then obtain final where final: "payloads d = Some (Some final)" by blast
  let ?delta = "op_get_delta ops final (op_get_version_vector ops (rp_crdt self))"
  obtain s where "op_merge_delta_group ops (rp_crdt self) ?delta = Done s"
    using assms(1) unfolding ops_total_def by blast
  from departed_state_merged[where payloads = payloads, OF assms(2-4,6) final refl this] this show ?thesis
    by (auto simp: final Let_def split: if_splits)
qed

abbreviation example_leaver :: replica_descriptor where
  "example_leaver \<equiv> \<lparr>rd_pid = 8, rd_address = example_addr, rd_gc_counter = 0, rd_final_counter = Some 4\<rparr>"

theorem departed_replica_absorbed_witness:
  "ops_total counter_ops \<and> codec_total total_codec \<and> replica_inv example_replica \<and>
   rd_final_counter example_leaver = Some 4 \<and> rd_pid example_leaver \<noteq> rp_pid example_replica \<and>
   hm_get (final_dots (wr_version_matrix (rp_wrapper example_replica))) (rd_pid example_leaver) \<noteq> Some 4 \<and>
   (\<exists>self'. handle_shutdown_descriptor counter_ops total_codec io_ok (\<lambda>_. Some (Some 3)) example_leaver example_replica =
        Done self' \<and>
      hm_get (final_dots (wr_version_matrix (rp_wrapper self'))) (rd_pid example_leaver) = Some 4 \<and>
      rn_writer (rp_network self') (rd_pid example_leaver) = None)"
proof -
  have h: "rd_final_counter example_leaver = Some 4" "rd_pid example_leaver \<noteq> rp_pid example_replica"
    "hm_get (final_dots (wr_version_matrix (rp_wrapper example_replica))) (rd_pid example_leaver) \<noteq> Some 4"
    by code_simp+
  show ?thesis
    using counter_total example_replica_inv(1) h
      departed_replica_absorbed[OF counter_total example_replica_inv(1) h, of "\<lambda>_. Some (Some 3)"] by auto
qed



end
