(* ===== verification/Commit_Gate.thy ===== *)
theory Commit_Gate
  imports Replica_Protocol
begin

text \<open>
  The tasks of a running replica (\<^verbatim>\<open>src/src/replica.rs\<close>, \<^verbatim>\<open>src/src/http_server.rs\<close>). Every client
  request is served by a task of its own, beside the task of the event loop; they share the CRDT
  and the journal, and \<open>commit_gate\<close> is the mutex that keeps the two in step. A handler is a
  program whose statements are the accesses to shared state and the operations on the gate;
  everything else of the replica belongs to the event loop. The tasks interleave between any two
  statements.

  A disk that refuses a write is the subject of \<open>Journal\<close>; here writes succeed. A task that panics
  is gone and its guard of the gate is dropped; so is the event loop, and the server goes on.
  Which event the loop picks up next is left open, whether or not a channel holds one.
\<close>

section \<open>Programs\<close>

type_synonym ('s, 'w) runtime = "('s, 'w) replica \<times> 's storage_effect list"

datatype ('st, 'r) task =
    Finished 'r
  | Acquire "('st, 'r) task"
  | Release "('st, 'r) task"
  | Access "'st \<Rightarrow> ('st \<times> ('st, 'r) task) exec"

text \<open>One access to the replica, and what the task does with the result.\<close>

definition on_replica ::
  "(('s, 'w) replica \<Rightarrow> (('s, 'w) replica \<times> 'a) exec) \<Rightarrow> ('a \<Rightarrow> (('s, 'w) runtime, 'r) task) \<Rightarrow>
   (('s, 'w) runtime, 'r) task" where
  "on_replica f k = Access (\<lambda>(self, fx). exec_map (\<lambda>(self', x). ((self', fx), k x)) (f self))"

definition look ::
  "(('s, 'w) replica \<Rightarrow> 'a) \<Rightarrow> ('a \<Rightarrow> (('s, 'w) runtime, 'r) task) \<Rightarrow> (('s, 'w) runtime, 'r) task" where
  "look f = on_replica (\<lambda>self. Done (self, f self))"

text \<open>Calls to object storage, in the order in which they are issued.\<close>

definition emit ::
  "'s storage_effect list \<Rightarrow> (('s, 'w) runtime, 'r) task \<Rightarrow> (('s, 'w) runtime, 'r) task" where
  "emit fx' k = Access (\<lambda>(self, fx). Done ((self, fx @ fx'), k))"


section \<open>Commits\<close>

text \<open>The journal's part of a commit.\<close>

primrec gate_append ::
  "('v, 's, 'd, 'x, 'm) codec \<Rightarrow> ('d, 'x, 'm) entry \<Rightarrow> journal \<times> disk \<Rightarrow> (journal \<times> disk) exec" where
  "gate_append c (EntryMutation m) jd =
     (case append_mutation c io_ok m jd of
        (jd', Inl _) \<Rightarrow> Panicked (PanicMessage ''Failed to append durable client mutation'')
      | (jd', Inr _) \<Rightarrow> Done jd')"
| "gate_append c (EntryDelta g) jd = append_delta_group c io_ok g jd"
| "gate_append c (EntryMarker k) jd = append_gc_marker c io_ok k jd"

definition journal_phase ::
  "('v, 's, 'd, 'x, 'm) codec \<Rightarrow> ('d, 'x, 'm) entry \<Rightarrow> ('s, 'w) replica \<Rightarrow> (('s, 'w) replica \<times> unit) exec" where
  "journal_phase c e self = exec_map (\<lambda>jd. (self\<lparr>rp_journal := jd\<rparr>, ())) (gate_append c e (rp_journal self))"

text \<open>
  The change in memory, under the write lock of the CRDT; a marker is then pushed to the metadata,
  which belong to the event loop. The result is the response to a client.
\<close>

primrec apply_phase ::
  "('s, 'd, 'x, 'q, 'm, 'r) crdt_ops \<Rightarrow> ('d, 'x, 'm) entry \<Rightarrow> ('s, 'w) replica \<Rightarrow>
   (('s, 'w) replica \<times> 'r option) exec" where
  "apply_phase ops (EntryMutation m) self =
     exec_map (\<lambda>(s, r). (self\<lparr>rp_crdt := s\<rparr>, Some r)) (op_mutate ops (rp_crdt self) m)"
| "apply_phase ops (EntryDelta g) self =
     exec_map (\<lambda>s. (self\<lparr>rp_crdt := s\<rparr>, None)) (op_merge_delta_group ops (rp_crdt self) g)"
| "apply_phase ops (EntryMarker k) self =
     exec_map (\<lambda>w. (self\<lparr>rp_crdt := op_gc ops (rp_crdt self) (gm_stable k) (gm_departed_pids k), rp_wrapper := w\<rparr>, None))
       (push_gc_marker (rp_wrapper self) k)"

definition apply_access ::
  "('s, 'd, 'x, 'q, 'm, 'r) crdt_ops \<Rightarrow> ('d, 'x, 'm) entry \<Rightarrow>
   ('r option \<Rightarrow> (('s, 'w) runtime, 'r option) task) \<Rightarrow> (('s, 'w) runtime, 'r option) task" where
  "apply_access ops e k = on_replica (apply_phase ops e) (\<lambda>r. Release (k r))"

definition append_access ::
  "('s, 'd, 'x, 'q, 'm, 'r) crdt_ops \<Rightarrow> ('v, 's, 'd, 'x, 'm) codec \<Rightarrow> ('d, 'x, 'm) entry \<Rightarrow>
   ('r option \<Rightarrow> (('s, 'w) runtime, 'r option) task) \<Rightarrow> (('s, 'w) runtime, 'r option) task" where
  "append_access ops c e k = on_replica (journal_phase c e) (\<lambda>_. apply_access ops e k)"

text \<open>The gate is held from before the append until after the change in memory.\<close>

definition commit_task ::
  "('s, 'd, 'x, 'q, 'm, 'r) crdt_ops \<Rightarrow> ('v, 's, 'd, 'x, 'm) codec \<Rightarrow> ('d, 'x, 'm) entry \<Rightarrow>
   ('r option \<Rightarrow> (('s, 'w) runtime, 'r option) task) \<Rightarrow> (('s, 'w) runtime, 'r option) task" where
  "commit_task ops c e k = Acquire (append_access ops c e k)"


section \<open>Client requests\<close>

fun request_task ::
  "('s, 'd, 'x, 'q, 'm, 'r) crdt_ops \<Rightarrow> ('v, 's, 'd, 'x, 'm) codec \<Rightarrow> ('m, 'q) client_request \<Rightarrow>
   (('s, 'w) runtime, 'r option) task" where
  "request_task ops c (Query q) = look (\<lambda>self. op_query ops (rp_crdt self) q) (\<lambda>r. Finished (Some r))"
| "request_task ops c (Mutation m) = commit_task ops c (EntryMutation m) Finished"


section \<open>The turns of the event loop\<close>

definition refresh_task ::
  "('s, 'd, 'x, 'q, 'm, 'r) crdt_ops \<Rightarrow> (('s, 'w) runtime, 'r option) task \<Rightarrow> (('s, 'w) runtime, 'r option) task" where
  "refresh_task ops k = on_replica (refresh_own_version_vector ops) (\<lambda>_. k)"

definition observe_gc_task ::
  "('s, 'd, 'x, 'q, 'm, 'r) crdt_ops \<Rightarrow> ('v, 's, 'd, 'x, 'm) codec \<Rightarrow> gc_marker \<Rightarrow>
   (('s, 'w) runtime, 'r option) task \<Rightarrow> (('s, 'w) runtime, 'r option) task" where
  "observe_gc_task ops c metadata k =
     look (\<lambda>self. dot_pid (gm_marker metadata) \<noteq> STABLE_REPLICA_PID \<or>
             dot_counter (gm_marker metadata) \<le> dot_counter (current_gc_marker (rp_wrapper self)))
       (\<lambda>skip. if skip then k else commit_task ops c (EntryMarker metadata) (\<lambda>_. k))"

definition handle_delta_task ::
  "('s, 'd, 'x, 'q, 'm, 'r) crdt_ops \<Rightarrow> ('v, 's, 'd, 'x, 'm) codec \<Rightarrow> ('d, 'x) delta_group \<Rightarrow> gc_marker \<Rightarrow>
   (('s, 'w) runtime, 'r option) task" where
  "handle_delta_task ops c delta gc_md =
     look (\<lambda>self. gc_counter (dg_version_vector delta) < dot_counter (current_gc_marker (rp_wrapper self)))
       (\<lambda>refused. if refused then Finished None
         else observe_gc_task ops c gc_md
           (commit_task ops c (EntryDelta delta) (\<lambda>_. refresh_task ops (Finished None))))"

definition merge_shutdown_payload_task ::
  "('s, 'd, 'x, 'q, 'm, 'r) crdt_ops \<Rightarrow> ('v, 's, 'd, 'x, 'm) codec \<Rightarrow> 's option option \<Rightarrow>
   (bool \<Rightarrow> (('s, 'w) runtime, 'r option) task) \<Rightarrow> (('s, 'w) runtime, 'r option) task" where
  "merge_shutdown_payload_task ops c payload k =
     (case payload of
        None \<Rightarrow> k False
      | Some None \<Rightarrow> k False
      | Some (Some shutdown_state) \<Rightarrow>
          look (\<lambda>self. op_get_delta ops shutdown_state (op_get_version_vector ops (rp_crdt self)))
            (\<lambda>delta. if dg_list delta = [] then refresh_task ops (k True)
              else commit_task ops c (EntryDelta delta) (\<lambda>_. refresh_task ops (k True))))"

definition handle_shutdown_descriptor_task ::
  "('s, 'd, 'x, 'q, 'm, 'r) crdt_ops \<Rightarrow> ('v, 's, 'd, 'x, 'm) codec \<Rightarrow> (replica_descriptor \<Rightarrow> 's option option) \<Rightarrow>
   replica_descriptor \<Rightarrow> (('s, 'w) runtime, 'r option) task \<Rightarrow> (('s, 'w) runtime, 'r option) task" where
  "handle_shutdown_descriptor_task ops c payloads descriptor k =
     on_replica (\<lambda>self.
         exec_map (\<lambda>final_counter. (self, Dot (rd_pid descriptor) final_counter,
             should_fetch_departed_replica (rp_wrapper self) (Dot (rd_pid descriptor) final_counter)))
           (expect ''shutdown descriptor missing final counter'' (rd_final_counter descriptor)))
       (\<lambda>(final_dot, fetch). if \<not> fetch then k
         else merge_shutdown_payload_task ops c (payloads descriptor)
           (\<lambda>merged. if \<not> merged then k
             else on_replica (\<lambda>self. Done (self\<lparr>rp_wrapper := observe_departed_replica (rp_wrapper self) final_dot,
                 rp_network := notify_departure (rp_network self) descriptor\<rparr>, ())) (\<lambda>_. k)))"

definition apply_membership_poll_task ::
  "('s, 'd, 'x, 'q, 'm, 'r) crdt_ops \<Rightarrow> ('v, 's, 'd, 'x, 'm) codec \<Rightarrow> (replica_descriptor \<Rightarrow> 's option option) \<Rightarrow>
   replica_descriptor list option \<Rightarrow> (('s, 'w) runtime, 'r option) task" where
  "apply_membership_poll_task ops c payloads polled =
     (case polled of
        None \<Rightarrow> Finished None
      | Some members \<Rightarrow>
          on_replica (\<lambda>self. case enqueue_members (rp_network self) members (rp_wrapper self) of
              (net, w) \<Rightarrow> Done (self\<lparr>rp_members := members, rp_network := net, rp_wrapper := w\<rparr>, ()))
            (\<lambda>_. foldr (handle_shutdown_descriptor_task ops c payloads) (filter is_shutdown members) (Finished None)))"

text \<open>The end of a round: the persistent state is read outside the gate.\<close>

definition finish_gc_task ::
  "storage_answers \<Rightarrow> pid list option \<Rightarrow> replica_descriptor \<Rightarrow> (('s, 'w) runtime, 'r option) task" where
  "finish_gc_task ans departed_pids previous_descriptor =
     look persistent_of (\<lambda>persistent. emit [WritePersistentReplica persistent]
       (if \<not> sa_write_persistent ans then Finished None
        else (let done_task = emit [DeleteDescriptor previous_descriptor] (Finished None)
              in case departed_pids of
                   None \<Rightarrow> done_task
                 | Some ps \<Rightarrow> on_replica (\<lambda>self. Done (gc_departed_pids ans ps self)) (\<lambda>fx. emit fx done_task))))"

definition init_gc_task ::
  "('s, 'd, 'x, 'q, 'm, 'r) crdt_ops \<Rightarrow> ('v, 's, 'd, 'x, 'm) codec \<Rightarrow> storage_answers \<Rightarrow>
   (('s, 'w) runtime, 'r option) task" where
  "init_gc_task ops c ans =
     refresh_task ops
       (on_replica (\<lambda>self. exec_bind (needs_gc (rp_wrapper self)) (\<lambda>due.
           if \<not> due then Done (self, None)
           else exec_map (\<lambda>(now_stable, departed_pids). (self, map_option (\<lambda>st. (st, departed_pids)) now_stable))
                  (get_stable (wr_version_matrix (rp_wrapper self)))))
         (\<lambda>collect. case collect of
             None \<Rightarrow> Finished None
           | Some (st, departed_pids) \<Rightarrow>
               look (\<lambda>self. (membership_gc_counters_by_pid (rp_members self), own_descriptor self,
                   next_gc_marker (rp_wrapper self),
                   change_own_gc_counter ans (dot_counter (next_gc_marker (rp_wrapper self))) self))
                 (\<lambda>(previous_gc_counters, previous_descriptor, new_marker, created, fx1).
                   emit fx1 (case created of
                       None \<Rightarrow> Finished None
                     | Some new_descriptor \<Rightarrow>
                         on_replica (\<lambda>self. Done (validate_gc_membership ans previous_gc_counters new_descriptor self))
                           (\<lambda>(valid, fx2). emit fx2
                             (if \<not> valid then Finished None
                              else commit_task ops c
                                (EntryMarker \<lparr>gm_marker = new_marker, gm_stable = st, gm_departed_pids = departed_pids\<rparr>)
                                (\<lambda>_. finish_gc_task ans departed_pids previous_descriptor)))))))"

fun event_task ::
  "('s, 'd, 'x, 'q, 'm, 'r) crdt_ops \<Rightarrow> ('v, 's, 'd, 'x, 'm) codec \<Rightarrow> ('s, 'd, 'x, 'm, 'w) replica_event \<Rightarrow>
   (('s, 'w) runtime, 'r option) task" where
  "event_task ops c (ClientMutation mutation) = request_task ops c (Mutation mutation)"
| "event_task ops c LocalMutation = refresh_task ops (Finished None)"
| "event_task ops c (RemoteDelta delta gc_md) = handle_delta_task ops c delta gc_md"
| "event_task ops c (RemoteVersionVector send p vv) =
     on_replica (handle_version_vector ops send p vv) (\<lambda>_. Finished None)"
| "event_task ops c (PeerWriter p writer) =
     on_replica (\<lambda>self. Done (self\<lparr>rp_network := add_writer (rp_network self) p writer\<rparr>, ())) (\<lambda>_. Finished None)"
| "event_task ops c (SyncTick index send) = on_replica (pull_delta ops index send) (\<lambda>_. Finished None)"
| "event_task ops c (GcTick ans) = init_gc_task ops c ans"
| "event_task ops c (MembershipPolled payloads polled) = apply_membership_poll_task ops c payloads polled"


section \<open>Interleaving\<close>

datatype task_id = LoopTask | ClientTask nat

text \<open>
  One statement of one task: the state, the holder of the gate and the rest of the task (\<open>None\<close>
  when it panicked).
\<close>

inductive task_step ::
  "task_id \<Rightarrow> 'st \<times> task_id option \<times> ('st, 'r) task \<Rightarrow> 'st \<times> task_id option \<times> ('st, 'r) task option \<Rightarrow> bool"
  for who :: task_id where
  step_access: "f st = Done (st', t) \<Longrightarrow> task_step who (st, g, Access f) (st', g, Some t)"
| step_panic: "f st = Panicked p \<Longrightarrow>
    task_step who (st, g, Access f) (st, (if g = Some who then None else g), None)"
| step_acquire: "task_step who (st, None, Acquire t) (st, Some who, Some t)"
| step_release: "task_step who (st, Some who, Release t) (st, None, Some t)"

inductive_simps task_step_Finished [simp]: "task_step who (st, g, Finished r) y"
inductive_simps task_step_Acquire: "task_step who (st, g, Acquire t) y"
inductive_simps task_step_Release: "task_step who (st, g, Release t) y"
inductive_simps task_step_Access: "task_step who (st, g, Access f) y"

record ('s, 'q, 'm, 'r, 'w) runtime_node =
  nd_state :: "('s, 'w) runtime"
  nd_gate :: "task_id option"
  nd_tasks :: "task_id \<Rightarrow> (('s, 'w) runtime, 'r option) task option"
  nd_requests :: "('m, 'q) client_request list"

abbreviation nd_replica :: "('s, 'q, 'm, 'r, 'w) runtime_node \<Rightarrow> ('s, 'w) replica" where
  "nd_replica n \<equiv> fst (nd_state n)"

text \<open>
  The replica whose loop is about to make its first turn; a request arrives and gets a task; the
  loop, back from a turn, picks up one of the events \<open>E\<close> that may arrive; a task makes a step.
\<close>

definition node_start :: "('s, 'w) replica \<Rightarrow> ('s, 'q, 'm, 'r, 'w) runtime_node" where
  "node_start self =
     \<lparr>nd_state = (self, []), nd_gate = None, nd_tasks = (\<lambda>_. None)(LoopTask := Some (Finished None)), nd_requests = []\<rparr>"

inductive node_step ::
  "('s, 'd, 'x, 'q, 'm, 'r) crdt_ops \<Rightarrow> ('v, 's, 'd, 'x, 'm) codec \<Rightarrow>
   (('s, 'd, 'x, 'm, 'w) replica_event \<Rightarrow> bool) \<Rightarrow>
   ('s, 'q, 'm, 'r, 'w) runtime_node \<Rightarrow> ('s, 'q, 'm, 'r, 'w) runtime_node \<Rightarrow> bool"
  for ops :: "('s, 'd, 'x, 'q, 'm, 'r) crdt_ops" and c :: "('v, 's, 'd, 'x, 'm) codec"
    and E :: "('s, 'd, 'x, 'm, 'w) replica_event \<Rightarrow> bool" where
  node_request: "node_step ops c E n (n\<lparr>nd_requests := nd_requests n @ [req],
     nd_tasks := (nd_tasks n)(ClientTask (length (nd_requests n)) := Some (request_task ops c req))\<rparr>)"
| node_turn: "nd_tasks n LoopTask = Some (Finished r) \<Longrightarrow> E ev \<Longrightarrow>
    node_step ops c E n (n\<lparr>nd_tasks := (nd_tasks n)(LoopTask := Some (event_task ops c ev))\<rparr>)"
| node_task: "nd_tasks n who = Some t \<Longrightarrow> task_step who (nd_state n, nd_gate n, t) (st', g', t') \<Longrightarrow>
    node_step ops c E n (n\<lparr>nd_state := st', nd_gate := g', nd_tasks := (nd_tasks n)(who := t')\<rparr>)"

abbreviation node_steps ::
  "('s, 'd, 'x, 'q, 'm, 'r) crdt_ops \<Rightarrow> ('v, 's, 'd, 'x, 'm) codec \<Rightarrow>
   (('s, 'd, 'x, 'm, 'w) replica_event \<Rightarrow> bool) \<Rightarrow>
   ('s, 'q, 'm, 'r, 'w) runtime_node \<Rightarrow> ('s, 'q, 'm, 'r, 'w) runtime_node \<Rightarrow> bool" where
  "node_steps ops c E \<equiv> (node_step ops c E)\<^sup>*\<^sup>*"


section \<open>A task that runs alone\<close>

primrec solo :: "('st, 'r) task \<Rightarrow> 'st \<Rightarrow> ('st \<times> 'r) exec" where
  "solo (Finished r) = (\<lambda>st. Done (st, r))"
| "solo (Acquire t) = solo t"
| "solo (Release t) = solo t"
| "solo (Access f) = (\<lambda>st. exec_bind (map_exec (map_prod id solo) (f st)) (\<lambda>(st', run). run st'))"

lemma solo_Access [simp]:
  "solo (Access f) st = exec_bind (f st) (\<lambda>(st', t). solo t st')"
  by (cases "f st") (auto split: prod.splits)

declare solo.simps(4) [simp del]

lemma solo_on_replica [simp]:
  "solo (on_replica f k) (self, fx) = exec_bind (f self) (\<lambda>(self', x). solo (k x) (self', fx))"
  by (cases "f self") (auto simp: on_replica_def)

lemma solo_look [simp]: "solo (look f k) (self, fx) = solo (k (f self)) (self, fx)"
  by (simp add: look_def)

lemma solo_emit [simp]: "solo (emit fx' k) (self, fx) = solo k (self, fx @ fx')"
  by (simp add: emit_def)

text \<open>A commit without interruption: what the handlers of \<open>Replica\<close> do.\<close>

primrec commit_now ::
  "('s, 'd, 'x, 'q, 'm, 'r) crdt_ops \<Rightarrow> ('v, 's, 'd, 'x, 'm) codec \<Rightarrow> ('d, 'x, 'm) entry \<Rightarrow> ('s, 'w) replica \<Rightarrow>
   (('s, 'w) replica \<times> 'r option) exec" where
  "commit_now ops c (EntryMutation m) self =
     exec_map (\<lambda>(self', r). (self', Some r)) (handle_client_mutation ops c io_ok m self)"
| "commit_now ops c (EntryDelta g) self = exec_map (\<lambda>self'. (self', None)) (commit_delta ops c io_ok g self)"
| "commit_now ops c (EntryMarker k) self = exec_map (\<lambda>self'. (self', None)) (replica_apply_gc_marker ops c io_ok k self)"

lemma commit_now_phases:
  "commit_now ops c e self = exec_bind (journal_phase c e self) (\<lambda>(self1, _). apply_phase ops e self1)"
proof (cases e)
  case (EntryDelta g)
  then show ?thesis
    by (cases "append_delta_group c io_ok g (rp_journal self)"; cases "op_merge_delta_group ops (rp_crdt self) g")
      (simp_all add: commit_delta_def journal_phase_def)
next
  case (EntryMutation m)
  obtain jd r where jd: "append_mutation c io_ok m (rp_journal self) = (jd, r)" by fastforce
  show ?thesis
    by (cases r; cases "op_mutate ops (rp_crdt self) m")
      (auto simp: EntryMutation handle_client_mutation_def journal_phase_def jd split: prod.splits)
next
  case (EntryMarker k)
  then show ?thesis
    by (cases "append_gc_marker c io_ok k (rp_journal self)"; cases "push_gc_marker (rp_wrapper self) k")
      (simp_all add: replica_apply_gc_marker_def journal_phase_def Let_def)
qed

lemma solo_commit [simp]:
  "solo (commit_task ops c e k) (self, fx) = exec_bind (commit_now ops c e self) (\<lambda>(self', r). solo (k r) (self', fx))"
proof (cases "journal_phase c e self")
  case (Done x)
  obtain self1 u where x: "x = (self1, u)" by (cases x)
  show ?thesis
    by (cases "apply_phase ops e self1")
      (auto simp: commit_now_phases Done x commit_task_def append_access_def apply_access_def split: prod.splits)
qed (simp add: commit_now_phases commit_task_def append_access_def)

lemma solo_refresh [simp]:
  "solo (refresh_task ops k) (self, fx) =
     exec_bind (refresh_own_version_vector ops self) (\<lambda>(self', _). solo k (self', fx))"
  by (simp add: refresh_task_def)

lemma solo_observe_gc:
  "solo (observe_gc_task ops c mk k) (self, fx) = exec_bind (observe_gc ops c io_ok mk self) (\<lambda>self'. solo k (self', fx))"
  by (cases "replica_apply_gc_marker ops c io_ok mk self") (simp_all add: observe_gc_task_def observe_gc_def)

lemma solo_handle_delta:
  "solo (handle_delta_task ops c g mk) (self, fx) =
     exec_map (\<lambda>self'. ((self', fx), None)) (handle_delta ops c io_ok g mk self)"
proof (cases "observe_gc ops c io_ok mk self")
  case (Done s1)
  show ?thesis
  proof (cases "commit_delta ops c io_ok g s1")
    case (Done s2)
    then show ?thesis using \<open>observe_gc ops c io_ok mk self = Done s1\<close>
      by (cases "refresh_own_version_vector ops s2")
        (auto simp: handle_delta_task_def handle_delta_def solo_observe_gc split: prod.splits)
  qed (use Done in \<open>simp add: handle_delta_task_def handle_delta_def solo_observe_gc\<close>)
qed (simp add: handle_delta_task_def handle_delta_def solo_observe_gc)

lemma solo_merge_payload:
  "solo (merge_shutdown_payload_task ops c payload k) (self, fx) =
     exec_bind (merge_shutdown_payload ops c io_ok payload self) (\<lambda>(self', merged). solo (k merged) (self', fx))"
  by (auto simp: merge_shutdown_payload_task_def merge_shutdown_payload_def Let_def exec_bind_assoc exec_bind_map
      case_prod_unfold split: option.splits)

lemma solo_shutdown_descriptor:
  "solo (handle_shutdown_descriptor_task ops c payloads d k) (self, fx) =
     exec_bind (handle_shutdown_descriptor ops c io_ok payloads d self) (\<lambda>self'. solo k (self', fx))"
proof (cases "rd_final_counter d")
  case (Some n)
  then show ?thesis
    by (cases "merge_shutdown_payload ops c io_ok (payloads d) self")
      (auto simp: handle_shutdown_descriptor_task_def handle_shutdown_descriptor_def solo_merge_payload Let_def
        split: prod.splits)
qed (simp add: handle_shutdown_descriptor_task_def handle_shutdown_descriptor_def)

lemma solo_shutdown_descriptors:
  "solo (foldr (handle_shutdown_descriptor_task ops c payloads) ds (Finished None)) (self, fx) =
     exec_map (\<lambda>self'. ((self', fx), None)) (exec_fold (handle_shutdown_descriptor ops c io_ok payloads) ds self)"
proof (induction ds arbitrary: self)
  case (Cons d ds)
  then show ?case
    by (cases "handle_shutdown_descriptor ops c io_ok payloads d self") (simp_all add: solo_shutdown_descriptor)
qed simp

lemma solo_membership_poll:
  "solo (apply_membership_poll_task ops c payloads polled) (self, fx) =
     exec_map (\<lambda>self'. ((self', fx), None)) (apply_membership_poll ops c io_ok payloads polled self)"
  by (auto simp: apply_membership_poll_task_def apply_membership_poll_def solo_shutdown_descriptors
      split: option.splits prod.splits)

lemma solo_finish_gc:
  "solo (finish_gc_task ans departed d) (self, fx) =
     (if \<not> sa_write_persistent ans then Done ((self, fx @ [WritePersistentReplica (persistent_of self)]), None)
      else case departed of
        None \<Rightarrow> Done ((self, fx @ [WritePersistentReplica (persistent_of self), DeleteDescriptor d]), None)
      | Some ps \<Rightarrow> (case gc_departed_pids ans ps self of (self', fx') \<Rightarrow>
          Done ((self', fx @ WritePersistentReplica (persistent_of self) # fx' @ [DeleteDescriptor d]), None)))"
  by (auto simp: finish_gc_task_def Let_def split: option.splits prod.splits)

lemma solo_complete_gc:
  "solo (commit_task ops c (EntryMarker mk) (\<lambda>_. finish_gc_task ans (gm_departed_pids mk) d)) (self, fx) =
     exec_map (\<lambda>(self', completed, fx'). ((self', fx @ fx' @ (if completed then [DeleteDescriptor d] else [])), None))
       (complete_local_gc ops c io_ok ans mk self)"
  by (cases "replica_apply_gc_marker ops c io_ok mk self")
    (auto simp: complete_local_gc_def solo_finish_gc Let_def split: option.splits prod.splits)

lemma solo_init_gc:
  "solo (init_gc_task ops c ans) (self, fx) =
     exec_map (\<lambda>(self', fx'). ((self', fx @ fx'), None)) (init_gc ops c io_ok ans self)"
proof (cases "refresh_own_version_vector ops self")
  case (Done x)
  obtain s1 vv where x: "x = (s1, vv)" by (cases x)
  note refresh = Done[unfolded x]
  consider (fails) p where "needs_gc (rp_wrapper s1) = Panicked p" | (idle) "needs_gc (rp_wrapper s1) = Done False"
    | (due) "needs_gc (rp_wrapper s1) = Done True"
    by (cases "needs_gc (rp_wrapper s1)") auto
  then show ?thesis
  proof cases
    case due
    obtain now departed where get: "get_stable (wr_version_matrix (rp_wrapper s1)) = Done (now, departed)"
      using due by (auto simp: needs_gc_def exec_simps)
    show ?thesis
    proof (cases now)
      case (Some st)
      let ?mk = "\<lparr>gm_marker = next_gc_marker (rp_wrapper s1), gm_stable = st, gm_departed_pids = departed\<rparr>"
      obtain s2 valid fx2 where v: "validate_gc_membership ans (membership_gc_counters_by_pid (rp_members s1))
          (epoch_descriptor s1) s1 = (s2, valid, fx2)"
        by (metis prod_cases3)
      show ?thesis
        using solo_complete_gc[of ops c ?mk ans "own_descriptor s1" s2 "fx @ CreateDescriptor (epoch_descriptor s1) # fx2"]
        by (cases "complete_local_gc ops c io_ok ans ?mk s2")
          (auto simp: init_gc_task_def init_gc_due[OF refresh due get[unfolded Some]] refresh due get Some
            change_own_gc_counter_def Let_def v)
    qed (simp add: init_gc_task_def init_gc_def refresh due get)
  qed (simp_all add: init_gc_task_def init_gc_def refresh)
qed (simp add: init_gc_task_def init_gc_def)

text \<open>The same for every event: the atomic turns of \<open>Replica\<close> are the turns nobody interrupts.\<close>

lemma solo_event:
  "exec_map (\<lambda>((self', _), _). self') (solo (event_task ops c ev) (self, fx)) = replica_step ops c io_ok ev self"
proof (cases ev)
  case (ClientMutation m)
  then show ?thesis by (cases "handle_client_mutation ops c io_ok m self") (auto split: prod.splits)
next
  case LocalMutation
  then show ?thesis by (cases "refresh_own_version_vector ops self") (auto split: prod.splits)
next
  case (RemoteDelta g mk)
  then show ?thesis by (cases "handle_delta ops c io_ok g mk self") (auto simp: solo_handle_delta)
next
  case (RemoteVersionVector send p vv)
  then show ?thesis by (cases "handle_version_vector ops send p vv self") (auto split: prod.splits)
next
  case (SyncTick i send)
  then show ?thesis by (cases "pull_delta ops i send self") (auto split: prod.splits)
next
  case (GcTick ans)
  then show ?thesis by (cases "init_gc ops c io_ok ans self") (auto simp: solo_init_gc split: prod.splits)
next
  case (MembershipPolled payloads polled)
  then show ?thesis
    by (cases "apply_membership_poll ops c io_ok payloads polled self") (auto simp: solo_membership_poll)
qed simp

end
