(* ===== verification/Commit_Linearization.thy ===== *)
theory Commit_Linearization
  imports Commit_Gate
begin

text \<open>
  What the commit gate guarantees: however the tasks interleave, clients and the journal see the
  commits one after the other, as if every commit and every query were a single step; a crash
  between any two statements is recovered to the end of such a sequence; and no task waits forever
  behind the gate.
\<close>

section \<open>The order of commits\<close>

text \<open>A history records which task did what and the response it got.\<close>

datatype ('d, 'x, 'q, 'm) action = Commit "('d, 'x, 'm) entry" | Answer 'q

type_synonym ('d, 'x, 'q, 'm, 'r) commit_history = "(task_id \<times> ('d, 'x, 'q, 'm) action \<times> 'r option) list"

text \<open>No marker reports the replica itself as departed.\<close>

fun entry_ok :: "pid \<Rightarrow> ('d, 'x, 'm) entry \<Rightarrow> bool" where
  "entry_ok p (EntryMarker k) \<longleftrightarrow> p \<notin> set (departed_list (gm_departed_pids k))"
| "entry_ok p _ \<longleftrightarrow> True"

text \<open>
  A sequential execution with this history: commits and answers happen at once; in between, the
  event loop changes only what belongs to it.
\<close>

inductive serial ::
  "('s, 'd, 'x, 'q, 'm, 'r) crdt_ops \<Rightarrow> ('v, 's, 'd, 'x, 'm) codec \<Rightarrow> ('s, 'w) replica \<Rightarrow>
   ('d, 'x, 'q, 'm, 'r) commit_history \<Rightarrow> ('s, 'w) replica \<Rightarrow> bool"
  for ops :: "('s, 'd, 'x, 'q, 'm, 'r) crdt_ops" and c :: "('v, 's, 'd, 'x, 'm) codec"
    and self0 :: "('s, 'w) replica" where
  serial_start: "serial ops c self0 [] self0"
| serial_private: "serial ops c self0 h a \<Longrightarrow> unwritten a b \<Longrightarrow> serial ops c self0 h b"
| serial_commit: "serial ops c self0 h a \<Longrightarrow> entry_ok (rp_pid a) e \<Longrightarrow> commit_now ops c e a = Done (b, r) \<Longrightarrow>
    serial ops c self0 (h @ [(who, Commit e, r)]) b"
| serial_answer: "serial ops c self0 h a \<Longrightarrow>
    serial ops c self0 (h @ [(who, Answer q, Some (op_query ops (rp_crdt a) q))]) a"

fun request_action :: "('m, 'q) client_request \<Rightarrow> ('d, 'x, 'q, 'm) action" where
  "request_action (Query q) = Answer q"
| "request_action (Mutation m) = Commit (EntryMutation m)"

text \<open>What a client has obtained: the response, once its commit has taken effect.\<close>

fun task_result :: "('st, 'r) task option \<Rightarrow> 'r option" where
  "task_result (Some (Finished r)) = Some r"
| "task_result (Some (Release (Finished r))) = Some r"
| "task_result _ = None"

definition recorded ::
  "('d, 'x, 'q, 'm, 'r) commit_history \<Rightarrow> ('s, 'q, 'm, 'r, 'w) runtime_node \<Rightarrow> bool" where
  "recorded h n \<longleftrightarrow> (\<forall>i. filter (\<lambda>x. fst x = ClientTask i) h =
     (if i < length (nd_requests n)
      then (case task_result (nd_tasks n (ClientTask i)) of
          Some r \<Rightarrow> [(ClientTask i, request_action (nd_requests n ! i), r)] | None \<Rightarrow> [])
      else []))"

text \<open>
  A history explains a node: it has a sequential execution that ends in the state clients see, in
  the replica's own state too when nobody holds the gate, and it holds, once each, exactly the
  requests that were answered.
\<close>

definition explains ::
  "('s, 'd, 'x, 'q, 'm, 'r) crdt_ops \<Rightarrow> ('v, 's, 'd, 'x, 'm) codec \<Rightarrow> ('s, 'w) replica \<Rightarrow>
   ('d, 'x, 'q, 'm, 'r) commit_history \<Rightarrow> ('s, 'q, 'm, 'r, 'w) runtime_node \<Rightarrow> bool" where
  "explains ops c self0 h n \<longleftrightarrow> recorded h n \<and> (\<exists>a. serial ops c self0 h a \<and> rp_crdt (nd_replica n) = rp_crdt a \<and>
     rp_wrapper (nd_replica n) = rp_wrapper a \<and> (nd_gate n = None \<longrightarrow> nd_replica n = a))"


section \<open>Accesses outside the gate\<close>

text \<open>
  An access outside the gate reads the CRDT but not the journal, and changes neither.
\<close>

definition quiet :: "pid \<Rightarrow> (('s, 'w) replica \<Rightarrow> (('s, 'w) replica \<times> 'a) exec) \<Rightarrow> bool" where
  "quiet p f \<longleftrightarrow>
     (\<forall>self jd. f (self\<lparr>rp_journal := jd\<rparr>) = exec_map (\<lambda>(self', x). (self'\<lparr>rp_journal := jd\<rparr>, x)) (f self)) \<and>
     (\<forall>self self' x. rp_pid self = p \<longrightarrow> f self = Done (self', x) \<longrightarrow> unwritten self self')"

definition quiet_access ::
  "pid \<Rightarrow> (('s, 'w) runtime \<Rightarrow> (('s, 'w) runtime \<times> (('s, 'w) runtime, 'r) task) exec) \<Rightarrow> bool" where
  "quiet_access p f \<longleftrightarrow>
     (\<forall>self fx jd. f (self\<lparr>rp_journal := jd\<rparr>, fx) =
        exec_map (\<lambda>((self', fx'), t). ((self'\<lparr>rp_journal := jd\<rparr>, fx'), t)) (f (self, fx))) \<and>
     (\<forall>self fx self' fx' t. rp_pid self = p \<longrightarrow> f (self, fx) = Done ((self', fx'), t) \<longrightarrow> unwritten self self')"

lemma quiet_journal:
  "quiet p f \<Longrightarrow> f (self\<lparr>rp_journal := jd\<rparr>) = exec_map (\<lambda>(self', x). (self'\<lparr>rp_journal := jd\<rparr>, x)) (f self)"
  unfolding quiet_def by blast

lemma quiet_unwritten: "quiet p f \<Longrightarrow> rp_pid self = p \<Longrightarrow> f self = Done (self', x) \<Longrightarrow> unwritten self self'"
  unfolding quiet_def by blast

lemma quiet_on_replica:
  assumes "quiet p f"
  shows "quiet_access p (\<lambda>(self, fx). exec_map (\<lambda>(self', x). ((self', fx), k x)) (f self))"
proof -
  have "exec_map (\<lambda>(self', x). ((self', fx), k x)) (f (self\<lparr>rp_journal := jd\<rparr>)) =
    exec_map (\<lambda>((self', fx'), t). ((self'\<lparr>rp_journal := jd\<rparr>, fx'), t))
      (exec_map (\<lambda>(self', x). ((self', fx), k x)) (f self))" for self fx jd
    unfolding quiet_journal[OF assms] by (cases "f self") (auto split: prod.splits)
  then show ?thesis using quiet_unwritten[OF assms] by (auto simp: quiet_access_def exec_simps)
qed

lemma quiet_look: "(\<And>self jd. f (self\<lparr>rp_journal := jd\<rparr>) = f self) \<Longrightarrow> quiet p (\<lambda>self. Done (self, f self))"
  by (simp add: quiet_def)

lemma quiet_refresh: "quiet p (refresh_own_version_vector ops)"
proof -
  have "refresh_own_version_vector ops (self\<lparr>rp_journal := jd\<rparr>) =
    exec_map (\<lambda>(self', x). (self'\<lparr>rp_journal := jd\<rparr>, x)) (refresh_own_version_vector ops self)" for self :: "('a, 'b) replica" and jd
    by (cases "update_own_version_vector (rp_wrapper self) (op_get_version_vector ops (rp_crdt self))")
      (auto simp: refresh_own_version_vector_def)
  then show ?thesis by (auto simp: quiet_def dest: refresh_unwritten)
qed

lemma quiet_pull: "quiet p (pull_delta ops i send)"
proof -
  have "pull_delta ops i send (self\<lparr>rp_journal := jd\<rparr>) =
    exec_map (\<lambda>(self', x). (self'\<lparr>rp_journal := jd\<rparr>, x)) (pull_delta ops i send self)" for self :: "('a, 'b) replica" and jd
    by (cases "update_own_version_vector (rp_wrapper self) (op_get_version_vector ops (rp_crdt self))"; cases send)
      (auto simp: pull_delta_def refresh_own_version_vector_def split: option.splits)
  then show ?thesis by (auto simp: quiet_def dest: pull_unwritten)
qed

lemma quiet_version_vector: "quiet p (handle_version_vector ops send q vv)"
proof -
  have "handle_version_vector ops send q vv (self\<lparr>rp_journal := jd\<rparr>) =
    exec_map (\<lambda>(self', x). (self'\<lparr>rp_journal := jd\<rparr>, x)) (handle_version_vector ops send q vv self)"
    for self :: "('a, 'b) replica" and jd
  proof (cases "vm_update (wr_version_matrix (rp_wrapper self)) q vv")
    case (Done m)
    let ?u = "update_own_version_vector ((rp_wrapper self)\<lparr>wr_version_matrix := m\<rparr>)
      (dg_version_vector (op_get_delta ops (rp_crdt self) vv))"
    show ?thesis
    proof (cases ?u)
      case (Done y)
      then show ?thesis using \<open>vm_update _ q vv = Done m\<close>
        by (cases "gc_metadata (fst y)"; cases send)
          (auto simp: handle_version_vector_def Let_def split: option.splits prod.splits)
    qed (simp add: Done handle_version_vector_def)
  qed (simp add: handle_version_vector_def)
  then show ?thesis by (auto simp: quiet_def dest: version_vector_unwritten)
qed


section \<open>Tasks that respect the gate\<close>

text \<open>Outside the gate a task only makes quiet accesses; what it commits is a whole commit.\<close>

inductive well_gated ::
  "('s, 'd, 'x, 'q, 'm, 'r) crdt_ops \<Rightarrow> ('v, 's, 'd, 'x, 'm) codec \<Rightarrow> pid \<Rightarrow>
   (('s, 'w) runtime, 'r option) task \<Rightarrow> bool"
  for ops :: "('s, 'd, 'x, 'q, 'm, 'r) crdt_ops" and c :: "('v, 's, 'd, 'x, 'm) codec" and p :: pid where
  wg_finished: "well_gated ops c p (Finished r)"
| wg_access: "quiet_access p f \<Longrightarrow>
    (\<And>self fx st' t. rp_pid self = p \<Longrightarrow> live_inv self \<Longrightarrow> f (self, fx) = Done (st', t) \<Longrightarrow> well_gated ops c p t) \<Longrightarrow>
    well_gated ops c p (Access f)"
| wg_commit: "entry_ok p e \<Longrightarrow> (\<And>r. well_gated ops c p (k r)) \<Longrightarrow> well_gated ops c p (commit_task ops c e k)"

inductive_cases well_gated_AccessE: "well_gated ops c p (Access f)"
inductive_cases well_gated_AcquireE: "well_gated ops c p (Acquire t)"
inductive_cases well_gated_ReleaseE: "well_gated ops c p (Release t)"

lemma wg_on_replica:
  assumes "quiet p f"
    and "\<And>self self' x. rp_pid self = p \<Longrightarrow> live_inv self \<Longrightarrow> f self = Done (self', x) \<Longrightarrow> well_gated ops c p (k x)"
  shows "well_gated ops c p (on_replica f k)"
  unfolding on_replica_def
  by (rule wg_access[OF quiet_on_replica[OF assms(1)]]) (use assms(2) in \<open>auto simp: exec_simps\<close>)

lemma wg_look:
  assumes "\<And>self jd. f (self\<lparr>rp_journal := jd\<rparr>) = f self"
    and "\<And>self. rp_pid self = p \<Longrightarrow> live_inv self \<Longrightarrow> well_gated ops c p (k (f self))"
  shows "well_gated ops c p (look f k)"
  unfolding look_def by (rule wg_on_replica[OF quiet_look]) (use assms in auto)

lemma wg_emit: "well_gated ops c p k \<Longrightarrow> well_gated ops c p (emit fx k)"
  unfolding emit_def by (rule wg_access) (auto simp: quiet_access_def)

lemma wg_refresh: "well_gated ops c p k \<Longrightarrow> well_gated ops c p (refresh_task ops k)"
  unfolding refresh_task_def by (rule wg_on_replica[OF quiet_refresh])

lemmas wg_intros = wg_finished wg_commit wg_emit wg_refresh

lemma wg_request: "well_gated ops c p (request_task ops c req)"
  by (cases req) (auto intro!: wg_intros wg_look)

lemma wg_observe_gc:
  assumes "p \<notin> set (departed_list (gm_departed_pids mk))" "well_gated ops c p k"
  shows "well_gated ops c p (observe_gc_task ops c mk k)"
  unfolding observe_gc_task_def by (rule wg_look) (use assms in \<open>auto intro!: wg_intros\<close>)

lemma wg_handle_delta:
  assumes "p \<notin> set (departed_list (gm_departed_pids mk))"
  shows "well_gated ops c p (handle_delta_task ops c g mk)"
  unfolding handle_delta_task_def by (rule wg_look) (use assms in \<open>auto intro!: wg_intros wg_observe_gc\<close>)

lemma wg_merge_payload:
  assumes "\<And>merged. well_gated ops c p (k merged)"
  shows "well_gated ops c p (merge_shutdown_payload_task ops c payload k)"
  using assms unfolding merge_shutdown_payload_task_def
  by (auto intro!: wg_intros wg_look split: option.split)

lemma quiet_observe_departed:
  assumes "dot_pid d \<noteq> p"
  shows "quiet p (\<lambda>self. Done (self\<lparr>rp_wrapper := observe_departed_replica (rp_wrapper self) d,
    rp_network := notify_departure (rp_network self) descriptor\<rparr>, ()))"
  unfolding quiet_def using observe_departed_unwritten assms by auto

lemma quiet_final_dot:
  "quiet p (\<lambda>self. exec_map (\<lambda>n. (self, Dot q n, should_fetch_departed_replica (rp_wrapper self) (Dot q n))) (expect msg x))"
  unfolding quiet_def by (cases x) auto

lemma wg_shutdown_descriptor:
  assumes "rd_pid d \<noteq> p" "well_gated ops c p k"
  shows "well_gated ops c p (handle_shutdown_descriptor_task ops c payloads d k)"
  unfolding handle_shutdown_descriptor_task_def
proof (rule wg_on_replica[OF quiet_final_dot], goal_cases)
  case (1 self self' x)
  then obtain n where "fst x = Dot (rd_pid d) n" by (auto simp: exec_simps)
  then show ?case
    using assms by (auto split: prod.split intro!: wg_merge_payload wg_on_replica[OF quiet_observe_departed])
qed

lemma wg_shutdown_descriptors:
  assumes "\<forall>d \<in> set ds. rd_pid d \<noteq> p"
  shows "well_gated ops c p (foldr (handle_shutdown_descriptor_task ops c payloads) ds (Finished None))"
  using assms by (induction ds) (auto intro: wg_finished wg_shutdown_descriptor)

lemma quiet_enqueue:
  "quiet p (\<lambda>self. case enqueue_members (rp_network self) members (rp_wrapper self) of
     (net, w) \<Rightarrow> Done (self\<lparr>rp_members := members, rp_network := net, rp_wrapper := w\<rparr>, ()))"
proof -
  have "unwritten self (self\<lparr>rp_members := members, rp_network := net, rp_wrapper := w\<rparr>)"
    if "enqueue_members (rp_network self) members (rp_wrapper self) = (net, w)" for self :: "('a, 'b) replica" and net w
    using enqueue_unwritten[OF that] by (simp add: unwritten_def live_inv_def)
  then show ?thesis by (auto simp: quiet_def split: prod.splits)
qed

lemma wg_membership_poll:
  assumes "event_ok p (MembershipPolled payloads polled)"
  shows "well_gated ops c p (apply_membership_poll_task ops c payloads polled)"
proof (cases polled)
  case (Some members)
  have "\<forall>d \<in> set (filter is_shutdown members). rd_pid d \<noteq> p"
    using assms by (force simp: Some shutdown_pids_def)
  then show ?thesis
    by (auto simp: apply_membership_poll_task_def Some intro!: wg_on_replica[OF quiet_enqueue] wg_shutdown_descriptors)
qed (simp add: apply_membership_poll_task_def wg_finished)

abbreviation due_round :: "('s, 'w) replica \<Rightarrow> (('s, 'w) replica \<times> (dot_set \<times> pid list option) option) exec" where
  "due_round \<equiv> \<lambda>self. exec_bind (needs_gc (rp_wrapper self)) (\<lambda>due. if \<not> due then Done (self, None)
     else exec_map (\<lambda>(now_stable, departed_pids). (self, map_option (\<lambda>st. (st, departed_pids)) now_stable))
            (get_stable (wr_version_matrix (rp_wrapper self))))"

lemma due_round_Done:
  assumes "due_round self = Done (self', x)"
  shows "self' = self" "x = Some (st, departed) \<Longrightarrow> get_stable (wr_version_matrix (rp_wrapper self)) = Done (Some st, departed)"
  using assms by (auto simp: exec_simps eq_commute[of "Some (st, departed)"] split: if_splits)

lemma quiet_due_round: "quiet p due_round"
proof -
  have "due_round (self\<lparr>rp_journal := jd\<rparr>) = exec_map (\<lambda>(self', x). (self'\<lparr>rp_journal := jd\<rparr>, x)) (due_round self)"
    for self :: "('a, 'b) replica" and jd
    by (cases "needs_gc (rp_wrapper self)"; cases "get_stable (wr_version_matrix (rp_wrapper self))")
      (auto split: prod.splits)
  then show ?thesis unfolding quiet_def by (metis due_round_Done(1) unwritten_refl)
qed

lemma quiet_validate: "quiet p (\<lambda>self. Done (validate_gc_membership ans previous d self))"
proof -
  have "validate_gc_membership ans previous d (self\<lparr>rp_journal := jd\<rparr>) =
    (case validate_gc_membership ans previous d self of (self', x) \<Rightarrow> (self'\<lparr>rp_journal := jd\<rparr>, x))"
    for self :: "('a, 'b) replica" and jd
    by (auto simp: validate_gc_membership_def Let_def split: option.splits)
  then show ?thesis by (auto simp: quiet_def dest: validate_unwritten)
qed

lemma quiet_gc_departed: "quiet p (\<lambda>self. Done (gc_departed_pids ans ps self))"
  by (auto simp: quiet_def gc_departed_pids_def)

lemma wg_finish_gc: "well_gated ops c p (finish_gc_task ans departed d)"
  unfolding finish_gc_task_def Let_def
  by (rule wg_look) (auto simp: persistent_of_def intro!: wg_intros wg_on_replica[OF quiet_gc_departed] split: option.split)

lemma wg_init_gc: "well_gated ops c p (init_gc_task ops c ans)"
  unfolding init_gc_task_def
proof (rule wg_refresh, rule wg_on_replica[OF quiet_due_round], goal_cases)
  case (1 self self' x)
  show ?case
  proof (cases x)
    case (Some y)
    obtain st departed where y: "y = (st, departed)" by (cases y)
    have "p \<notin> set (departed_list departed)"
      using own_not_departed[OF due_round_Done(2)[OF 1(3)]] 1(1,2) Some y by (simp add: live_inv_def)
    then show ?thesis unfolding Some y option.case prod.case
      by (intro wg_look)
        (auto simp: own_descriptor_def change_own_gc_counter_def Let_def split: prod.split intro!: wg_intros wg_finish_gc wg_on_replica[OF quiet_validate])
  qed (simp add: wg_finished)
qed

lemma wg_event:
  assumes "event_ok p ev"
  shows "well_gated ops c p (event_task ops c ev)"
proof (cases ev)
  case (PeerWriter q w)
  then show ?thesis by (auto intro!: wg_on_replica wg_finished simp: quiet_def)
qed (use assms in \<open>auto intro!: wg_intros wg_request wg_handle_delta wg_init_gc wg_membership_poll
  wg_on_replica[OF quiet_version_vector] wg_on_replica[OF quiet_pull] simp del: request_task.simps\<close>)


section \<open>Inside the gate\<close>

text \<open>
  A client commits its own mutation and answers with the response; the loop may commit anything and
  go on.
\<close>

fun commits_for ::
  "('m, 'q) client_request option \<Rightarrow> ('d, 'x, 'm) entry \<Rightarrow> ('r option \<Rightarrow> (('s, 'w) runtime, 'r option) task) \<Rightarrow> bool" where
  "commits_for None e k \<longleftrightarrow> True"
| "commits_for (Some req) e k \<longleftrightarrow> request_action req = Commit e \<and> k = Finished"

text \<open>
  The holder of the gate, the state \<open>a\<close> the sequence of commits has reached, and the state in memory
  and on disk: nothing done yet; journaled but not applied; or finished.
\<close>

inductive in_gate ::
  "('s, 'd, 'x, 'q, 'm, 'r) crdt_ops \<Rightarrow> ('v, 's, 'd, 'x, 'm) codec \<Rightarrow> pid \<Rightarrow> ('m, 'q) client_request option \<Rightarrow>
   ('s, 'w) replica \<Rightarrow> (('s, 'w) runtime, 'r option) task \<Rightarrow> ('s, 'w) replica \<Rightarrow> bool"
  for ops :: "('s, 'd, 'x, 'q, 'm, 'r) crdt_ops" and c :: "('v, 's, 'd, 'x, 'm) codec" and p :: pid
    and owner :: "('m, 'q) client_request option" and a :: "('s, 'w) replica" where
  gate_entered: "entry_ok p e \<Longrightarrow> (\<And>r. well_gated ops c p (k r)) \<Longrightarrow> commits_for owner e k \<Longrightarrow>
    in_gate ops c p owner a (append_access ops c e k) a"
| gate_journaled: "entry_ok p e \<Longrightarrow> (\<And>r. well_gated ops c p (k r)) \<Longrightarrow> commits_for owner e k \<Longrightarrow>
    journal_phase c e a = Done (self, ()) \<Longrightarrow> in_gate ops c p owner a (apply_access ops e k) self"
| gate_applied: "well_gated ops c p k \<Longrightarrow> (owner \<noteq> None \<Longrightarrow> \<exists>r. k = Finished r) \<Longrightarrow>
    in_gate ops c p owner a (Release k) a"

inductive_cases in_gate_FinishedE: "in_gate ops c p owner a (Finished r) self"

lemma in_gate_not_finished [simp]: "\<not> in_gate ops c p owner a (Finished r) self"
  by (auto elim!: in_gate_FinishedE simp: append_access_def apply_access_def on_replica_def)

lemma in_gate_frame:
  "in_gate ops c p owner a t self \<Longrightarrow> self = a\<lparr>rp_journal := rp_journal self\<rparr>"
  by (induction rule: in_gate.induct) (auto simp: journal_phase_def exec_simps)

text \<open>The event loop may go on with its own state while a client holds the gate.\<close>

lemma in_gate_private:
  assumes "in_gate ops c p owner a t self" "unwritten a b"
  shows "in_gate ops c p owner b t (b\<lparr>rp_journal := rp_journal self\<rparr>)"
proof -
  have b: "b\<lparr>rp_journal := rp_journal a\<rparr> = b" using assms(2) by (cases b) (simp add: unwritten_def)
  from assms(1) show ?thesis
  proof cases
    case (gate_entered e k)
    then show ?thesis using b in_gate.gate_entered[of p e ops c k owner b] by simp
  next
    case (gate_journaled e k)
    then have "journal_phase c e b = Done (b\<lparr>rp_journal := rp_journal self\<rparr>, ())"
      using assms(2) by (auto simp: journal_phase_def exec_simps unwritten_def)
    then show ?thesis using gate_journaled in_gate.gate_journaled[of p e ops c k owner b] by simp
  next
    case (gate_applied k)
    then show ?thesis using b in_gate.gate_applied[of ops c p k owner b] by simp
  qed
qed

text \<open>A journaled commit is applied.\<close>

lemma apply_phase_total:
  assumes "ops_total ops" "live_inv self" "entry_ok (rp_pid self) e"
  obtains self' r where "apply_phase ops e self = Done (self', r)"
proof (cases e)
  case (EntryDelta g)
  obtain s where "op_merge_delta_group ops (rp_crdt self) g = Done s" using assms(1) unfolding ops_total_def by blast
  then show ?thesis using EntryDelta that by simp
next
  case (EntryMutation m)
  obtain s r where "op_mutate ops (rp_crdt self) m = Done (s, r)" using assms(1) unfolding ops_total_def by blast
  then show ?thesis using EntryMutation that by simp
next
  case (EntryMarker mk)
  obtain w where "push_gc_marker (rp_wrapper self) mk = Done w"
    by (rule push_gc_marker_total[of "rp_wrapper self" mk]) (use assms EntryMarker in \<open>auto simp: live_inv_def\<close>)
  then show ?thesis using EntryMarker that by simp
qed

lemma commit_live:
  assumes "live_inv a" "entry_ok (rp_pid a) e" "commit_now ops c e a = Done (b, r)"
  shows "live_inv b \<and> rp_pid b = rp_pid a"
proof (cases e)
  case (EntryMarker mk)
  then obtain jd w where w: "push_gc_marker (rp_wrapper a) mk = Done w"
    "b = a\<lparr>rp_journal := jd, rp_crdt := op_gc ops (rp_crdt a) (gm_stable mk) (gm_departed_pids mk), rp_wrapper := w\<rparr>"
    using assms(3) by (auto simp: replica_apply_gc_marker_def exec_simps Let_def)
  show ?thesis using marker_live[OF assms(1) _ w(1)] assms(2) EntryMarker w(2) by simp
qed (use assms in \<open>auto simp: commit_now_phases journal_phase_def exec_simps live_inv_def\<close>)


section \<open>The invariant\<close>

definition owner_of :: "('s, 'q, 'm, 'r, 'w) runtime_node \<Rightarrow> task_id \<Rightarrow> ('m, 'q) client_request option" where
  "owner_of n who = (case who of LoopTask \<Rightarrow> None | ClientTask i \<Rightarrow> Some (nd_requests n ! i))"

lemma owner_of_simps [simp]: "owner_of n LoopTask = None" "owner_of n (ClientTask i) = Some (nd_requests n ! i)"
  by (simp_all add: owner_of_def)

lemma owner_of_update [simp]:
  "owner_of (n\<lparr>nd_state := st\<rparr>) = owner_of n" "owner_of (n\<lparr>nd_gate := g\<rparr>) = owner_of n"
  "owner_of (n\<lparr>nd_tasks := ts\<rparr>) = owner_of n"
  by (simp_all add: owner_of_def fun_eq_iff split: task_id.split)

text \<open>A client outside the gate has not begun or has its answer.\<close>

definition outside ::
  "('s, 'd, 'x, 'q, 'm, 'r) crdt_ops \<Rightarrow> ('v, 's, 'd, 'x, 'm) codec \<Rightarrow> pid \<Rightarrow> ('m, 'q) client_request option \<Rightarrow>
   (('s, 'w) runtime, 'r option) task \<Rightarrow> bool" where
  "outside ops c p owner t \<longleftrightarrow> well_gated ops c p t \<and>
     (\<forall>req. owner = Some req \<longrightarrow> t = request_task ops c req \<or> (\<exists>r. t = Finished r))"

definition gate_inv ::
  "('s, 'd, 'x, 'q, 'm, 'r) crdt_ops \<Rightarrow> ('v, 's, 'd, 'x, 'm) codec \<Rightarrow> ('s, 'w) replica \<Rightarrow>
   ('d, 'x, 'q, 'm, 'r) commit_history \<Rightarrow> ('s, 'w) replica \<Rightarrow> ('s, 'q, 'm, 'r, 'w) runtime_node \<Rightarrow> bool" where
  "gate_inv ops c self0 h a n \<longleftrightarrow> serial ops c self0 h a \<and> rp_pid a = rp_pid self0 \<and> live_inv a \<and> recorded h n \<and>
     (nd_gate n = None \<longrightarrow> nd_replica n = a) \<and>
     (\<forall>who. nd_gate n = Some who \<longrightarrow> (\<exists>t. nd_tasks n who = Some t \<and>
        in_gate ops c (rp_pid self0) (owner_of n who) a t (nd_replica n))) \<and>
     (\<forall>who t. nd_tasks n who = Some t \<longrightarrow> nd_gate n \<noteq> Some who \<longrightarrow> outside ops c (rp_pid self0) (owner_of n who) t) \<and>
     (\<forall>i. nd_tasks n (ClientTask i) \<noteq> None \<longrightarrow> i < length (nd_requests n))"

lemma recorded_same:
  assumes "recorded h n" "nd_requests n' = nd_requests n"
    and "\<And>i. task_result (nd_tasks n' (ClientTask i)) = task_result (nd_tasks n (ClientTask i))"
  shows "recorded h n'"
  using assms by (simp add: recorded_def cong: option.case_cong)

lemma recorded_loop [simp]: "recorded (h @ [(LoopTask, x, r)]) n \<longleftrightarrow> recorded h n"
  by (simp add: recorded_def)

lemma recorded_client:
  assumes "recorded h n" "i < length (nd_requests n)" "task_result (nd_tasks n (ClientTask i)) = None"
    and "nd_requests n' = nd_requests n" "nd_tasks n' = (nd_tasks n)(ClientTask i := t)" "task_result t = Some r"
  shows "recorded (h @ [(ClientTask i, request_action (nd_requests n ! i), r)]) n'"
  using assms by (auto simp: recorded_def cong: option.case_cong)

text \<open>A step of one task leaves the others as they are.\<close>

lemma gate_inv_step:
  assumes "gate_inv ops c self0 h a n" "nd_tasks n who = Some t"
    and n': "n' = n\<lparr>nd_state := st', nd_gate := g', nd_tasks := (nd_tasks n)(who := t')\<rparr>"
    and "serial ops c self0 h' b" "rp_pid b = rp_pid self0" "live_inv b" "recorded h' n'"
    and "\<And>w. w \<noteq> who \<Longrightarrow> g' = Some w \<longleftrightarrow> nd_gate n = Some w"
    and "g' = None \<Longrightarrow> fst st' = b"
    and "\<And>w u. w \<noteq> who \<Longrightarrow> g' = Some w \<Longrightarrow> in_gate ops c (rp_pid self0) (owner_of n w) a u (nd_replica n) \<Longrightarrow>
      in_gate ops c (rp_pid self0) (owner_of n w) b u (fst st')"
    and "g' = Some who \<Longrightarrow> \<exists>u. t' = Some u \<and> in_gate ops c (rp_pid self0) (owner_of n who) b u (fst st')"
    and "\<And>u. t' = Some u \<Longrightarrow> g' \<noteq> Some who \<Longrightarrow> outside ops c (rp_pid self0) (owner_of n who) u"
  shows "gate_inv ops c self0 h' b n'"
proof -
  have "\<exists>u. ((nd_tasks n)(who := t')) w = Some u \<and> in_gate ops c (rp_pid self0) (owner_of n w) b u (fst st')"
    if "g' = Some w" for w
  proof (cases "w = who")
    case False
    then have "nd_gate n = Some w" using assms(8)[of w] that by simp
    then obtain u where "nd_tasks n w = Some u" "in_gate ops c (rp_pid self0) (owner_of n w) a u (nd_replica n)"
      using assms(1) by (auto simp: gate_inv_def)
    then show ?thesis using assms(10) that False by auto
  qed (use that assms(11) in auto)
  moreover have "outside ops c (rp_pid self0) (owner_of n w) u"
    if "((nd_tasks n)(who := t')) w = Some u" "g' \<noteq> Some w" for w u
    using that assms(1,8,12) by (cases "w = who") (auto simp: gate_inv_def)
  ultimately show ?thesis using assms(1,2,4-7,9) by (auto simp: gate_inv_def n')
qed

text \<open>The steps of the holder.\<close>

abbreviation stepped ::
  "('s, 'q, 'm, 'r, 'w) runtime_node \<Rightarrow> task_id \<Rightarrow> ('s, 'w) runtime \<Rightarrow> task_id option \<Rightarrow>
   (('s, 'w) runtime, 'r option) task option \<Rightarrow> ('s, 'q, 'm, 'r, 'w) runtime_node" where
  "stepped n who st' g' t' \<equiv> n\<lparr>nd_state := st', nd_gate := g', nd_tasks := (nd_tasks n)(who := t')\<rparr>"

lemma gate_inv_outside:
  "gate_inv ops c self0 h a n \<Longrightarrow> nd_gate n \<noteq> Some who \<Longrightarrow> nd_tasks n who = Some t \<Longrightarrow>
    outside ops c (rp_pid self0) (owner_of n who) t"
  unfolding gate_inv_def by blast

lemma recorded_stepped_loop: "recorded h n \<Longrightarrow> recorded h (stepped n LoopTask st' g' t')"
  by (rule recorded_same) simp_all

lemma recorded_stepped:
  assumes "recorded h n" "nd_tasks n who = Some t" "task_result t' = task_result (Some t)"
  shows "recorded h (stepped n who st' g' t')"
  by (rule recorded_same[OF assms(1)]) (use assms in auto)

lemma task_result_access [simp]:
  "task_result (Some (append_access ops c e k)) = None" "task_result (Some (apply_access ops e k)) = None"
  "task_result (Some (request_task ops c req)) = None"
  by (simp_all add: append_access_def apply_access_def on_replica_def)
    (cases req; simp add: look_def on_replica_def commit_task_def)

lemma recorded_commit:
  assumes "recorded h n" "nd_tasks n who = Some t" "task_result (Some t) = None" "commits_for (owner_of n who) e k"
    and "\<forall>i. nd_tasks n (ClientTask i) \<noteq> None \<longrightarrow> i < length (nd_requests n)"
  shows "recorded (h @ [(who, Commit e, r)]) (stepped n who st' g' (Some (Release (k r))))"
proof (cases who)
  case LoopTask
  then show ?thesis using recorded_stepped_loop[OF assms(1)] by simp
next
  case (ClientTask i)
  then show ?thesis using assms recorded_client[of h n i "stepped n who st' g' (Some (Release (k r)))" "Some (Release (k r))" r]
    by (auto simp: owner_of_def)
qed

lemma holder_append:
  assumes "gate_inv ops c self0 h a n" "nd_gate n = Some who" "nd_tasks n who = Some (append_access ops c e k)"
    and "nd_state n = (a, fx)" "task_step who (nd_state n, nd_gate n, append_access ops c e k) (st', g', t')"
    and e: "entry_ok (rp_pid self0) e" "\<And>r. well_gated ops c (rp_pid self0) (k r)" "commits_for (owner_of n who) e k"
  shows "gate_inv ops c self0 (h @ []) a (stepped n who st' g' t')"
proof -
  have inv: "serial ops c self0 h a" "rp_pid a = rp_pid self0" "live_inv a" "recorded h n"
    using assms(1) by (auto simp: gate_inv_def)
  note frame = gate_inv_step[OF assms(1,3) refl]
  have r: "recorded (h @ []) (stepped n who st' g' t')" if "task_result t' = None"
    using recorded_stepped[OF inv(4) assms(3)] that by simp
  consider (appended) self' where "journal_phase c e a = Done (self', ())" "st' = (self', fx)" "g' = Some who"
      "t' = Some (apply_access ops e k)"
    | (panicked) "st' = (a, fx)" "g' = None" "t' = None"
    using assms(5) unfolding append_access_def on_replica_def by (auto simp: task_step_Access exec_simps assms(2,4))
  then show ?thesis
  proof cases
    case appended
    then show ?thesis using e inv assms(2) r by (intro frame) (auto intro: in_gate.intros)
  next
    case panicked
    then show ?thesis using inv assms(2) r by (intro frame) auto
  qed
qed

lemma holder_apply:
  assumes "ops_total ops" "gate_inv ops c self0 h a n" "nd_gate n = Some who" "nd_tasks n who = Some (apply_access ops e k)"
    and "nd_state n = (self, fx)" "task_step who (nd_state n, nd_gate n, apply_access ops e k) (st', g', t')"
    and e: "entry_ok (rp_pid self0) e" "\<And>r. well_gated ops c (rp_pid self0) (k r)" "commits_for (owner_of n who) e k"
    and "journal_phase c e a = Done (self, ())"
  shows "\<exists>r b. gate_inv ops c self0 (h @ [(who, Commit e, r)]) b (stepped n who st' g' t')"
proof -
  have inv: "serial ops c self0 h a" "rp_pid a = rp_pid self0" "live_inv a" "recorded h n"
    and spawned: "\<forall>i. nd_tasks n (ClientTask i) \<noteq> None \<longrightarrow> i < length (nd_requests n)"
    using assms(2) by (auto simp: gate_inv_def)
  have self: "live_inv self" "rp_pid self = rp_pid self0"
    using assms(10) inv by (auto simp: journal_phase_def exec_simps live_inv_def)
  obtain b r where applied: "apply_phase ops e self = Done (b, r)"
    by (rule apply_phase_total[OF assms(1) self(1), of e]) (use e(1) self in auto)
  have now: "commit_now ops c e a = Done (b, r)" by (simp add: commit_now_phases assms(10) applied)
  have s: "serial ops c self0 (h @ [(who, Commit e, r)]) b"
    by (rule serial_commit[OF inv(1) _ now]) (use e(1) inv(2) in simp)
  have live: "live_inv b" "rp_pid b = rp_pid self0" using commit_live[OF inv(3) _ now] e(1) inv(2) by auto
  have step: "st' = (b, fx)" "g' = Some who" "t' = Some (Release (k r))"
    using assms(6) applied unfolding apply_access_def on_replica_def by (auto simp: task_step_Access assms(3,5))
  have "recorded (h @ [(who, Commit e, r)]) (stepped n who st' g' t')"
    unfolding step by (rule recorded_commit[OF inv(4) assms(4) _ e(3) spawned]) simp
  moreover have "\<exists>q. k r = Finished q" if "owner_of n who \<noteq> None" using e(3) that by auto
  ultimately have "gate_inv ops c self0 (h @ [(who, Commit e, r)]) b (stepped n who st' g' t')"
    using step s live assms(3) e(2) by (intro gate_inv_step[OF assms(2,4) refl]) (auto intro: in_gate.intros)
  then show ?thesis by blast
qed

lemma holder_release:
  assumes "gate_inv ops c self0 h a n" "nd_gate n = Some who" "nd_tasks n who = Some (Release k)"
    and "nd_state n = (a, fx)" "task_step who (nd_state n, nd_gate n, Release k) (st', g', t')"
    and k: "well_gated ops c (rp_pid self0) k" "owner_of n who \<noteq> None \<Longrightarrow> \<exists>r. k = Finished r"
  shows "gate_inv ops c self0 (h @ []) a (stepped n who st' g' t')"
proof -
  have inv: "serial ops c self0 h a" "rp_pid a = rp_pid self0" "live_inv a" "recorded h n"
    using assms(1) by (auto simp: gate_inv_def)
  have step: "st' = (a, fx)" "g' = None" "t' = Some k"
    using assms(5) by (auto simp: task_step_Release assms(4))
  have "recorded (h @ []) (stepped n who st' g' t')"
  proof (rule recorded_same)
    fix i
    show "task_result (nd_tasks (stepped n who st' g' t') (ClientTask i)) = task_result (nd_tasks n (ClientTask i))"
      using k(2) step(3) assms(3) by (cases "who = ClientTask i") auto
  qed (simp_all add: inv)
  then show ?thesis
    using step k inv assms(2) by (intro gate_inv_step[OF assms(1,3) refl]) (auto simp: outside_def)
qed

lemma holder_step:
  assumes "ops_total ops" "gate_inv ops c self0 h a n" "nd_gate n = Some who" "nd_tasks n who = Some t"
    and "task_step who (nd_state n, nd_gate n, t) (st', g', t')"
  shows "\<exists>h' b. gate_inv ops c self0 (h @ h') b (stepped n who st' g' t')"
proof -
  obtain self fx where st: "nd_state n = (self, fx)" by (cases "nd_state n")
  have "in_gate ops c (rp_pid self0) (owner_of n who) a t self" using assms(2-4) by (auto simp: gate_inv_def st)
  then show ?thesis
  proof cases
    case (gate_entered e k)
    then show ?thesis using holder_append[OF assms(2,3), of e k fx st' g' t'] assms(4,5) st by blast
  next
    case (gate_journaled e k)
    then show ?thesis using holder_apply[OF assms(1-3), of e k self fx st' g' t'] assms(4,5) st by blast
  next
    case (gate_applied k)
    then show ?thesis using holder_release[OF assms(2,3), of k fx st' g' t'] assms(4,5) st by blast
  qed
qed

text \<open>The steps of the others.\<close>

lemma quiet_access_pending:
  assumes "quiet_access p f" "rp_pid a = p" "self = a\<lparr>rp_journal := jd\<rparr>" "f (self, fx) = Done ((self', fx'), t)"
  obtains b where "f (a, fx) = Done ((b, fx'), t)" "self' = b\<lparr>rp_journal := jd\<rparr>" "unwritten a b"
proof -
  have "f (self, fx) = exec_map (\<lambda>((self', fx'), t). ((self'\<lparr>rp_journal := jd\<rparr>, fx'), t)) (f (a, fx))"
    using assms(1,3) unfolding quiet_access_def by blast
  then obtain b where b: "f (a, fx) = Done ((b, fx'), t)" "self' = b\<lparr>rp_journal := jd\<rparr>"
    using assms(4) by (cases "f (a, fx)") auto
  then have "unwritten a b" using assms(1,2) unfolding quiet_access_def by blast
  with b that show thesis by blast
qed

lemma gate_inv_pending:
  assumes "gate_inv ops c self0 h a n"
  shows "nd_replica n = a\<lparr>rp_journal := rp_journal (nd_replica n)\<rparr>"
  using assms by (cases "nd_gate n") (auto simp: gate_inv_def dest: in_gate_frame)

text \<open>An access outside the gate.\<close>

lemma outside_access:
  assumes "gate_inv ops c self0 h a n" "nd_gate n \<noteq> Some who" "nd_tasks n who = Some (Access f)"
    and "f (nd_state n) = Done (st', t')"
    and "\<And>b. unwritten a b \<Longrightarrow> rp_crdt b = rp_crdt (nd_replica n) \<Longrightarrow>
      serial ops c self0 (h @ h') b \<and> recorded (h @ h') (stepped n who st' (nd_gate n) (Some t'))"
    and "\<And>req. owner_of n who = Some req \<Longrightarrow> \<exists>r. t' = Finished r"
  shows "\<exists>b. gate_inv ops c self0 (h @ h') b (stepped n who st' (nd_gate n) (Some t'))"
proof -
  let ?p = "rp_pid self0" and ?self = "nd_replica n"
  obtain fx where st: "nd_state n = (?self, fx)" by (cases "nd_state n") simp
  obtain self' fx' where st': "st' = (self', fx')" by (cases st')
  have a: "rp_pid a = ?p" "live_inv a" "nd_gate n = None \<longrightarrow> ?self = a" using assms(1) by (auto simp: gate_inv_def)
  have "well_gated ops c ?p (Access f)" using gate_inv_outside[OF assms(1-3)] by (simp add: outside_def)
  then have f: "quiet_access ?p f" "\<And>self fx st' t. rp_pid self = ?p \<Longrightarrow> live_inv self \<Longrightarrow> f (self, fx) = Done (st', t) \<Longrightarrow>
      well_gated ops c ?p t"
    by (auto elim: well_gated_AccessE simp: commit_task_def)
  have pending: "?self = a\<lparr>rp_journal := rp_journal ?self\<rparr>" by (rule gate_inv_pending[OF assms(1)])
  obtain b where b: "f (a, fx) = Done ((b, fx'), t')" "self' = b\<lparr>rp_journal := rp_journal ?self\<rparr>" "unwritten a b"
    by (rule quiet_access_pending[OF f(1) a(1) pending, of fx self' fx' t']) (use assms(4) st st' in auto)
  have crdt: "rp_crdt b = rp_crdt ?self" using b(3) arg_cong[OF pending, of rp_crdt] by (simp add: unwritten_def)
  have "b\<lparr>rp_journal := rp_journal a\<rparr> = b" using b(3) by (cases b) (simp add: unwritten_def)
  then have free: "self' = b" if "nd_gate n = None" using that a(3) b(2) by simp
  have "gate_inv ops c self0 (h @ h') b (stepped n who st' (nd_gate n) (Some t'))"
  proof (rule gate_inv_step[OF assms(1,3) refl])
    show "outside ops c ?p (owner_of n who) u" if "Some t' = Some u" for u
      using that f(2)[OF a(1,2) b(1)] assms(6) by (auto simp: outside_def)
    show "in_gate ops c ?p (owner_of n w) b u (fst st')" if "in_gate ops c ?p (owner_of n w) a u ?self" for w u
      using in_gate_private[OF that b(3)] b(2) st' by simp
  qed (use assms(2) assms(5)[OF b(3) crdt] a b(3) free st' in \<open>auto simp: unwritten_def\<close>)
  then show ?thesis by blast
qed

lemma loop_access:
  assumes "gate_inv ops c self0 h a n" "nd_gate n \<noteq> Some LoopTask" "nd_tasks n LoopTask = Some (Access f)"
    and "f (nd_state n) = Done (st', t')"
  shows "\<exists>b. gate_inv ops c self0 (h @ []) b (stepped n LoopTask st' (nd_gate n) (Some t'))"
proof (rule outside_access[OF assms], goal_cases)
  case (1 b)
  have "recorded h n" "serial ops c self0 h a" using assms(1) by (auto simp: gate_inv_def)
  then show ?case using serial_private[OF _ 1(1)] recorded_stepped_loop[of h n] by (metis append_Nil2)
qed simp

lemma query_access:
  assumes "gate_inv ops c self0 h a n" "nd_gate n \<noteq> Some (ClientTask i)" "nd_tasks n (ClientTask i) = Some (Access f)"
    and "f (nd_state n) = Done (st', t')"
  shows "\<exists>h' b. gate_inv ops c self0 (h @ h') b (stepped n (ClientTask i) st' (nd_gate n) (Some t'))"
proof -
  let ?self = "nd_replica n" and ?req = "nd_requests n ! i"
  have i: "i < length (nd_requests n)" using assms(1,3) by (auto simp: gate_inv_def)
  have "outside ops c (rp_pid self0) (Some ?req) (Access f)" using gate_inv_outside[OF assms(1-3)] by simp
  then have "request_task ops c ?req = Access f" by (auto simp: outside_def)
  then obtain q where q: "?req = Query q" and f: "request_task ops c (Query q) = Access f"
    by (cases ?req) (auto simp: commit_task_def)
  let ?r = "Some (op_query ops (rp_crdt ?self) q)"
  have t': "t' = Finished ?r" "st' = nd_state n"
    using f assms(4) by (cases "nd_state n"; auto simp: look_def on_replica_def)+
  let ?h = "[(ClientTask i, request_action ?req, ?r)]"
  have "\<exists>b. gate_inv ops c self0 (h @ ?h) b (stepped n (ClientTask i) st' (nd_gate n) (Some t'))"
  proof (rule outside_access[OF assms], goal_cases)
    case (1 b)
    have "recorded h n" "serial ops c self0 h a" using assms(1) by (auto simp: gate_inv_def)
    then have "serial ops c self0 (h @ ?h) b" using serial_answer[OF serial_private[OF _ 1(1)]] 1(2) q by force
    moreover have "recorded (h @ ?h) (stepped n (ClientTask i) st' (nd_gate n) (Some t'))"
      using recorded_client[OF \<open>recorded h n\<close> i, of _ "Some t'" ?r] assms(3) t'(1) by simp
    ultimately show ?case ..
  qed (simp add: t')
  then show ?thesis by blast
qed

lemma outside_acquire:
  assumes "gate_inv ops c self0 h a n" "nd_gate n = None" "nd_tasks n who = Some (Acquire u)"
  shows "gate_inv ops c self0 (h @ []) a (stepped n who (nd_state n) (Some who) (Some u))"
proof -
  let ?p = "rp_pid self0"
  have inv: "serial ops c self0 h a" "rp_pid a = ?p" "live_inv a" "recorded h n" "nd_replica n = a"
    using assms(1,2) by (auto simp: gate_inv_def)
  have out: "outside ops c ?p (owner_of n who) (Acquire u)" using gate_inv_outside[OF assms(1) _ assms(3)] assms(2) by simp
  obtain e k where u: "u = append_access ops c e k" "entry_ok ?p e" "\<And>r. well_gated ops c ?p (k r)"
    "commits_for (owner_of n who) e k"
  proof (cases "owner_of n who")
    case None
    then show thesis using out that by (auto simp: outside_def commit_task_def elim!: well_gated_AcquireE)
  next
    case (Some req)
    then obtain m where "req = Mutation m" using out by (cases req) (auto simp: outside_def look_def on_replica_def)
    then show thesis using out Some that[of "EntryMutation m" Finished] by (auto simp: outside_def commit_task_def wg_finished)
  qed
  have "recorded (h @ []) (stepped n who (nd_state n) (Some who) (Some u))"
    unfolding append_Nil2 by (rule recorded_stepped[OF inv(4) assms(3)]) (simp add: u(1))
  moreover have "in_gate ops c ?p (owner_of n who) a u a" unfolding u(1) by (rule gate_entered[OF u(2-4)])
  ultimately show ?thesis
    using inv assms(2) by (intro gate_inv_step[OF assms(1,3) refl]) auto
qed

lemma outside_panic:
  assumes "gate_inv ops c self0 h a n" "nd_gate n \<noteq> Some who" "nd_tasks n who = Some (Access f)"
  shows "gate_inv ops c self0 (h @ []) a (stepped n who (nd_state n) (nd_gate n) None)"
proof -
  have "recorded (h @ []) (stepped n who (nd_state n) (nd_gate n) None)"
    unfolding append_Nil2 by (rule recorded_stepped[OF _ assms(3)]) (use assms(1) in \<open>simp_all add: gate_inv_def\<close>)
  then show ?thesis
    using assms(1,2) by (intro gate_inv_step[OF assms(1,3) refl]) (auto simp: gate_inv_def)
qed

lemma other_step:
  assumes "gate_inv ops c self0 h a n" "nd_gate n \<noteq> Some who" "nd_tasks n who = Some t"
    and "task_step who (nd_state n, nd_gate n, t) (st', g', t')"
  shows "\<exists>h' b. gate_inv ops c self0 (h @ h') b (stepped n who st' g' t')"
proof (cases t)
  case (Acquire u)
  then have "nd_gate n = None" "st' = nd_state n" "g' = Some who" "t' = Some u"
    using assms(4) by (auto simp: task_step_Acquire)
  then show ?thesis using outside_acquire[OF assms(1)] assms(3) Acquire by blast
next
  case (Access f)
  from assms(4) consider u where "f (nd_state n) = Done (st', u)" "g' = nd_gate n" "t' = Some u"
    | "st' = nd_state n" "g' = nd_gate n" "t' = None"
    using assms(2) by (auto simp: Access task_step_Access)
  then show ?thesis
  proof cases
    case 1
    then show ?thesis using loop_access[OF assms(1)] query_access[OF assms(1)] assms(2,3) Access
      by (cases who) metis+
  next
    case 2
    then show ?thesis using outside_panic[OF assms(1,2)] assms(3) Access by blast
  qed
qed (use assms(2,4) in \<open>auto simp: task_step_Release\<close>)

text \<open>Every step extends the history.\<close>

lemma node_step_ok:
  assumes "ops_total ops" "\<forall>ev. E ev \<longrightarrow> event_ok (rp_pid self0) ev"
    and "node_step ops c E n n'" "gate_inv ops c self0 h a n"
  shows "\<exists>h' b. gate_inv ops c self0 (h @ h') b n'"
  using assms(3)
proof cases
  case (node_request req)
  let ?i = "length (nd_requests n)"
  have new: "nd_tasks n (ClientTask ?i) = None" using assms(4) by (auto simp: gate_inv_def)
  have owner: "owner_of n' who = owner_of n who" if "nd_tasks n who \<noteq> None" for who
    using that assms(4) node_request by (auto simp: owner_of_def gate_inv_def nth_append split: task_id.split)
  have "recorded h n'"
    using assms(4) node_request by (auto simp: gate_inv_def recorded_def nth_append less_Suc_eq cong: option.case_cong)
  moreover have "outside ops c (rp_pid self0) (owner_of n' (ClientTask ?i)) (request_task ops c req)"
    using node_request by (auto simp: outside_def owner_of_def wg_request)
  ultimately have "gate_inv ops c self0 (h @ []) a n'"
    using assms(4) node_request owner new unfolding gate_inv_def by (auto simp: less_SucI split: if_splits)
  then show ?thesis by blast
next
  case (node_turn r ev)
  have free: "nd_gate n \<noteq> Some LoopTask"
    using assms(4) node_turn(2) by (auto simp: gate_inv_def)
  have "recorded h n'" using assms(4) node_turn recorded_same[of h n n'] by (simp add: gate_inv_def)
  then have "gate_inv ops c self0 (h @ []) a n'"
    using assms(2,4) node_turn free wg_event[of "rp_pid self0" ev ops c]
    by (auto simp: gate_inv_def outside_def owner_of_def)
  then show ?thesis by blast
next
  case (node_task who t st' g' t')
  then show ?thesis using holder_step[OF assms(1,4)] other_step[OF assms(4)] by (cases "nd_gate n = Some who") auto
qed

lemma node_steps_ok:
  assumes "ops_total ops" "\<forall>ev. E ev \<longrightarrow> event_ok (rp_pid self0) ev"
    and "node_steps ops c E n n'" "gate_inv ops c self0 h a n"
  shows "\<exists>h' b. gate_inv ops c self0 (h @ h') b n'"
  using assms(3)
proof induction
  case base
  then show ?case using assms(4) by (metis append_Nil2)
next
  case (step n1 n2)
  then obtain h1 b1 where "gate_inv ops c self0 (h @ h1) b1 n1" by blast
  from node_step_ok[OF assms(1,2) step(2) this] show ?case by (metis append_assoc)
qed

lemma node_start_ok: "live_inv self \<Longrightarrow> gate_inv ops c self [] self (node_start self)"
  by (auto simp: gate_inv_def node_start_def recorded_def outside_def owner_of_def intro: serial_start wg_finished)

lemma gate_inv_explains:
  assumes "gate_inv ops c self0 h a n"
  shows "explains ops c self0 h n"
  using assms arg_cong[OF gate_inv_pending[OF assms], of rp_crdt] arg_cong[OF gate_inv_pending[OF assms], of rp_wrapper]
  by (auto simp: explains_def gate_inv_def)


section \<open>Crashes\<close>

lemma commit_now_durable:
  assumes "codec_exact c" "durable_inv ops c a" "entry_ok (rp_pid a) e" "commit_now ops c e a = Done (b, r)"
  shows "durable_keeps ops c a b"
proof (cases e)
  case (EntryDelta g)
  then show ?thesis using assms commit_keeps[OF assms(1,2), of g b] by (auto simp: exec_simps)
next
  case (EntryMutation m)
  then show ?thesis using assms(4) replica_step_keeps[OF assms(1,2), of "ClientMutation m" b]
    by (auto simp: exec_simps split: prod.splits)
next
  case (EntryMarker mk)
  then show ?thesis using assms marker_durable[OF assms(1,2), of mk b] by (auto simp: exec_simps durable_keeps_def)
qed

lemma serial_durable:
  assumes "serial ops c self0 h a" "codec_exact c" "durable_inv ops c self0"
  shows "durable_keeps ops c self0 a"
  using assms
proof (induction rule: serial.induct)
  case serial_start
  then show ?case by (simp add: durable_keeps_def)
next
  case (serial_private h a b)
  then show ?case using unwritten_keeps[of a b ops c] keeps_trans by (metis durable_keeps_def)
next
  case (serial_commit h a e b r who)
  then show ?case using commit_now_durable[of c ops a e b r] keeps_trans by (metis durable_keeps_def)
qed

text \<open>What is on disk is the end of a sequence of commits: the last of them may not be in memory yet.\<close>

lemma gate_inv_disk:
  assumes "ops_total ops" "gate_inv ops c self0 h a n"
  shows "\<exists>h' b. serial ops c self0 (h @ h') b \<and> rp_journal b = rp_journal (nd_replica n)"
proof (cases "\<exists>who e k. nd_gate n = Some who \<and> entry_ok (rp_pid a) e \<and>
    journal_phase c e a = Done (nd_replica n, ())")
  case True
  then obtain who e where e: "entry_ok (rp_pid a) e" "journal_phase c e a = Done (nd_replica n, ())" by blast
  have a: "live_inv a" "serial ops c self0 h a" using assms(2) by (auto simp: gate_inv_def)
  have self: "live_inv (nd_replica n)" "rp_pid (nd_replica n) = rp_pid a" "apply_phase ops e (nd_replica n) = Done (b, r)
      \<Longrightarrow> rp_journal b = rp_journal (nd_replica n)" for b r
    using e a(1) by (cases e; auto simp: journal_phase_def exec_simps live_inv_def)+
  obtain b r where b: "apply_phase ops e (nd_replica n) = Done (b, r)"
    by (rule apply_phase_total[OF assms(1) self(1), of e]) (use e(1) self(2) in auto)
  have "commit_now ops c e a = Done (b, r)" by (simp add: commit_now_phases e(2) b)
  from serial_commit[OF a(2) e(1) this] self(3)[OF b] show ?thesis by blast
next
  case False
  then have "nd_replica n = a"
    using assms(2) by (cases "nd_gate n") (auto simp: gate_inv_def elim!: in_gate.cases)
  then show ?thesis using assms(2) by (metis append_Nil2 gate_inv_def)
qed

lemma recorded_answered:
  assumes "recorded h n" "i < length (nd_requests n)" "nd_tasks n (ClientTask i) = Some (Finished r)"
  shows "(ClientTask i, request_action (nd_requests n ! i), r) \<in> set (h @ h')"
proof -
  have "filter (\<lambda>x. fst x = ClientTask i) h = [(ClientTask i, request_action (nd_requests n ! i), r)]"
    using assms by (simp add: recorded_def)
  then have "(ClientTask i, request_action (nd_requests n ! i), r) \<in> set (filter (\<lambda>x. fst x = ClientTask i) h)" by simp
  then show ?thesis by simp
qed


section \<open>Progress\<close>

text \<open>A task that runs alone leaves the gate, by releasing it or by a panic, within so many steps.\<close>

fun leaves_gate :: "nat \<Rightarrow> ('st, 'r) task \<Rightarrow> 'st \<Rightarrow> bool" where
  "leaves_gate (Suc n) (Release t) st \<longleftrightarrow> True"
| "leaves_gate (Suc n) (Access f) st \<longleftrightarrow>
     (case f st of Done (st', t) \<Rightarrow> leaves_gate n t st' | Panicked _ \<Rightarrow> True)"
| "leaves_gate _ _ _ \<longleftrightarrow> False"

lemma apply_leaves_gate: "leaves_gate (Suc (Suc n)) (apply_access ops e k) st"
  by (cases st; cases "apply_phase ops e (fst st)") (auto simp: apply_access_def on_replica_def)

lemma in_gate_leaves:
  assumes "in_gate ops c p owner a t self"
  shows "leaves_gate 3 t (self, fx)"
  using assms
proof cases
  case (gate_entered e k)
  have 3: "3 = Suc (Suc (Suc 0))" by simp
  show ?thesis unfolding 3 gate_entered(1) append_access_def on_replica_def
    by (cases "journal_phase c e self") (auto simp: apply_leaves_gate simp del: leaves_gate.simps(2)
        intro: leaves_gate.simps(2)[THEN iffD2])
next
  case (gate_journaled e k)
  have 3: "3 = Suc (Suc (Suc 0))" by simp
  show ?thesis unfolding 3 gate_journaled(1) by (rule apply_leaves_gate)
qed (simp add: eval_nat_numeral)

lemma access_steps: "\<exists>y. task_step who (st, g, Access f) y"
  by (cases "f st") (auto simp: task_step_Access)

lemma task_of_holder_steps:
  assumes "in_gate ops c p owner a t self"
  shows "\<exists>y. task_step who (st, Some who, t) y"
  using assms access_steps[of who st "Some who"]
  by (cases rule: in_gate.cases) (auto simp: append_access_def apply_access_def on_replica_def task_step_Release)

lemma task_outside_steps:
  assumes "well_gated ops c p t" "\<forall>r. t \<noteq> Finished r"
  shows "\<exists>y. task_step who (st, None, t) y"
  using assms access_steps[of who st None]
  by (cases rule: well_gated.cases) (auto simp: commit_task_def task_step_Acquire)

text \<open>On an idle node a mutation is served to the end.\<close>

definition answered_node ::
  "('s, 'q, 'm, 'r, 'w) runtime_node \<Rightarrow> 'm \<Rightarrow> ('s, 'w) replica \<Rightarrow> 'r \<Rightarrow> ('s, 'q, 'm, 'r, 'w) runtime_node" where
  "answered_node n m self' r = n\<lparr>nd_state := (self', snd (nd_state n)), nd_requests := nd_requests n @ [Mutation m],
     nd_tasks := (nd_tasks n)(ClientTask (length (nd_requests n)) := Some (Finished (Some r)))\<rparr>"

lemma request_answered:
  assumes "nd_gate n = None" "handle_client_mutation ops c io_ok m (nd_replica n) = Done (self', r)"
  shows "node_steps ops c E n (answered_node n m self' r)"
proof -
  let ?who = "ClientTask (length (nd_requests n))" and ?e = "EntryMutation m"
  obtain self fx where st: "nd_state n = (self, fx)" by (cases "nd_state n")
  have "commit_now ops c ?e self = Done (self', Some r)" using assms(2) by (simp add: st)
  then obtain s1 where s1: "journal_phase c ?e self = Done (s1, ())" "apply_phase ops ?e s1 = Done (self', Some r)"
    unfolding commit_now_phases by (auto simp only: exec_simps split: prod.splits)
  let ?n1 = "n\<lparr>nd_requests := nd_requests n @ [Mutation m],
    nd_tasks := (nd_tasks n)(?who := Some (request_task ops c (Mutation m)))\<rparr>"
  let ?n2 = "stepped ?n1 ?who (self, fx) (Some ?who) (Some (append_access ops c ?e Finished))"
  let ?n3 = "stepped ?n2 ?who (s1, fx) (Some ?who) (Some (apply_access ops ?e Finished))"
  let ?n4 = "stepped ?n3 ?who (self', fx) (Some ?who) (Some (Release (Finished (Some r))))"
  let ?n5 = "stepped ?n4 ?who (self', fx) None (Some (Finished (Some r)))"
  have 1: "node_step ops c E n ?n1" by (rule node_request)
  have 2: "node_step ops c E ?n1 ?n2"
    by (rule node_task[of _ _ "request_task ops c (Mutation m)"]) (simp_all add: commit_task_def task_step_Acquire assms(1) st)
  have 3: "node_step ops c E ?n2 ?n3"
    by (rule node_task[of _ _ "append_access ops c ?e Finished"])
      (simp_all add: append_access_def on_replica_def task_step_Access s1)
  have 4: "node_step ops c E ?n3 ?n4"
    by (rule node_task[of _ _ "apply_access ops ?e Finished"])
      (use s1 in \<open>simp_all add: apply_access_def on_replica_def task_step_Access\<close>)
  have 5: "node_step ops c E ?n4 ?n5"
    by (rule node_task[of _ _ "Release (Finished (Some r))"]) (simp_all add: task_step_Release)
  have "node_steps ops c E n ?n5"
    by (rule converse_rtranclp_into_rtranclp, rule 1, rule converse_rtranclp_into_rtranclp, rule 2,
      rule converse_rtranclp_into_rtranclp, rule 3, rule converse_rtranclp_into_rtranclp, rule 4,
      rule r_into_rtranclp, rule 5)
  moreover have "?n5 = answered_node n m self' r" using assms(1) st by (cases n) (simp add: answered_node_def)
  ultimately show ?thesis by (simp only:)
qed


section \<open>A running counter\<close>

text \<open>The counter of \<open>Replica_Durability\<close>, started on empty files, after a mutation was answered.\<close>

abbreviation example_E :: "(nat, unit, unit, nat, unit) replica_event \<Rightarrow> bool" where
  "example_E \<equiv> (\<lambda>ev. ev = LocalMutation \<or> ev = RemoteDelta counter_delta example_marker)"

lemma example_mutation_done:
  "case exec_bind example_start (\<lambda>(self0, _). handle_client_mutation counter_ops exact_codec io_ok 5 self0) of
     Done (self1, _) \<Rightarrow> rp_crdt self1 = 5 | Panicked _ \<Rightarrow> False"
  by code_simp

lemma example_node:
  obtains self0 :: "(nat, unit) replica" and fx0 self1 r
  where "example_start = Done (self0, fx0)" "rp_pid self0 = 7" "durable_inv counter_ops exact_codec self0" "live_inv self0"
    "\<forall>ev. example_E ev \<longrightarrow> event_ok (rp_pid self0) ev" "rp_crdt self1 = 5"
    "node_steps counter_ops exact_codec example_E (node_start self0) (answered_node (node_start self0) 5 self1 r)"
proof -
  obtain self0 fx0 self1 r where run: "example_start = Done (self0, fx0)"
    "handle_client_mutation counter_ops exact_codec io_ok 5 self0 = Done (self1, r)" "rp_crdt self1 = 5"
    using example_mutation_done by (auto simp: exec_simps split: exec.splits)
  have "durable_inv counter_ops exact_codec self0 \<and> rp_pid self0 = 7"
    by (rule first_start_durable[OF exact_codec_exact _ _ _ _ run(1)[unfolded example_start_def]])
      (simp_all add: STABLE_REPLICA_PID_def)
  then have d: "durable_inv counter_ops exact_codec self0" "rp_pid self0 = 7" "live_inv self0"
    by (auto simp: durable_inv_def)
  have "event_ok 7 (RemoteDelta counter_delta example_marker)" by code_simp
  then have "\<forall>ev. example_E ev \<longrightarrow> event_ok (rp_pid self0) ev" using d(2) by auto
  moreover have "node_steps counter_ops exact_codec example_E (node_start self0) (answered_node (node_start self0) 5 self1 r)"
    by (rule request_answered) (use run(2) in \<open>simp_all add: node_start_def\<close>)
  ultimately show thesis using that run d by blast
qed


section \<open>Properties\<close>

text \<open>
  C3: the commits and the queries of a running replica are linearizable. However the tasks of the
  clients and the event loop interleave, at every moment there is a history that explains what
  clients have seen: executing it one step at a time, each commit and each query as a whole, leads
  to the CRDT and the metadata in memory, and it contains exactly the answered requests, once each
  and with their responses. The history of a later moment extends that of an earlier one, so a
  request that was answered before another arrived comes before it.
\<close>

theorem commits_linearize:
  assumes "ops_total ops" "live_inv self0" "\<forall>ev. E ev \<longrightarrow> event_ok (rp_pid self0) ev"
    and "node_steps ops c E (node_start self0) n1" "node_steps ops c E n1 n2"
  shows "\<exists>h1 h2. explains ops c self0 h1 n1 \<and> explains ops c self0 (h1 @ h2) n2"
proof -
  obtain h1 a1 where 1: "gate_inv ops c self0 h1 a1 n1"
    using node_steps_ok[OF assms(1,3,4) node_start_ok[OF assms(2)]] by auto
  obtain h2 a2 where 2: "gate_inv ops c self0 (h1 @ h2) a2 n2"
    using node_steps_ok[OF assms(1,3,5) 1] by auto
  show ?thesis using gate_inv_explains[OF 1] gate_inv_explains[OF 2] by blast
qed

theorem commits_linearize_witness:
  "\<exists>(self0 :: (nat, unit) replica) n1 h1 h2. live_inv self0 \<and>
     node_steps counter_ops exact_codec example_E (node_start self0) n1 \<and> rp_crdt (nd_replica n1) = 5 \<and>
     nd_requests n1 = [Mutation 5] \<and>
     explains counter_ops exact_codec self0 h1 n1 \<and> explains counter_ops exact_codec self0 (h1 @ h2) n1"
proof -
  obtain self0 :: "(nat, unit) replica" and fx0 self1 r where e: "live_inv self0"
    "\<forall>ev. example_E ev \<longrightarrow> event_ok (rp_pid self0) ev" "rp_crdt self1 = 5"
    "node_steps counter_ops exact_codec example_E (node_start self0) (answered_node (node_start self0) 5 self1 r)"
    by (rule example_node)
  let ?n = "answered_node (node_start self0) 5 self1 r"
  have "rp_crdt (nd_replica ?n) = 5" "nd_requests ?n = [Mutation 5]"
    using e(3) by (simp_all add: answered_node_def node_start_def)
  then show ?thesis using e commits_linearize[OF counter_total(1) e(1,2,4) rtranclp.rtrancl_refl] by blast
qed






end
