(* ===== verification/Object_Storage.thy ===== *)
theory Object_Storage
  imports Descriptor "HOL-Library.State_Monad"
begin

text \<open>
  The object storage client (\<^verbatim>\<open>src/src/object_storage.rs\<close>): reads and writes of the
  persistent replica, the membership directory with its cache, and the life cycle of the
  background poll. The client's state is threaded by the state monad. The store itself is a
  library: it is the parameter \<open>os\<close>, a record of operations on an abstract state, with its
  documented behaviour collected in \<open>store_ok\<close>. The encoding of values is the parameters \<open>ser\<close>
  and \<open>de\<close>. Retries and timeouts inside the library show as replies.
\<close>

section \<open>The store\<close>

type_synonym obj_path = string
type_synonym obj_bytes = "8 word list"

datatype store_error = NotFound | AlreadyExists | Precondition | OtherStoreError string

text \<open>A call ends with the library's result or with the timeout the client puts around it.\<close>

datatype 'a store_reply = Replied "store_error + 'a" | NoReply

record 'st object_store =
  os_put :: "obj_path \<Rightarrow> obj_bytes \<Rightarrow> 'st \<Rightarrow> 'st \<times> unit store_reply"
  os_put_create :: "obj_path \<Rightarrow> obj_bytes \<Rightarrow> 'st \<Rightarrow> 'st \<times> unit store_reply"
  os_get :: "obj_path \<Rightarrow> 'st \<Rightarrow> 'st \<times> unit store_reply"
  os_body :: "obj_path \<Rightarrow> 'st \<Rightarrow> 'st \<times> obj_bytes store_reply"
  os_delete :: "obj_path \<Rightarrow> 'st \<Rightarrow> 'st \<times> unit store_reply"
  os_list :: "obj_path \<Rightarrow> 'st \<Rightarrow> 'st \<times> obj_path list store_reply"

datatype object_storage_error =
    FileNotFound
  | ConfigurationError string
  | StoreError store_error
  | OperationTimeout string obj_path
  | SerializationError
  | IoError


section \<open>The client\<close>

text \<open>
  \<open>oc_poll_task\<close> says whether the handle of a poll task is held, \<open>oc_poll_running\<close> how many poll
  tasks have not sent their result. \<open>None\<close> as the members of a poll result is a failed listing.
\<close>

record 'st storage_client =
  oc_store :: 'st
  oc_persistent_replica_path :: obj_path
  oc_membership_directory_path :: obj_path
  oc_membership_descriptors :: "replica_descriptor list"
  oc_poll_in_flight :: bool
  oc_poll_task :: bool
  oc_poll_running :: nat
  oc_poll_results :: "replica_descriptor list option list"
  oc_connection_logged :: bool

type_synonym ('st, 'a) storage_op = "('st storage_client, 'a) state"

definition client_new :: "'st \<Rightarrow> obj_path \<Rightarrow> obj_path \<Rightarrow> 'st storage_client" where
  "client_new store persistent_replica_path membership_directory_path =
     \<lparr>oc_store = store, oc_persistent_replica_path = persistent_replica_path,
      oc_membership_directory_path = membership_directory_path, oc_membership_descriptors = [],
      oc_poll_in_flight = False, oc_poll_task = False, oc_poll_running = 0, oc_poll_results = [], oc_connection_logged = False\<rparr>"

text \<open>The operator \<open>?\<close> on results.\<close>

definition or_return ::
  "('st, 'e + 'a) storage_op \<Rightarrow> ('a \<Rightarrow> ('st, 'e + 'b) storage_op) \<Rightarrow> ('st, 'e + 'b) storage_op" where
  "or_return m f = State_Monad.bind m (\<lambda>r. case r of Inl e \<Rightarrow> State_Monad.return (Inl e) | Inr x \<Rightarrow> f x)"

definition with_operation_timeout ::
  "string \<Rightarrow> obj_path \<Rightarrow> ('st \<Rightarrow> 'st \<times> 'a store_reply) \<Rightarrow> ('st, object_storage_error + 'a) storage_op" where
  "with_operation_timeout operation file_path call =
     State (\<lambda>self. case call (oc_store self) of (store, reply) \<Rightarrow>
       (case reply of
          Replied (Inr x) \<Rightarrow> Inr x
        | Replied (Inl e) \<Rightarrow> Inl (StoreError e)
        | NoReply \<Rightarrow> Inl (OperationTimeout operation file_path), self\<lparr>oc_store := store\<rparr>))"

definition log_connection_established_once :: "('st, unit) storage_op" where
  "log_connection_established_once = State_Monad.update (\<lambda>self. self\<lparr>oc_connection_logged := True\<rparr>)"

definition list_objects :: "'st object_store \<Rightarrow> obj_path \<Rightarrow> ('st, object_storage_error + obj_path list) storage_op" where
  "list_objects os prefix =
     or_return (with_operation_timeout ''list'' prefix (os_list os prefix)) (\<lambda>file_names.
       State_Monad.bind log_connection_established_once (\<lambda>_. State_Monad.return (Inr file_names)))"

definition upload_data ::
  "'st object_store \<Rightarrow> ('a \<Rightarrow> obj_bytes option) \<Rightarrow> obj_path \<Rightarrow> 'a \<Rightarrow> ('st, object_storage_error + unit) storage_op" where
  "upload_data os ser file_path data =
     (case ser data of
        None \<Rightarrow> State_Monad.return (Inl SerializationError)
      | Some serialized_data \<Rightarrow>
          or_return (with_operation_timeout ''put'' file_path (os_put os file_path serialized_data)) (\<lambda>_.
            State_Monad.bind log_connection_established_once (\<lambda>_. State_Monad.return (Inr ()))))"

definition download_data ::
  "'st object_store \<Rightarrow> (obj_bytes \<Rightarrow> 'a option) \<Rightarrow> obj_path \<Rightarrow> ('st, object_storage_error + 'a) storage_op" where
  "download_data os de file_path =
     State_Monad.bind (with_operation_timeout ''get'' file_path (os_get os file_path)) (\<lambda>response.
       case response of
         Inl error \<Rightarrow>
           if error = StoreError NotFound
           then State_Monad.bind log_connection_established_once (\<lambda>_. State_Monad.return (Inl FileNotFound))
           else State_Monad.return (Inl error)
       | Inr _ \<Rightarrow>
           State_Monad.bind log_connection_established_once (\<lambda>_.
             or_return (with_operation_timeout ''get-body'' file_path (os_body os file_path)) (\<lambda>raw_data.
               State_Monad.return (case de raw_data of Some data \<Rightarrow> Inr data | None \<Rightarrow> Inl SerializationError))))"

definition delete_data :: "'st object_store \<Rightarrow> obj_path \<Rightarrow> ('st, object_storage_error + unit) storage_op" where
  "delete_data os file_path =
     or_return (with_operation_timeout ''delete'' file_path (os_delete os file_path)) (\<lambda>_.
       State_Monad.bind log_connection_established_once (\<lambda>_. State_Monad.return (Inr ())))"

text \<open>Creation that must not overwrite; the result says whether the object was created.\<close>

definition put_create ::
  "'st object_store \<Rightarrow> obj_path \<Rightarrow> obj_bytes \<Rightarrow> ('st, object_storage_error + bool) storage_op" where
  "put_create os file_path payload =
     State_Monad.bind (with_operation_timeout ''put-create'' file_path (os_put_create os file_path payload)) (\<lambda>result.
       case result of
         Inr _ \<Rightarrow> State_Monad.bind log_connection_established_once (\<lambda>_. State_Monad.return (Inr True))
       | Inl error \<Rightarrow>
           if error = StoreError AlreadyExists \<or> error = StoreError Precondition
           then State_Monad.bind log_connection_established_once (\<lambda>_. State_Monad.return (Inr False))
           else State_Monad.return (Inl error))"

definition upload_empty_atomic_create ::
  "'st object_store \<Rightarrow> obj_path \<Rightarrow> ('st, object_storage_error + bool) storage_op" where
  "upload_empty_atomic_create os file_path = put_create os file_path []"

definition upload_data_atomic_create ::
  "'st object_store \<Rightarrow> ('a \<Rightarrow> obj_bytes option) \<Rightarrow> obj_path \<Rightarrow> 'a \<Rightarrow> ('st, object_storage_error + bool) storage_op" where
  "upload_data_atomic_create os ser file_path data =
     (case ser data of
        None \<Rightarrow> State_Monad.return (Inl SerializationError)
      | Some serialized_data \<Rightarrow> put_create os file_path serialized_data)"


section \<open>The persistent replica\<close>

text \<open>A missing object is not an error.\<close>

definition missing_as_none :: "object_storage_error + 'a \<Rightarrow> object_storage_error + 'a option" where
  "missing_as_none r = (case r of Inr x \<Rightarrow> Inr (Some x) | Inl FileNotFound \<Rightarrow> Inr None | Inl e \<Rightarrow> Inl e)"

definition read_persistent_replica ::
  "'st object_store \<Rightarrow> (obj_bytes \<Rightarrow> 'a option) \<Rightarrow> ('st, object_storage_error + 'a option) storage_op" where
  "read_persistent_replica os de =
     State_Monad.bind State_Monad.get (\<lambda>self.
     State_Monad.bind (download_data os de (oc_persistent_replica_path self)) (\<lambda>r.
       State_Monad.return (missing_as_none r)))"

definition write_persistent_replica ::
  "'st object_store \<Rightarrow> ('a \<Rightarrow> obj_bytes option) \<Rightarrow> 'a \<Rightarrow> ('st, bool) storage_op" where
  "write_persistent_replica os ser crdt =
     State_Monad.bind State_Monad.get (\<lambda>self.
     State_Monad.bind (upload_data os ser (oc_persistent_replica_path self) crdt) (\<lambda>r.
       State_Monad.return (case r of Inr _ \<Rightarrow> True | Inl _ \<Rightarrow> False)))"


section \<open>The membership directory\<close>

definition descriptor_path :: "'st storage_client \<Rightarrow> replica_descriptor \<Rightarrow> obj_path" where
  "descriptor_path self descriptor = object_path descriptor (oc_membership_directory_path self)"

definition write_membership_descriptor ::
  "'st object_store \<Rightarrow> replica_descriptor \<Rightarrow> ('st, object_storage_error + bool) storage_op" where
  "write_membership_descriptor os descriptor =
     State_Monad.bind State_Monad.get (\<lambda>self. upload_empty_atomic_create os (descriptor_path self descriptor))"

definition write_membership_descriptor_payload ::
  "'st object_store \<Rightarrow> ('a \<Rightarrow> obj_bytes option) \<Rightarrow> replica_descriptor \<Rightarrow> 'a \<Rightarrow>
   ('st, object_storage_error + bool) storage_op" where
  "write_membership_descriptor_payload os ser descriptor payload =
     State_Monad.bind State_Monad.get (\<lambda>self.
       upload_data_atomic_create os ser (descriptor_path self descriptor) payload)"

definition read_membership_descriptor_payload ::
  "'st object_store \<Rightarrow> (obj_bytes \<Rightarrow> 'a option) \<Rightarrow> replica_descriptor \<Rightarrow>
   ('st, object_storage_error + 'a option) storage_op" where
  "read_membership_descriptor_payload os de descriptor =
     State_Monad.bind State_Monad.get (\<lambda>self.
     State_Monad.bind (download_data os de (descriptor_path self descriptor)) (\<lambda>r.
       State_Monad.return (missing_as_none r)))"

definition try_delete_membership_descriptor ::
  "'st object_store \<Rightarrow> replica_descriptor \<Rightarrow> ('st, object_storage_error + unit) storage_op" where
  "try_delete_membership_descriptor os descriptor =
     State_Monad.bind State_Monad.get (\<lambda>self. delete_data os (descriptor_path self descriptor))"

definition delete_membership_descriptor :: "'st object_store \<Rightarrow> replica_descriptor \<Rightarrow> ('st, unit) storage_op" where
  "delete_membership_descriptor os descriptor =
     State_Monad.bind (try_delete_membership_descriptor os descriptor) (\<lambda>_. State_Monad.return ())"

text \<open>\<open>try_join_all\<close>: the first failure ends the deletions.\<close>

fun try_delete_all :: "'st object_store \<Rightarrow> replica_descriptor list \<Rightarrow> ('st, object_storage_error + unit) storage_op" where
  "try_delete_all os [] = State_Monad.return (Inr ())"
| "try_delete_all os (d # ds) = or_return (try_delete_membership_descriptor os d) (\<lambda>_. try_delete_all os ds)"

definition delete_membership_descriptors_for_pid :: "'st object_store \<Rightarrow> pid \<Rightarrow> ('st, unit) storage_op" where
  "delete_membership_descriptors_for_pid os p =
     State_Monad.bind State_Monad.get (\<lambda>self.
     State_Monad.bind (try_delete_all os (filter (\<lambda>d. rd_pid d = p) (oc_membership_descriptors self))) (\<lambda>r.
       case r of
         Inl _ \<Rightarrow> State_Monad.return ()
       | Inr _ \<Rightarrow> State_Monad.update (\<lambda>self. self\<lparr>oc_membership_descriptors :=
           filter (\<lambda>d. rd_pid d \<noteq> p) (oc_membership_descriptors self)\<rparr>)))"

definition parse_members :: "obj_path list \<Rightarrow> replica_descriptor list" where
  "parse_members members =
     List.map_filter (\<lambda>member. case descriptor_from_str member of Inr d \<Rightarrow> Some d | Inl _ \<Rightarrow> None) members"

definition fetch_membership_descriptors ::
  "'st object_store \<Rightarrow> ('st, object_storage_error + replica_descriptor list) storage_op" where
  "fetch_membership_descriptors os =
     State_Monad.bind State_Monad.get (\<lambda>self.
     or_return (list_objects os (oc_membership_directory_path self)) (\<lambda>members.
       State_Monad.return (Inr (parse_members members))))"

definition update_membership_cache :: "replica_descriptor list \<Rightarrow> ('st, unit) storage_op" where
  "update_membership_cache membership_descriptors =
     State_Monad.update (\<lambda>self. self\<lparr>oc_membership_descriptors := membership_descriptors\<rparr>)"

definition list_membership_descriptors :: "'st object_store \<Rightarrow> ('st, replica_descriptor list option) storage_op" where
  "list_membership_descriptors os =
     State_Monad.bind (fetch_membership_descriptors os) (\<lambda>r.
       case r of
         Inl _ \<Rightarrow> State_Monad.return None
       | Inr descriptors \<Rightarrow>
           State_Monad.bind (update_membership_cache descriptors) (\<lambda>_. State_Monad.return (Some descriptors)))"

definition client_register_and_list_members ::
  "'st object_store \<Rightarrow> replica_descriptor \<Rightarrow> ('st, replica_descriptor list option) storage_op" where
  "client_register_and_list_members os descriptor =
     State_Monad.bind (write_membership_descriptor os descriptor) (\<lambda>r.
       case r of
         Inl _ \<Rightarrow> State_Monad.return None
       | Inr _ \<Rightarrow> list_membership_descriptors os)"


section \<open>The background poll\<close>

text \<open>
  The poll runs as a task of its own; \<open>poll_task_completes\<close> is the turn in which it has fetched
  the listing and sends the result.
\<close>

definition start_membership_poll :: "'st storage_client \<Rightarrow> 'st storage_client" where
  "start_membership_poll self =
     (if oc_poll_in_flight self then self
      else self\<lparr>oc_poll_in_flight := True, oc_poll_task := True, oc_poll_running := oc_poll_running self + 1\<rparr>)"

definition poll_task_completes :: "'st object_store \<Rightarrow> 'st storage_client \<Rightarrow> 'st storage_client" where
  "poll_task_completes os self =
     (case run_state (fetch_membership_descriptors os) self of (r, self') \<Rightarrow>
        self'\<lparr>oc_poll_running := oc_poll_running self' - 1,
              oc_poll_results := oc_poll_results self' @ [case r of Inr ds \<Rightarrow> Some ds | Inl _ \<Rightarrow> None]\<rparr>)"

definition recv_membership_poll ::
  "'st storage_client \<Rightarrow> (replica_descriptor list option \<times> 'st storage_client) option" where
  "recv_membership_poll self =
     (case oc_poll_results self of [] \<Rightarrow> None | r # rs \<Rightarrow> Some (r, self\<lparr>oc_poll_results := rs\<rparr>))"

definition finish_membership_poll :: "'st storage_client \<Rightarrow> 'st storage_client" where
  "finish_membership_poll self = self\<lparr>oc_poll_in_flight := False, oc_poll_task := False\<rparr>"

definition abort_membership_poll :: "'st storage_client \<Rightarrow> 'st storage_client" where
  "abort_membership_poll self =
     self\<lparr>oc_poll_in_flight := False, oc_poll_task := False,
          oc_poll_running := (if oc_poll_task self then oc_poll_running self - 1 else oc_poll_running self)\<rparr>"


section \<open>What the client relies on\<close>

text \<open>
  The documented behaviour of the store, seen as a map from paths to contents by \<open>content\<close>: a
  successful write is visible to what follows, a conditional creation succeeds exactly on a free
  path, a listing has the locations of all objects below the prefix, evaluated by path segments,
  and reads change nothing. \<open>loc\<close> is the normalised form in which a listing shows a path; it keeps
  the last segment. Nothing is assumed of calls that fail or time out.
\<close>

definition below :: "obj_path \<Rightarrow> obj_path \<Rightarrow> bool" where
  "below prefix p \<longleftrightarrow> (\<exists>rest. rest \<noteq> [] \<and> p = trim_end_matches CHR ''/'' prefix @ ''/'' @ rest)"

definition writes_ok :: "'st object_store \<Rightarrow> ('st \<Rightarrow> obj_path \<Rightarrow> obj_bytes option) \<Rightarrow> bool" where
  "writes_ok os content \<longleftrightarrow>
     (\<forall>p bs st st'. os_put os p bs st = (st', Replied (Inr ())) \<longrightarrow> content st' = (content st)(p \<mapsto> bs)) \<and>
     (\<forall>p st st'. os_delete os p st = (st', Replied (Inr ())) \<longrightarrow> content st' = (content st)(p := None))"

definition creates_ok :: "'st object_store \<Rightarrow> ('st \<Rightarrow> obj_path \<Rightarrow> obj_bytes option) \<Rightarrow> bool" where
  "creates_ok os content \<longleftrightarrow> (\<forall>p bs st st' r. os_put_create os p bs st = (st', r) \<longrightarrow>
     (case r of
        Replied (Inr _) \<Rightarrow> content st p = None \<and> content st' = (content st)(p \<mapsto> bs)
      | Replied (Inl e) \<Rightarrow> e \<in> {AlreadyExists, Precondition} \<longrightarrow> content st p \<noteq> None \<and> content st' = content st
      | NoReply \<Rightarrow> True))"

definition reads_ok :: "'st object_store \<Rightarrow> ('st \<Rightarrow> obj_path \<Rightarrow> obj_bytes option) \<Rightarrow> bool" where
  "reads_ok os content \<longleftrightarrow>
     (\<forall>p st st' r. os_get os p st = (st', r) \<longrightarrow> content st' = content st \<and>
        (case r of
           Replied (Inr _) \<Rightarrow> content st p \<noteq> None
         | Replied (Inl e) \<Rightarrow> e = NotFound \<longrightarrow> content st p = None
         | NoReply \<Rightarrow> True)) \<and>
     (\<forall>p st st' r. os_body os p st = (st', r) \<longrightarrow> content st' = content st \<and>
        (case r of Replied (Inr bs) \<Rightarrow> content st p = Some bs | _ \<Rightarrow> True))"

definition lists_ok :: "'st object_store \<Rightarrow> ('st \<Rightarrow> obj_path \<Rightarrow> obj_bytes option) \<Rightarrow> (obj_path \<Rightarrow> obj_path) \<Rightarrow> bool" where
  "lists_ok os content loc \<longleftrightarrow>
     (\<forall>p st st' r. os_list os p st = (st', r) \<longrightarrow> content st' = content st \<and>
        (case r of Replied (Inr names) \<Rightarrow> set names = loc ` {q \<in> dom (content st). below p q} | _ \<Rightarrow> True)) \<and>
     (\<forall>q. last (split_on CHR ''/'' (loc q)) = last (split_on CHR ''/'' q))"

definition store_ok :: "'st object_store \<Rightarrow> ('st \<Rightarrow> obj_path \<Rightarrow> obj_bytes option) \<Rightarrow> (obj_path \<Rightarrow> obj_path) \<Rightarrow> bool" where
  "store_ok os content loc \<longleftrightarrow>
     writes_ok os content \<and> creates_ok os content \<and> reads_ok os content \<and> lists_ok os content loc"

lemma store_put:
  "store_ok os content loc \<Longrightarrow> os_put os p bs st = (st', Replied (Inr u)) \<Longrightarrow> content st' = (content st)(p \<mapsto> bs)"
  by (simp add: store_ok_def writes_ok_def)

lemma store_delete:
  "store_ok os content loc \<Longrightarrow> os_delete os p st = (st', Replied (Inr u)) \<Longrightarrow> content st' = (content st)(p := None)"
  by (simp add: store_ok_def writes_ok_def)

lemma store_create:
  "store_ok os content loc \<Longrightarrow> os_put_create os p bs st = (st', Replied (Inr u)) \<Longrightarrow>
   content st p = None \<and> content st' = (content st)(p \<mapsto> bs)"
  unfolding store_ok_def creates_ok_def by fastforce

lemma store_exists:
  "store_ok os content loc \<Longrightarrow> os_put_create os p bs st = (st', Replied (Inl e)) \<Longrightarrow>
   e \<in> {AlreadyExists, Precondition} \<Longrightarrow> content st p \<noteq> None \<and> content st' = content st"
  unfolding store_ok_def creates_ok_def by fastforce

lemma store_get:
  assumes "store_ok os content loc" "os_get os p st = (st', r)"
  shows "content st' = content st" "r = Replied (Inr u) \<Longrightarrow> content st p \<noteq> None"
    "r = Replied (Inl NotFound) \<Longrightarrow> content st p = None"
  using assms unfolding store_ok_def reads_ok_def by fastforce+

lemma store_body:
  assumes "store_ok os content loc" "os_body os p st = (st', r)"
  shows "content st' = content st" "r = Replied (Inr bs) \<Longrightarrow> content st p = Some bs"
  using assms unfolding store_ok_def reads_ok_def by fastforce+

lemma store_list:
  assumes "store_ok os content loc" "os_list os p st = (st', r)"
  shows "content st' = content st"
    "r = Replied (Inr names) \<Longrightarrow> set names = loc ` {q \<in> dom (content st). below p q}"
  using assms unfolding store_ok_def lists_ok_def by fastforce+

lemma store_loc: "store_ok os content loc \<Longrightarrow> last (split_on CHR ''/'' (loc q)) = last (split_on CHR ''/'' q)"
  by (simp add: store_ok_def lists_ok_def)

text \<open>A store in memory, for closed examples: a map that always answers.\<close>

type_synonym mem_store = "(obj_path \<times> obj_bytes) list"

definition mem_below :: "obj_path \<Rightarrow> obj_path \<Rightarrow> bool" where
  "mem_below prefix p =
     (let dir = trim_end_matches CHR ''/'' prefix @ ''/''
      in take (length dir) p = dir \<and> length dir < length p)"

definition mem_object_store :: "mem_store object_store" where
  "mem_object_store =
     \<lparr>os_put = (\<lambda>p bs st. ((p, bs) # st, Replied (Inr ()))),
      os_put_create = (\<lambda>p bs st. case map_of st p of
          None \<Rightarrow> ((p, bs) # st, Replied (Inr ())) | Some _ \<Rightarrow> (st, Replied (Inl AlreadyExists))),
      os_get = (\<lambda>p st. (st, Replied (case map_of st p of None \<Rightarrow> Inl NotFound | Some _ \<Rightarrow> Inr ()))),
      os_body = (\<lambda>p st. (st, Replied (case map_of st p of None \<Rightarrow> Inl NotFound | Some bs \<Rightarrow> Inr bs))),
      os_delete = (\<lambda>p st. (filter (\<lambda>(q, _). q \<noteq> p) st, Replied (Inr ()))),
      os_list = (\<lambda>p st. (st, Replied (Inr (filter (mem_below p) (remdups (map fst st))))))\<rparr>"

lemma mem_below_iff: "mem_below prefix p \<longleftrightarrow> below prefix p"
proof
  let ?dir = "trim_end_matches CHR ''/'' prefix @ ''/''"
  assume "mem_below prefix p"
  then have "p = ?dir @ drop (length ?dir) p" "drop (length ?dir) p \<noteq> []"
    by (auto simp: mem_below_def Let_def) (metis append_take_drop_id append_assoc append_Cons append_Nil)
  then show "below prefix p" unfolding below_def by (metis append_assoc)
qed (auto simp: mem_below_def below_def Let_def)

lemma map_of_filter_neq: "map_of (filter (\<lambda>(q, _). q \<noteq> p) st) = (map_of st)(p := None)"
  by (induction st) (auto simp: fun_eq_iff)

lemma mem_store_ok: "store_ok mem_object_store map_of (\<lambda>q. q)"
  by (auto simp: store_ok_def writes_ok_def creates_ok_def reads_ok_def lists_ok_def mem_object_store_def map_of_filter_neq mem_below_iff dom_map_of_conv_image_fst
      split: option.splits)


section \<open>Running the operations\<close>

named_theorems storage_simps "the operations of the client run on a state"

lemma run_or_return [storage_simps]:
  "run_state (or_return m f) self =
     (case run_state m self of (Inl e, self') \<Rightarrow> (Inl e, self') | (Inr x, self') \<Rightarrow> run_state (f x) self')"
  by (auto simp: or_return_def split: prod.splits sum.splits)

lemma run_timeout [storage_simps]:
  "run_state (with_operation_timeout operation p call) self =
     (case snd (call (oc_store self)) of
        Replied (Inr x) \<Rightarrow> Inr x | Replied (Inl e) \<Rightarrow> Inl (StoreError e) | NoReply \<Rightarrow> Inl (OperationTimeout operation p),
      self\<lparr>oc_store := fst (call (oc_store self))\<rparr>)"
  by (simp add: with_operation_timeout_def split: prod.splits)

lemma run_log [storage_simps]:
  "run_state log_connection_established_once self = ((), self\<lparr>oc_connection_logged := True\<rparr>)"
  by (simp add: log_connection_established_once_def State_Monad.update_def)

lemma run_update [storage_simps]: "run_state (State_Monad.update f) self = ((), f self)"
  by (simp add: State_Monad.update_def)

text \<open>What an operation leaves alone: the paths and the life cycle of the poll.\<close>

definition same_client :: "'st storage_client \<Rightarrow> 'st storage_client \<Rightarrow> bool" where
  "same_client self self' \<longleftrightarrow>
     oc_persistent_replica_path self' = oc_persistent_replica_path self \<and>
     oc_membership_directory_path self' = oc_membership_directory_path self \<and>
     oc_poll_in_flight self' = oc_poll_in_flight self \<and> oc_poll_task self' = oc_poll_task self \<and>
     oc_poll_running self' = oc_poll_running self \<and> oc_poll_results self' = oc_poll_results self"

lemma list_objects_run:
  "run_state (list_objects os prefix) self =
     (case os_list os prefix (oc_store self) of (st, reply) \<Rightarrow>
        (case reply of
           Replied (Inr names) \<Rightarrow> (Inr names, self\<lparr>oc_store := st, oc_connection_logged := True\<rparr>)
         | Replied (Inl e) \<Rightarrow> (Inl (StoreError e), self\<lparr>oc_store := st\<rparr>)
         | NoReply \<Rightarrow> (Inl (OperationTimeout ''list'' prefix), self\<lparr>oc_store := st\<rparr>)))"
  by (auto simp: list_objects_def storage_simps split: prod.splits sum.splits store_reply.splits)

lemma put_create_run:
  "run_state (put_create os p bs) self =
     (case os_put_create os p bs (oc_store self) of (st, reply) \<Rightarrow>
        (case reply of
           Replied (Inr _) \<Rightarrow> (Inr True, self\<lparr>oc_store := st, oc_connection_logged := True\<rparr>)
         | Replied (Inl e) \<Rightarrow>
             if e \<in> {AlreadyExists, Precondition}
             then (Inr False, self\<lparr>oc_store := st, oc_connection_logged := True\<rparr>)
             else (Inl (StoreError e), self\<lparr>oc_store := st\<rparr>)
         | NoReply \<Rightarrow> (Inl (OperationTimeout ''put-create'' p), self\<lparr>oc_store := st\<rparr>)))"
  by (auto simp: put_create_def storage_simps split: prod.splits sum.splits store_reply.splits)

lemma download_run:
  "run_state (download_data os de p) self =
     (case os_get os p (oc_store self) of (st, reply) \<Rightarrow>
        (case reply of
           NoReply \<Rightarrow> (Inl (OperationTimeout ''get'' p), self\<lparr>oc_store := st\<rparr>)
         | Replied (Inl e) \<Rightarrow>
             if e = NotFound then (Inl FileNotFound, self\<lparr>oc_store := st, oc_connection_logged := True\<rparr>)
             else (Inl (StoreError e), self\<lparr>oc_store := st\<rparr>)
         | Replied (Inr _) \<Rightarrow>
             (case os_body os p st of (st', body) \<Rightarrow>
                (case body of
                   NoReply \<Rightarrow> Inl (OperationTimeout ''get-body'' p)
                 | Replied (Inl e) \<Rightarrow> Inl (StoreError e)
                 | Replied (Inr bs) \<Rightarrow> (case de bs of Some x \<Rightarrow> Inr x | None \<Rightarrow> Inl SerializationError),
                 self\<lparr>oc_store := st', oc_connection_logged := True\<rparr>))))"
  by (auto simp: download_data_def storage_simps split: prod.splits sum.splits store_reply.splits option.splits)

lemma fetch_run:
  "run_state (fetch_membership_descriptors os) self =
     (case run_state (list_objects os (oc_membership_directory_path self)) self of
        (Inl e, self') \<Rightarrow> (Inl e, self') | (Inr names, self') \<Rightarrow> (Inr (parse_members names), self'))"
  by (auto simp: fetch_membership_descriptors_def storage_simps split: prod.splits sum.splits)

lemma fetch_same_client:
  assumes "run_state (fetch_membership_descriptors os) self = (r, self')"
  shows "same_client self self'" "oc_membership_descriptors self' = oc_membership_descriptors self"
  using assms
  by (auto simp: fetch_run list_objects_run same_client_def split: prod.splits sum.splits store_reply.splits)


section \<open>The directory as a set of descriptors\<close>

definition published :: "(obj_path \<Rightarrow> obj_bytes option) \<Rightarrow> obj_path \<Rightarrow> replica_descriptor set" where
  "published objects directory = {d. \<exists>q \<in> dom objects. below directory q \<and> descriptor_from_str q = Inr d}"

lemma descriptor_from_str_last:
  "last (split_on CHR ''/'' s) = last (split_on CHR ''/'' t) \<Longrightarrow> descriptor_from_str s = descriptor_from_str t"
  by (simp add: descriptor_from_str_def)

lemma set_parse_members: "set (parse_members names) = {d. \<exists>n \<in> set names. descriptor_from_str n = Inr d}"
  by (induction names) (auto simp: parse_members_def List.map_filter_simps split: sum.splits)

lemma object_path_below: "below directory (object_path d directory)"
proof -
  have "show_descriptor d \<noteq> []"
    by (cases "rd_final_counter d") (simp_all add: show_descriptor_def)
  then show ?thesis unfolding below_def object_path_def by blast
qed

lemma object_path_parsed: "descriptor_ok d \<Longrightarrow> descriptor_from_str (object_path d directory) = Inr d"
  by (rule descriptor_from_str_show)
    (simp_all add: object_path_def last_split_on_append split_on_no_sep show_descriptor_no_slash)

lemma published_insert:
  assumes "descriptor_ok d" "objects (object_path d directory) \<noteq> None"
  shows "d \<in> published objects directory"
  using assms object_path_below object_path_parsed unfolding published_def by blast

lemma fetch_published:
  assumes "store_ok os content loc" "run_state (fetch_membership_descriptors os) self = (Inr members, self')"
  shows "set members = published (content (oc_store self)) (oc_membership_directory_path self)"
    "content (oc_store self') = content (oc_store self)"
proof -
  obtain st reply where l: "os_list os (oc_membership_directory_path self) (oc_store self) = (st, reply)"
    by (cases "os_list os (oc_membership_directory_path self) (oc_store self)")
  obtain names where names: "reply = Replied (Inr names)" "members = parse_members names"
    and self': "oc_store self' = st"
    using assms(2) l
    by (auto simp: fetch_run list_objects_run split: store_reply.splits sum.splits)
  have "set names = loc ` {q \<in> dom (content (oc_store self)). below (oc_membership_directory_path self) q}"
    by (rule store_list(2)[OF assms(1) l names(1)])
  then show "set members = published (content (oc_store self)) (oc_membership_directory_path self)"
    using descriptor_from_str_last[OF store_loc[OF assms(1)]]
    by (auto simp: names(2) set_parse_members published_def)
  show "content (oc_store self') = content (oc_store self)"
    unfolding self' by (rule store_list(1)[OF assms(1) l])
qed

lemma fetch_content:
  assumes "store_ok os content loc" "run_state (fetch_membership_descriptors os) self = (r, self')"
  shows "content (oc_store self') = content (oc_store self)"
proof -
  obtain st reply where l: "os_list os (oc_membership_directory_path self) (oc_store self) = (st, reply)"
    by (cases "os_list os (oc_membership_directory_path self) (oc_store self)")
  have "oc_store self' = st"
    using assms(2) l by (auto simp: fetch_run list_objects_run split: store_reply.splits sum.splits)
  then show ?thesis using store_list(1)[OF assms(1) l] by simp
qed

lemma list_members_run:
  "run_state (list_membership_descriptors os) self =
     (case run_state (fetch_membership_descriptors os) self of
        (Inl e, self') \<Rightarrow> (None, self')
      | (Inr ds, self') \<Rightarrow> (Some ds, self'\<lparr>oc_membership_descriptors := ds\<rparr>))"
  by (auto simp: list_membership_descriptors_def update_membership_cache_def storage_simps
      split: prod.splits sum.splits)

lemma write_descriptor_run:
  "run_state (write_membership_descriptor os d) self = run_state (put_create os (descriptor_path self d) []) self"
  by (simp add: write_membership_descriptor_def upload_empty_atomic_create_def)

text \<open>A creation that is answered leaves the object there, whichever of the two answers it is.\<close>

lemma put_create_content:
  assumes "store_ok os content loc" "run_state (put_create os p bs) self = (Inr created, self')"
  shows "content (oc_store self') =
      (if created then (content (oc_store self))(p \<mapsto> bs) else content (oc_store self))"
    and "created \<longleftrightarrow> content (oc_store self) p = None" and "same_client self self'"
    and "oc_membership_descriptors self' = oc_membership_descriptors self"
proof -
  obtain st reply where c: "os_put_create os p bs (oc_store self) = (st, reply)"
    by (cases "os_put_create os p bs (oc_store self)")
  have r: "oc_store self' = st" "same_client self self'"
    "oc_membership_descriptors self' = oc_membership_descriptors self"
    "(created \<and> reply = Replied (Inr ())) \<or>
     (\<not> created \<and> (\<exists>e. reply = Replied (Inl e) \<and> e \<in> {AlreadyExists, Precondition}))"
    using assms(2) c
    by (auto simp: put_create_run same_client_def split: store_reply.splits sum.splits if_splits)
  show "content (oc_store self') = (if created then (content (oc_store self))(p \<mapsto> bs) else content (oc_store self))"
    "created \<longleftrightarrow> content (oc_store self) p = None"
    using r(1,4) store_create[OF assms(1), of p bs "oc_store self" st] store_exists[OF assms(1), of p bs "oc_store self" st] c
    by auto
qed (use assms(2) in \<open>auto simp: put_create_run same_client_def
      split: prod.splits store_reply.splits sum.splits if_splits\<close>)


text \<open>An answered creation publishes the descriptor and nothing else.\<close>

lemma published_created:
  assumes "store_ok os content loc" "descriptor_ok d"
    and "run_state (put_create os (descriptor_path self d) bs) self = (Inr created, self')"
  shows "published (content (oc_store self')) (oc_membership_directory_path self) =
    insert d (published (content (oc_store self)) (oc_membership_directory_path self))"
proof (cases created)
  case True
  have "below (oc_membership_directory_path self) (descriptor_path self d)" "descriptor_from_str (descriptor_path self d) = Inr d"
    using object_path_below object_path_parsed[OF assms(2)] by (simp_all add: descriptor_path_def)
  then show ?thesis using put_create_content(1)[OF assms(1,3)] True by (auto simp: published_def)
next
  case False
  then have "d \<in> published (content (oc_store self)) (oc_membership_directory_path self)"
    using put_create_content(2)[OF assms(1,3)] published_insert[OF assms(2)] by (simp add: descriptor_path_def)
  then show ?thesis using put_create_content(1)[OF assms(1,3)] False by auto
qed

text \<open>An object that is there is read as it was written, unless the transport fails.\<close>

lemma download_stored:
  assumes "store_ok os content loc" "content (oc_store self) p = Some bs" "de bs = Some x"
    and "run_state (download_data os de p) self = (r, self')"
  shows "case r of Inr y \<Rightarrow> y = x | Inl e \<Rightarrow> e \<noteq> FileNotFound \<and> e \<noteq> SerializationError"
    and "content (oc_store self') = content (oc_store self)" "same_client self self'"
    and "oc_membership_descriptors self' = oc_membership_descriptors self"
proof -
  obtain st reply where g: "os_get os p (oc_store self) = (st, reply)" by (cases "os_get os p (oc_store self)")
  have g': "content st = content (oc_store self)" "reply \<noteq> Replied (Inl NotFound)"
    using store_get(1,3)[OF assms(1) g] assms(2) by auto
  obtain st2 body where o: "os_body os p st = (st2, body)" by (cases "os_body os p st")
  have body: "content st2 = content (oc_store self)" "body = Replied (Inr bs') \<Longrightarrow> bs' = bs" for bs'
    using store_body[OF assms(1) o] g'(1) assms(2) by auto
  show "case r of Inr y \<Rightarrow> y = x | Inl e \<Rightarrow> e \<noteq> FileNotFound \<and> e \<noteq> SerializationError"
    using assms(3,4) g g'(2) o body(2) by (auto simp: download_run split: store_reply.splits sum.splits if_splits)
  show "content (oc_store self') = content (oc_store self)" "same_client self self'"
    "oc_membership_descriptors self' = oc_membership_descriptors self"
    using assms(4) g g'(1) o body(1)
    by (auto simp: download_run same_client_def split: store_reply.splits sum.splits if_splits)
qed


section \<open>The life cycle of the poll\<close>

text \<open>
  The steps of the client as the replica drives it: the timer starts a poll, the task of a poll
  ends, a result is received, the poll finished and a listing put in the cache, and any other
  operation, which leaves the poll alone.
\<close>

inductive poll_step :: "'st object_store \<Rightarrow> 'st storage_client \<Rightarrow> 'st storage_client \<Rightarrow> bool" for os where
  poll_start: "poll_step os self (start_membership_poll self)"
| poll_complete: "0 < oc_poll_running self \<Longrightarrow> poll_step os self (poll_task_completes os self)"
| poll_consume:
    "recv_membership_poll self = Some (members, self') \<Longrightarrow>
     poll_step os self (case members of
       None \<Rightarrow> finish_membership_poll self'
     | Some ds \<Rightarrow> snd (run_state (update_membership_cache ds) (finish_membership_poll self')))"
| poll_other: "same_client self self' \<Longrightarrow> poll_step os self self'"

definition poll_inv :: "'st storage_client \<Rightarrow> bool" where
  "poll_inv self \<longleftrightarrow>
     oc_poll_running self + length (oc_poll_results self) = (if oc_poll_in_flight self then 1 else 0)"

lemma same_client_poll_inv: "same_client self self' \<Longrightarrow> poll_inv self' = poll_inv self"
  by (simp add: same_client_def poll_inv_def)

lemma poll_step_inv:
  assumes "poll_step os self self'" "poll_inv self"
  shows "poll_inv self'"
  using assms
proof (cases rule: poll_step.cases)
  case poll_complete
  obtain r s1 where f: "run_state (fetch_membership_descriptors os) self = (r, s1)"
    by (cases "run_state (fetch_membership_descriptors os) self")
  show ?thesis using poll_complete assms(2) fetch_same_client(1)[OF f]
    by (auto simp: poll_task_completes_def f poll_inv_def same_client_def split: if_splits)
next
  case (poll_consume members s1)
  then show ?thesis using assms(2)
    by (auto simp: recv_membership_poll_def poll_inv_def finish_membership_poll_def update_membership_cache_def
        storage_simps split: list.splits option.splits if_splits)
qed (auto simp: start_membership_poll_def poll_inv_def same_client_def)


section \<open>Properties\<close>

text \<open>
  Registering shows a replica. If the registration and the listing behind it are answered, the
  listed members are exactly the descriptors published below the membership directory, the
  registered one among them, whether it was created now or existed already; the cache then holds
  this listing. If either call fails, nothing is returned and the cache keeps the listing it had.
\<close>

theorem registration_is_listed:
  assumes "store_ok os content loc" "descriptor_ok d"
    and "run_state (client_register_and_list_members os d) self = (result, self')"
  shows "case result of
      Some members \<Rightarrow> d \<in> set members \<and> oc_membership_descriptors self' = members \<and>
        set members = published (content (oc_store self')) (oc_membership_directory_path self) \<and>
        published (content (oc_store self')) (oc_membership_directory_path self) =
          insert d (published (content (oc_store self)) (oc_membership_directory_path self))
    | None \<Rightarrow> oc_membership_descriptors self' = oc_membership_descriptors self"
proof -
  let ?p = "descriptor_path self d" and ?dir = "oc_membership_directory_path self"
  obtain w self1 where w: "run_state (put_create os ?p []) self = (w, self1)"
    by (cases "run_state (put_create os ?p []) self")
  note run = assms(3)[unfolded client_register_and_list_members_def, simplified, unfolded write_descriptor_run w, simplified]
  have cache: "oc_membership_descriptors self1 = oc_membership_descriptors self"
    using w by (auto simp: put_create_run split: prod.splits store_reply.splits sum.splits if_splits)
  show ?thesis
  proof (cases w)
    case (Inl e)
    then show ?thesis using run cache by auto
  next
    case (Inr created)
    note c = put_create_content[OF assms(1) w[unfolded Inr]]
    obtain f self2 where f: "run_state (fetch_membership_descriptors os) self1 = (f, self2)"
      by (cases "run_state (fetch_membership_descriptors os) self1")
    show ?thesis
    proof (cases f)
      case (Inl e)
      then show ?thesis using run f cache fetch_same_client(2)[OF f] by (auto simp: Inr list_members_run)
    next
      case (Inr members)
      then have r: "result = Some members" "self' = self2\<lparr>oc_membership_descriptors := members\<rparr>"
        using run f \<open>w = Inr created\<close> by (auto simp: list_members_run)
      have dir: "oc_membership_directory_path self1 = ?dir" using c(3) by (simp add: same_client_def)
      have m: "set members = published (content (oc_store self1)) ?dir"
        "content (oc_store self2) = content (oc_store self1)"
        using fetch_published[OF assms(1) f[unfolded Inr]] by (simp_all add: dir)
      have "published (content (oc_store self1)) ?dir = insert d (published (content (oc_store self)) ?dir)"
        by (rule published_created[OF assms(1,2) w[unfolded \<open>w = Inr created\<close>]])
      then show ?thesis using m r by simp
    qed
  qed
qed

abbreviation example_client :: "mem_store storage_client" where
  "example_client \<equiv> client_new [] ''run1/state.json'' ''run1/members/''"

lemma example_register:
  "\<exists>members self'. run_state (client_register_and_list_members mem_object_store example_descriptor) example_client =
     (Some members, self')"
  by (simp add: client_register_and_list_members_def write_descriptor_run put_create_run list_members_run fetch_run
      list_objects_run mem_object_store_def client_new_def)

lemma example_descriptor_ok: "descriptor_ok example_descriptor"
  by code_simp

theorem registration_is_listed_witness:
  "store_ok mem_object_store map_of (\<lambda>q. q) \<and> descriptor_ok example_descriptor \<and>
   (\<exists>members self'. run_state (client_register_and_list_members mem_object_store example_descriptor) example_client =
        (Some members, self') \<and> example_descriptor \<in> set members \<and> oc_membership_descriptors self' = members)"
proof -
  obtain members self' where run: "run_state (client_register_and_list_members mem_object_store example_descriptor)
      example_client = (Some members, self')"
    using example_register by blast
  show ?thesis
    using registration_is_listed[OF mem_store_ok example_descriptor_ok run] mem_store_ok example_descriptor_ok run
    by auto
qed

text \<open>
  A descriptor is created once. If two clients of one directory publish the same descriptor
  one after the other and both calls are answered, the second is told that it existed, whoever
  made it, and what the first one wrote (a final state, say) is kept. So at most one of the
  claims of an epoch by the same process succeeds, and a shutdown descriptor is never overwritten.
\<close>

theorem descriptor_created_once:
  assumes "store_ok os content loc"
    and "oc_membership_directory_path b = oc_membership_directory_path a"
    and "run_state (write_membership_descriptor_payload os ser d x) a = (Inr created_a, a')"
    and "oc_store b = oc_store a'"
    and "run_state (write_membership_descriptor os d) b = (Inr created_b, b')"
  shows "\<not> created_b \<and> content (oc_store b') = content (oc_store a') \<and>
    (created_a \<longleftrightarrow> content (oc_store a) (descriptor_path a d) = None) \<and>
    content (oc_store b') (descriptor_path a d) =
      (if created_a then ser x else content (oc_store a) (descriptor_path a d))"
proof -
  obtain bs where bs: "ser x = Some bs"
    using assms(3) by (auto simp: write_membership_descriptor_payload_def upload_data_atomic_create_def split: option.splits)
  have pa: "run_state (put_create os (descriptor_path a d) bs) a = (Inr created_a, a')"
    using assms(3) bs by (simp add: write_membership_descriptor_payload_def upload_data_atomic_create_def)
  have pb: "run_state (put_create os (descriptor_path a d) []) b = (Inr created_b, b')"
    using assms(2,5) by (simp add: write_descriptor_run descriptor_path_def)
  show ?thesis
    using put_create_content(1,2)[OF assms(1) pa] put_create_content(1,2)[OF assms(1) pb] assms(4) bs
    by (auto split: if_splits)
qed

theorem descriptor_created_once_witness:
  "store_ok mem_object_store map_of (\<lambda>q. q) \<and>
   (\<exists>a' b'. run_state (write_membership_descriptor_payload mem_object_store Some example_descriptor [1, 2]) example_client =
        (Inr True, a') \<and>
      run_state (write_membership_descriptor mem_object_store example_descriptor) a' = (Inr False, b') \<and>
      map_of (oc_store b') (descriptor_path example_client example_descriptor) = Some [1, 2])"
proof -
  obtain a' where a: "run_state (write_membership_descriptor_payload mem_object_store Some example_descriptor [1, 2])
      example_client = (Inr True, a')"
    "oc_membership_directory_path a' = oc_membership_directory_path example_client"
    "oc_store a' = [(descriptor_path example_client example_descriptor, [1, 2])]"
    by (simp add: write_membership_descriptor_payload_def upload_data_atomic_create_def put_create_run
        mem_object_store_def client_new_def descriptor_path_def)
  obtain b' where b: "run_state (write_membership_descriptor mem_object_store example_descriptor) a' = (Inr False, b')"
    using a(2,3) by (simp add: write_descriptor_run put_create_run mem_object_store_def descriptor_path_def)
  show ?thesis
    using descriptor_created_once[OF mem_store_ok a(2,1) refl b] mem_store_ok a(1) b by auto
qed

text \<open>
  The final state of a departed replica is read as it was written. Once a shutdown descriptor
  was created with its state, a client of the same directory that reads it is given that state or
  an error of the transport, never another state and never the answer that there is none.
\<close>

theorem final_state_round_trip:
  assumes "store_ok os content loc" "oc_membership_directory_path b = oc_membership_directory_path a"
    and "run_state (write_membership_descriptor_payload os ser d x) a = (Inr True, a')"
    and "content (oc_store b) = content (oc_store a')"
    and "\<forall>bs. ser x = Some bs \<longrightarrow> de bs = Some x"
    and "run_state (read_membership_descriptor_payload os de d) b = (result, b')"
  shows "case result of Inr payload \<Rightarrow> payload = Some x | Inl e \<Rightarrow> e \<noteq> FileNotFound \<and> e \<noteq> SerializationError"
proof -
  let ?p = "descriptor_path a d"
  obtain bs where bs: "ser x = Some bs"
    using assms(3) by (auto simp: write_membership_descriptor_payload_def upload_data_atomic_create_def split: option.splits)
  have "run_state (put_create os ?p bs) a = (Inr True, a')"
    using assms(3) bs by (simp add: write_membership_descriptor_payload_def upload_data_atomic_create_def)
  from put_create_content(1)[OF assms(1) this] have stored: "content (oc_store b) ?p = Some bs"
    using assms(4) by simp
  have p: "descriptor_path b d = ?p" using assms(2) by (simp add: descriptor_path_def)
  have de: "de bs = Some x" using assms(5) bs by blast
  have "run_state (download_data os de ?p) b = (r, b') \<Longrightarrow>
      (case r of Inr y \<Rightarrow> y = x | Inl e \<Rightarrow> e \<noteq> FileNotFound \<and> e \<noteq> SerializationError)" for r
    by (rule download_stored(1)[where de = de, OF assms(1) stored de])
  then show ?thesis
    using assms(6) p
    by (auto simp: read_membership_descriptor_payload_def missing_as_none_def
        split: prod.splits sum.splits object_storage_error.splits)
qed

theorem final_state_round_trip_witness:
  "store_ok mem_object_store map_of (\<lambda>q. q) \<and>
   (\<exists>a' b'. run_state (write_membership_descriptor_payload mem_object_store Some example_descriptor [1, 2]) example_client =
        (Inr True, a') \<and>
      run_state (read_membership_descriptor_payload mem_object_store Some example_descriptor) a' =
        (Inr (Some [1, 2]), b'))"
proof -
  obtain a' where a: "run_state (write_membership_descriptor_payload mem_object_store Some example_descriptor [1, 2])
      example_client = (Inr True, a')"
    "oc_membership_directory_path a' = oc_membership_directory_path example_client"
    "oc_store a' = [(descriptor_path example_client example_descriptor, [1, 2])]"
    by (simp add: write_membership_descriptor_payload_def upload_data_atomic_create_def put_create_run
        mem_object_store_def client_new_def descriptor_path_def)
  obtain payload b' where b: "run_state (read_membership_descriptor_payload mem_object_store Some example_descriptor) a' =
      (Inr payload, b')"
    using a(2,3) by (simp add: read_membership_descriptor_payload_def download_run mem_object_store_def
        descriptor_path_def missing_as_none_def)
  have de: "\<forall>bs. Some [1, 2] = Some bs \<longrightarrow> Some bs = Some ([1, 2] :: obj_bytes)" by simp
  have "payload = Some [1, 2]"
    using final_state_round_trip[OF mem_store_ok a(2,1) refl de b] by simp
  then show ?thesis using mem_store_ok a(1) b by blast
qed

text \<open>
  Polls do not overlap. However the timer, the background tasks, the loop and the other
  operations of the client interleave, there is at most one poll between its start and the
  handling of its result: a running task or a waiting result, never both and never two, and one of
  them exactly while the poll is marked as in flight. So a start in that time does nothing, and a
  listing that is put in the cache was fetched after the one before it had been handled.
\<close>

theorem polls_do_not_overlap:
  assumes "(poll_step os)\<^sup>*\<^sup>* (client_new store persistent directory) self"
  shows "oc_poll_running self + length (oc_poll_results self) = (if oc_poll_in_flight self then 1 else 0) \<and>
    (oc_poll_running self > 0 \<or> oc_poll_results self \<noteq> [] \<longrightarrow> start_membership_poll self = self)"
proof -
  from assms have "poll_inv self"
  proof (induction rule: rtranclp_induct)
    case base
    show ?case by (simp add: poll_inv_def client_new_def)
  next
    case (step y z)
    then show ?case by (blast intro: poll_step_inv)
  qed
  then show ?thesis by (auto simp: poll_inv_def start_membership_poll_def split: if_splits)
qed

theorem polls_do_not_overlap_witness:
  "(poll_step mem_object_store)\<^sup>*\<^sup>* example_client (start_membership_poll example_client) \<and>
   oc_poll_running (start_membership_poll example_client) = 1 \<and>
   start_membership_poll (start_membership_poll example_client) = start_membership_poll example_client"
proof -
  have r: "(poll_step mem_object_store)\<^sup>*\<^sup>* example_client (start_membership_poll example_client)"
    by (rule r_into_rtranclp) (rule poll_start)
  have "oc_poll_running (start_membership_poll example_client) = 1"
    by (simp add: start_membership_poll_def client_new_def)
  then show ?thesis using polls_do_not_overlap[OF r] r by simp
qed

text \<open>
  Deleting the descriptors of a departed process. If every deletion is answered, none of the cached
  descriptors of the process is left in the directory or in the cache; otherwise the cache keeps
  them all, so that the next round tries again.
\<close>

lemma delete_run:
  "run_state (delete_data os p) self =
     (case os_delete os p (oc_store self) of (st, reply) \<Rightarrow>
        (case reply of
           Replied (Inr _) \<Rightarrow> (Inr (), self\<lparr>oc_store := st, oc_connection_logged := True\<rparr>)
         | Replied (Inl e) \<Rightarrow> (Inl (StoreError e), self\<lparr>oc_store := st\<rparr>)
         | NoReply \<Rightarrow> (Inl (OperationTimeout ''delete'' p), self\<lparr>oc_store := st\<rparr>)))"
  by (auto simp: delete_data_def storage_simps split: prod.splits sum.splits store_reply.splits)

lemma try_delete_all_cache:
  "run_state (try_delete_all os ds) self = (r, self') \<Longrightarrow>
   oc_membership_descriptors self' = oc_membership_descriptors self"
proof (induction ds arbitrary: self)
  case (Cons d ds)
  obtain r1 s1 where d: "run_state (delete_data os (descriptor_path self d)) self = (r1, s1)"
    by (cases "run_state (delete_data os (descriptor_path self d)) self")
  have "oc_membership_descriptors s1 = oc_membership_descriptors self"
    using d by (auto simp: delete_run split: prod.splits store_reply.splits sum.splits)
  then show ?case using Cons d
    by (cases r1) (auto simp: try_delete_membership_descriptor_def run_or_return)
qed simp

lemma try_delete_all_run:
  assumes "store_ok os content loc" "run_state (try_delete_all os ds) self = (r, self')"
  shows "same_client self self' \<and> oc_membership_descriptors self' = oc_membership_descriptors self \<and>
    (r = Inr () \<longrightarrow> (\<forall>p. content (oc_store self') p =
       (if p \<in> descriptor_path self ` set ds then None else content (oc_store self) p)))"
  using assms(2)
proof (induction ds arbitrary: self)
  case Nil
  then show ?case by (simp add: same_client_def)
next
  case (Cons d ds)
  obtain r1 s1 where d: "run_state (delete_data os (descriptor_path self d)) self = (r1, s1)"
    by (cases "run_state (delete_data os (descriptor_path self d)) self")
  obtain st reply where o: "os_delete os (descriptor_path self d) (oc_store self) = (st, reply)"
    by (cases "os_delete os (descriptor_path self d) (oc_store self)")
  have s1: "same_client self s1" "oc_membership_descriptors s1 = oc_membership_descriptors self"
    "r1 = Inr () \<Longrightarrow> content (oc_store s1) = (content (oc_store self))(descriptor_path self d := None)"
    using d o store_delete[OF assms(1), of _ "oc_store self" st]
    by (auto simp: delete_run same_client_def split: store_reply.splits sum.splits)
  have path: "descriptor_path s1 = descriptor_path self"
    using s1(1) by (simp add: descriptor_path_def same_client_def fun_eq_iff)
  show ?case
  proof (cases r1)
    case (Inl e)
    then show ?thesis using Cons.prems d s1(1,2)
      by (auto simp: try_delete_membership_descriptor_def run_or_return)
  next
    case (Inr u)
    then have "run_state (try_delete_all os ds) s1 = (r, self')"
      using Cons.prems d by (simp add: try_delete_membership_descriptor_def run_or_return)
    from Cons.IH[OF this] s1 Inr path show ?thesis by (auto simp: same_client_def)
  qed
qed

theorem departed_descriptors_deleted:
  assumes "store_ok os content loc"
    and "run_state (delete_membership_descriptors_for_pid os p) self = (u, self')"
  shows "oc_membership_descriptors self' = oc_membership_descriptors self \<or>
    oc_membership_descriptors self' = filter (\<lambda>d. rd_pid d \<noteq> p) (oc_membership_descriptors self) \<and>
    (\<forall>q. content (oc_store self') q =
       (if \<exists>d \<in> set (oc_membership_descriptors self). rd_pid d = p \<and> q = descriptor_path self d then None
        else content (oc_store self) q))"
proof -
  let ?ds = "filter (\<lambda>d. rd_pid d = p) (oc_membership_descriptors self)"
  obtain r s1 where r: "run_state (try_delete_all os ?ds) self = (r, s1)"
    by (cases "run_state (try_delete_all os ?ds) self")
  show ?thesis using try_delete_all_run[OF assms(1) r] assms(2) r
    by (cases r) (auto simp: delete_membership_descriptors_for_pid_def storage_simps image_iff)
qed

end
