(* ===== verification/Replica_Storage.thy ===== *)
theory Replica_Storage
  imports Replica_Protocol Object_Storage
begin

text \<open>
  The replica on top of the object storage client. The handlers of \<open>Replica\<close> take the answers of
  object storage as arguments; here the calls are made through the client of \<open>Object_Storage\<close>, in
  the order of the program, and the membership list the replica works with is the client's cache.
  What holds of the handlers for all answers then holds of the replica on a store.
\<close>

section \<open>The collection round on the client\<close>

abbreviation create_answer :: "object_storage_error + bool \<Rightarrow> bool option" where
  "create_answer r \<equiv> (case r of Inr created \<Rightarrow> Some created | Inl _ \<Rightarrow> None)"

definition with_cache :: "('s, 'w) replica \<Rightarrow> 'st storage_client \<Rightarrow> ('s, 'w) replica" where
  "with_cache self client = self\<lparr>rp_members := oc_membership_descriptors client\<rparr>"

definition gc_departed_client :: "'st object_store \<Rightarrow> pid list \<Rightarrow> 'st storage_client \<Rightarrow> 'st storage_client" where
  "gc_departed_client os departed_pids =
     fold (\<lambda>p client. snd (run_state (delete_membership_descriptors_for_pid os p) client)) departed_pids"

definition complete_gc_client ::
  "('s, 'd, 'x, 'q, 'm, 'r) crdt_ops \<Rightarrow> ('v, 's, 'd, 'x, 'm) codec \<Rightarrow> io_outcome \<Rightarrow> 'st object_store \<Rightarrow>
   ('s persistent_replica \<Rightarrow> obj_bytes option) \<Rightarrow> gc_marker \<Rightarrow> ('s, 'w) replica \<Rightarrow> 'st storage_client \<Rightarrow>
   (('s, 'w) replica \<times> bool \<times> 'st storage_client) exec" where
  "complete_gc_client ops c io os ser marker self client =
     exec_bind (replica_apply_gc_marker ops c io marker self) (\<lambda>self1.
       case run_state (write_persistent_replica os ser (persistent_of self1)) client of
         (False, client1) \<Rightarrow> Done (self1, False, client1)
       | (True, client1) \<Rightarrow>
           (let client2 = (case gm_departed_pids marker of
                             None \<Rightarrow> client1 | Some ps \<Rightarrow> gc_departed_client os ps client1)
            in Done (with_cache self1 client2, True, client2)))"

definition validate_gc_client ::
  "'st object_store \<Rightarrow> (pid, counter) hashmap \<Rightarrow> replica_descriptor \<Rightarrow> ('s, 'w) replica \<Rightarrow> 'st storage_client \<Rightarrow>
   ('s, 'w) replica \<times> bool \<times> 'st storage_client" where
  "validate_gc_client os previous new_descriptor self client =
     (case run_state (list_membership_descriptors os) client of
        (None, client1) \<Rightarrow> (self, False, snd (run_state (delete_membership_descriptor os new_descriptor) client1))
      | (Some current_members, client1) \<Rightarrow>
          (let current = membership_gc_counters_by_pid current_members;
               is_stable = list_all (\<lambda>(p, counter).
                  p = rp_pid self \<or> (case hm_get previous p of Some old \<Rightarrow> counter \<le> old | None \<Rightarrow> False))
                 (hm_iter current)
           in if is_stable then (with_cache self client1, True, client1)
              else
                (let client2 = snd (run_state (delete_membership_descriptor os new_descriptor) client1);
                     client3 = snd (run_state (list_membership_descriptors os) client2)
                 in (with_cache self client3, False, client3))))"

definition init_gc_client ::
  "('s, 'd, 'x, 'q, 'm, 'r) crdt_ops \<Rightarrow> ('v, 's, 'd, 'x, 'm) codec \<Rightarrow> io_outcome \<Rightarrow> 'st object_store \<Rightarrow>
   ('s persistent_replica \<Rightarrow> obj_bytes option) \<Rightarrow> ('s, 'w) replica \<Rightarrow> 'st storage_client \<Rightarrow>
   (('s, 'w) replica \<times> 'st storage_client) exec" where
  "init_gc_client ops c io os ser self0 client =
     exec_bind (refresh_own_version_vector ops self0) (\<lambda>(self, _).
     exec_bind (needs_gc (rp_wrapper self)) (\<lambda>due.
       if \<not> due then Done (self, client)
       else
         exec_bind (get_stable (wr_version_matrix (rp_wrapper self))) (\<lambda>(now_stable, departed_pids).
           case now_stable of
             None \<Rightarrow> Done (self, client)
           | Some st \<Rightarrow>
               (let previous_gc_counters = membership_gc_counters_by_pid (oc_membership_descriptors client);
                    previous_descriptor = own_descriptor self;
                    new_marker = next_gc_marker (rp_wrapper self);
                    new_descriptor = \<lparr>rd_pid = rp_pid self, rd_address = rp_address self,
                      rd_gc_counter = dot_counter new_marker, rd_final_counter = None\<rparr>
                in case run_state (write_membership_descriptor os new_descriptor) client of
                     (created, client1) \<Rightarrow>
                       if create_answer created \<noteq> Some True then Done (self, client1)
                       else
                         (case validate_gc_client os previous_gc_counters new_descriptor self client1 of
                            (self1, valid, client2) \<Rightarrow>
                              if \<not> valid then Done (self1, client2)
                              else
                                exec_bind (complete_gc_client ops c io os ser
                                    \<lparr>gm_marker = new_marker, gm_stable = st, gm_departed_pids = departed_pids\<rparr> self1 client2)
                                  (\<lambda>(self2, completed, client3).
                                    if \<not> completed then Done (self2, client3)
                                    else Done (self2, snd (run_state
                                           (delete_membership_descriptor os previous_descriptor) client3))))))))"


section \<open>Departures and the membership poll on the client\<close>

text \<open>The descriptor a replica leaves behind, and its shutdown.\<close>

definition final_descriptor :: "('s, 'd, 'x, 'q, 'm, 'r) crdt_ops \<Rightarrow> ('s, 'w) replica \<Rightarrow> replica_descriptor" where
  "final_descriptor ops self =
     (let final_counter = (case counter_of (op_get_version_vector ops (rp_crdt self)) (rp_pid self) of
                             Some n \<Rightarrow> n | None \<Rightarrow> -1)
      in (own_descriptor self)\<lparr>rd_final_counter := Some final_counter\<rparr>)"

definition shutdown_client ::
  "('s, 'd, 'x, 'q, 'm, 'r) crdt_ops \<Rightarrow> 'st object_store \<Rightarrow> ('s \<Rightarrow> obj_bytes option) \<Rightarrow>
   ('s, 'w) replica \<Rightarrow> 'st storage_client \<Rightarrow>
   ('s, 'w) replica \<times> (object_storage_error + bool) \<times> 'st storage_client" where
  "shutdown_client ops os ser self client =
     (case run_state (write_membership_descriptor_payload os ser (final_descriptor ops self) (rp_crdt self)) client of
        (created, client1) \<Rightarrow>
          (self\<lparr>rp_network := rn_shutdown (rp_network self)\<rparr>, created, abort_membership_poll client1))"

definition payload_answer :: "object_storage_error + 's option \<Rightarrow> 's option option" where
  "payload_answer r = (case r of Inr payload \<Rightarrow> Some payload | Inl _ \<Rightarrow> None)"

definition handle_shutdown_client ::
  "('s, 'd, 'x, 'q, 'm, 'r) crdt_ops \<Rightarrow> ('v, 's, 'd, 'x, 'm) codec \<Rightarrow> io_outcome \<Rightarrow> 'st object_store \<Rightarrow>
   (obj_bytes \<Rightarrow> 's option) \<Rightarrow> replica_descriptor \<Rightarrow> ('s, 'w) replica \<times> 'st storage_client \<Rightarrow>
   (('s, 'w) replica \<times> 'st storage_client) exec" where
  "handle_shutdown_client ops c io os de descriptor = (\<lambda>(self, client).
     exec_bind (expect ''shutdown descriptor missing final counter'' (rd_final_counter descriptor)) (\<lambda>final_counter.
       (let final_dot = Dot (rd_pid descriptor) final_counter
        in if \<not> should_fetch_departed_replica (rp_wrapper self) final_dot then Done (self, client)
           else
             (case run_state (read_membership_descriptor_payload os de descriptor) client of
                (answer, client1) \<Rightarrow>
                  exec_bind (merge_shutdown_payload ops c io (payload_answer answer) self) (\<lambda>(self1, merged).
                    if \<not> merged then Done (self1, client1)
                    else Done (self1\<lparr>rp_wrapper := observe_departed_replica (rp_wrapper self1) final_dot,
                                     rp_network := notify_departure (rp_network self1) descriptor\<rparr>, client1))))))"

definition apply_membership_poll_client ::
  "('s, 'd, 'x, 'q, 'm, 'r) crdt_ops \<Rightarrow> ('v, 's, 'd, 'x, 'm) codec \<Rightarrow> io_outcome \<Rightarrow> 'st object_store \<Rightarrow>
   (obj_bytes \<Rightarrow> 's option) \<Rightarrow> replica_descriptor list option \<Rightarrow> ('s, 'w) replica \<Rightarrow> 'st storage_client \<Rightarrow>
   (('s, 'w) replica \<times> 'st storage_client) exec" where
  "apply_membership_poll_client ops c io os de polled self client =
     (let client1 = finish_membership_poll client
      in case polled of
           None \<Rightarrow> Done (self, client1)
         | Some members \<Rightarrow>
             (let client2 = snd (run_state (update_membership_cache members) client1)
              in case enqueue_members (rp_network self) members (rp_wrapper self) of
                   (net, w) \<Rightarrow>
                     exec_fold (handle_shutdown_client ops c io os de) (filter is_shutdown members)
                       (with_cache (self\<lparr>rp_network := net, rp_wrapper := w\<rparr>) client2, client2)))"

text \<open>
  The bootstrap: the two calls that the program joins without an order between them, one after the
  other, then what their results lead to.
\<close>

definition bootstrap_client ::
  "('s, 'd, 'x, 'q, 'm, 'r) crdt_ops \<Rightarrow> ('v, 's, 'd, 'x, 'm) codec \<Rightarrow> io_outcome \<Rightarrow> 'st object_store \<Rightarrow>
   ('s persistent_replica \<Rightarrow> obj_bytes option) \<Rightarrow> (obj_bytes \<Rightarrow> 's persistent_replica option) \<Rightarrow>
   ('s, 'w) replica \<Rightarrow> 'st storage_client \<Rightarrow> (('s, 'w) replica \<times> 'st storage_client) exec" where
  "bootstrap_client ops c io os ser de self client =
     (case run_state (read_persistent_replica os de) client of (persistent_replica_result, client1) \<Rightarrow>
      case run_state (client_register_and_list_members os (own_descriptor self)) client1 of (membership_result, client2) \<Rightarrow>
        (case persistent_replica_result of
           Inl _ \<Rightarrow> Panicked (PanicMessage ''Failed to read persistent replica state'')
         | Inr found \<Rightarrow>
             exec_bind (expect ''Failed to register and list replica membership'' membership_result) (\<lambda>_.
               (let self1 = with_cache self client2
                in case found of
                     Some persistent \<Rightarrow>
                       (let rebound = pr_rebind_own_pid ops persistent (rp_pid self1)
                        in exec_bind (append_snapshot c io rebound (rp_journal self1)) (\<lambda>jd.
                             Done (self1\<lparr>rp_journal := jd, rp_crdt := pr_local_state rebound,
                                         rp_wrapper := pr_crdt_wrapper rebound\<rparr>, client2)))
                   | None \<Rightarrow>
                       (let client3 = snd (run_state (write_persistent_replica os ser (persistent_of self1)) client2)
                        in exec_map (\<lambda>self2. (self2, client3)) (persist_durable_snapshot c io self1))))))"

text \<open>
  A turn of the loop with the client: the timer of the collection and the result of a poll use it,
  and the answers in such an event are not looked at.
\<close>

fun storage_step ::
  "('s, 'd, 'x, 'q, 'm, 'r) crdt_ops \<Rightarrow> ('v, 's, 'd, 'x, 'm) codec \<Rightarrow> io_outcome \<Rightarrow> 'st object_store \<Rightarrow>
   ('s persistent_replica \<Rightarrow> obj_bytes option) \<Rightarrow> (obj_bytes \<Rightarrow> 's option) \<Rightarrow>
   ('s, 'd, 'x, 'm, 'w) replica_event \<Rightarrow> ('s, 'w) replica \<times> 'st storage_client \<Rightarrow>
   (('s, 'w) replica \<times> 'st storage_client) exec" where
  "storage_step ops c io os ser de (GcTick _) (self, client) = init_gc_client ops c io os ser self client"
| "storage_step ops c io os ser de (MembershipPolled _ polled) (self, client) =
     apply_membership_poll_client ops c io os de polled self client"
| "storage_step ops c io os ser de ev (self, client) =
     exec_map (\<lambda>self'. (self', client)) (replica_step ops c io ev self)"


section \<open>The client's calls and the cache\<close>

lemma write_descriptor_cache:
  "run_state (write_membership_descriptor os d) client = (r, client') \<Longrightarrow>
   oc_membership_descriptors client' = oc_membership_descriptors client"
  by (auto simp: write_descriptor_run put_create_run split: prod.splits store_reply.splits sum.splits if_splits)

lemma delete_descriptor_cache:
  "oc_membership_descriptors (snd (run_state (delete_membership_descriptor os d) client)) = oc_membership_descriptors client"
  by (auto simp: delete_membership_descriptor_def try_delete_membership_descriptor_def delete_run
      split: prod.splits store_reply.splits sum.splits)

lemma write_persistent_cache:
  "run_state (write_persistent_replica os ser x) client = (ok, client') \<Longrightarrow>
   oc_membership_descriptors client' = oc_membership_descriptors client"
  by (auto simp: write_persistent_replica_def upload_data_def storage_simps
      split: option.splits prod.splits store_reply.splits sum.splits)

lemma list_members_cache:
  assumes "run_state (list_membership_descriptors os) client = (r, client')"
  shows "oc_membership_descriptors client' = (case r of Some ds \<Rightarrow> ds | None \<Rightarrow> oc_membership_descriptors client)"
  using assms fetch_same_client(2)[of os client]
  by (auto simp: list_members_run split: prod.splits sum.splits)

lemma delete_for_pid_cache:
  "\<exists>P. oc_membership_descriptors (snd (run_state (delete_membership_descriptors_for_pid os p) client)) =
     filter (\<lambda>d. \<not> (rd_pid d = p \<and> P)) (oc_membership_descriptors client)"
proof -
  let ?ds = "filter (\<lambda>d. rd_pid d = p) (oc_membership_descriptors client)"
  obtain r s1 where r: "run_state (try_delete_all os ?ds) client = (r, s1)"
    by (cases "run_state (try_delete_all os ?ds) client")
  have "oc_membership_descriptors s1 = oc_membership_descriptors client"
    using r by (rule try_delete_all_cache)
  then show ?thesis using r
    by (cases r) (auto simp: delete_membership_descriptors_for_pid_def storage_simps intro: exI[of _ True] exI[of _ False])
qed

text \<open>The deletions for departed processes remove some of the processes from the cache, each as a whole.\<close>

lemma gc_departed_cache:
  "\<exists>S \<subseteq> set ps. oc_membership_descriptors (gc_departed_client os ps client) =
     filter (\<lambda>d. rd_pid d \<notin> S) (oc_membership_descriptors client)"
proof (induction ps arbitrary: client)
  case Nil
  show ?case by (rule exI[of _ "{}"]) (simp add: gc_departed_client_def)
next
  case (Cons p ps)
  let ?c = "snd (run_state (delete_membership_descriptors_for_pid os p) client)"
  obtain P where P: "oc_membership_descriptors ?c = filter (\<lambda>d. \<not> (rd_pid d = p \<and> P)) (oc_membership_descriptors client)"
    using delete_for_pid_cache by blast
  obtain S where S: "S \<subseteq> set ps" "oc_membership_descriptors (gc_departed_client os ps ?c) =
      filter (\<lambda>d. rd_pid d \<notin> S) (oc_membership_descriptors ?c)"
    using Cons by blast
  have "gc_departed_client os (p # ps) client = gc_departed_client os ps ?c" by (simp add: gc_departed_client_def)
  moreover have "filter (\<lambda>d. rd_pid d \<notin> S) (filter (\<lambda>d. \<not> (rd_pid d = p \<and> P)) ds) =
      filter (\<lambda>d. rd_pid d \<notin> (if P then insert p S else S)) ds" for ds
    by (auto intro: filter_cong)
  ultimately show ?case using P S by (intro exI[of _ "if P then insert p S else S"]) auto
qed


section \<open>The round on the client is a round of the replica\<close>

lemma with_cache_self: "rp_members self = oc_membership_descriptors client \<Longrightarrow> with_cache self client = self"
  by (simp add: with_cache_def)

lemma validate_on_client:
  assumes "validate_gc_client os previous d self client = (self', valid, client')"
    and "rp_members self = oc_membership_descriptors client"
  shows "\<exists>relisted. \<forall>ans. sa_list ans = fst (run_state (list_membership_descriptors os) client) \<longrightarrow>
      sa_relist ans = relisted \<longrightarrow>
      validate_gc_membership ans previous d self = (self', valid, if valid then [] else [DeleteDescriptor d])"
    and "rp_members self' = oc_membership_descriptors client'"
proof -
  obtain r client1 where r: "run_state (list_membership_descriptors os) client = (r, client1)"
    by (cases "run_state (list_membership_descriptors os) client")
  define client2 where "client2 = snd (run_state (delete_membership_descriptor os d) client1)"
  obtain r3 client3 where r3: "run_state (list_membership_descriptors os) client2 = (r3, client3)"
    by (cases "run_state (list_membership_descriptors os) client2")
  have c1: "oc_membership_descriptors client1 = (case r of Some ds \<Rightarrow> ds | None \<Rightarrow> oc_membership_descriptors client)"
    by (rule list_members_cache[OF r])
  have c2: "oc_membership_descriptors client2 = oc_membership_descriptors client1"
    by (simp add: client2_def delete_descriptor_cache)
  have c3: "oc_membership_descriptors client3 = (case r3 of Some ds \<Rightarrow> ds | None \<Rightarrow> oc_membership_descriptors client2)"
    by (rule list_members_cache[OF r3])
  note unfold = validate_gc_client_def r client2_def[symmetric] r3 with_cache_def Let_def
  show "rp_members self' = oc_membership_descriptors client'"
    using assms c1 c2 by (cases r) (auto simp: unfold split: if_splits)
  have "validate_gc_membership ans previous d self = (self', valid, if valid then [] else [DeleteDescriptor d])"
    if "sa_list ans = r" "sa_relist ans = r3" for ans
  proof (cases r)
    case None
    then show ?thesis using assms(1) that by (auto simp: unfold validate_gc_membership_def)
  next
    case (Some now)
    then show ?thesis using assms(1) that c1 c2 c3
      by (cases r3) (auto simp: unfold validate_gc_membership_def split: if_splits)
  qed
  then show "\<exists>relisted. \<forall>ans. sa_list ans = fst (run_state (list_membership_descriptors os) client) \<longrightarrow>
      sa_relist ans = relisted \<longrightarrow>
      validate_gc_membership ans previous d self = (self', valid, if valid then [] else [DeleteDescriptor d])"
    unfolding r fst_conv by blast
qed

lemma complete_on_client:
  assumes "complete_gc_client ops c io os ser mk self client = Done (self', completed, client')"
    and "rp_members self = oc_membership_descriptors client"
  shows "\<exists>written deleted. \<forall>ans. sa_write_persistent ans = written \<longrightarrow> sa_delete_ok ans = deleted \<longrightarrow>
      (\<exists>fx. complete_local_gc ops c io ans mk self = Done (self', completed, fx))"
    and "rp_members self' = oc_membership_descriptors client'"
proof -
  obtain self1 where s1: "replica_apply_gc_marker ops c io mk self = Done self1"
    using assms(1) by (auto simp: complete_gc_client_def exec_simps)
  have m: "rp_members self1 = rp_members self"
    using s1 by (auto simp: replica_apply_gc_marker_def exec_simps)
  obtain ok client1 where w: "run_state (write_persistent_replica os ser (persistent_of self1)) client = (ok, client1)"
    by (cases "run_state (write_persistent_replica os ser (persistent_of self1)) client")
  have c1: "rp_members self1 = oc_membership_descriptors client1"
    using write_persistent_cache[OF w] m assms(2) by simp
  note unfold = complete_gc_client_def s1 w complete_local_gc_def
  have "(\<exists>deleted. \<forall>ans. sa_write_persistent ans = ok \<longrightarrow> sa_delete_ok ans = deleted \<longrightarrow>
      (\<exists>fx. complete_local_gc ops c io ans mk self = Done (self', completed, fx))) \<and>
    rp_members self' = oc_membership_descriptors client'"
  proof (cases "ok \<and> gm_departed_pids mk \<noteq> None")
    case False
    then show ?thesis using assms(1) c1
      by (cases "gm_departed_pids mk"; cases ok) (auto simp: unfold with_cache_self)
  next
    case True
    then obtain ps where ps: "gm_departed_pids mk = Some ps" by auto
    obtain S where S: "S \<subseteq> set ps" "oc_membership_descriptors (gc_departed_client os ps client1) =
        filter (\<lambda>d. rd_pid d \<notin> S) (oc_membership_descriptors client1)"
      using gc_departed_cache by blast
    have f: "filter (\<lambda>d. rd_pid d \<in> set ps \<longrightarrow> rd_pid d \<notin> S) ds = filter (\<lambda>d. rd_pid d \<notin> S) ds" for ds
      using S(1) by (auto intro: filter_cong)
    show ?thesis using assms(1) True ps S(2) c1
      by (intro conjI exI[of _ "\<lambda>p. p \<in> S"]) (auto simp: unfold gc_departed_pids_def with_cache_def f)
  qed
  then show "\<exists>written deleted. \<forall>ans. sa_write_persistent ans = written \<longrightarrow> sa_delete_ok ans = deleted \<longrightarrow>
      (\<exists>fx. complete_local_gc ops c io ans mk self = Done (self', completed, fx))"
    "rp_members self' = oc_membership_descriptors client'"
    by blast+
qed

lemma refresh_frame:
  assumes "refresh_own_version_vector ops self = Done (self', vv)"
  shows "rp_crdt self' = rp_crdt self" "rp_journal self' = rp_journal self" "rp_pid self' = rp_pid self"
    "rp_members self' = rp_members self" "wr_gc_markers (rp_wrapper self') = wr_gc_markers (rp_wrapper self)"
  using assms
  by (auto simp: refresh_own_version_vector_def update_own_version_vector_def Let_def exec_simps split: prod.splits)

lemmas refresh_members = refresh_frame(4)

lemma init_gc_client_due:
  assumes "refresh_own_version_vector ops self = Done (s1, vv)" "needs_gc (rp_wrapper s1) = Done True"
    and "get_stable (wr_version_matrix (rp_wrapper s1)) = Done (Some st, departed)"
    and "run_state (write_membership_descriptor os (epoch_descriptor s1)) client = (created, client1)"
    and "validate_gc_client os (membership_gc_counters_by_pid (oc_membership_descriptors client))
      (epoch_descriptor s1) s1 client1 = (s2, valid, client2)"
  shows "init_gc_client ops c io os ser self client =
    (if create_answer created \<noteq> Some True then Done (s1, client1)
     else if \<not> valid then Done (s2, client2)
     else exec_map (\<lambda>(s3, completed, client3). (s3,
            if completed then snd (run_state (delete_membership_descriptor os (own_descriptor s1)) client3) else client3))
       (complete_gc_client ops c io os ser \<lparr>gm_marker = next_gc_marker (rp_wrapper s1), gm_stable = st,
          gm_departed_pids = departed\<rparr> s2 client2))"
  by (cases "complete_gc_client ops c io os ser \<lparr>gm_marker = next_gc_marker (rp_wrapper s1), gm_stable = st,
        gm_departed_pids = departed\<rparr> s2 client2")
    (auto simp: init_gc_client_def assms Let_def split: prod.splits)

text \<open>A round with nothing to collect is over after the refresh, on either side.\<close>

lemma init_gc_idle:
  assumes "refresh_own_version_vector ops self = Done (s1, vv)" "needs_gc (rp_wrapper s1) = Done due"
    and "get_stable (wr_version_matrix (rp_wrapper s1)) = Done (now, departed)" "\<not> due \<or> now = None"
  shows "init_gc ops c io ans self = Done (s1, [])" "init_gc_client ops c io os ser self client = Done (s1, client)"
  using assms by (auto simp: init_gc_def init_gc_client_def)

lemma init_gc_client_cases [consumes 1, case_names idle round]:
  assumes "init_gc_client ops c io os ser self client = Done (self', client')"
  obtains
    s1 vv where "refresh_own_version_vector ops self = Done (s1, vv)" "self' = s1" "client' = client"
      "\<And>ans. init_gc ops c io ans self = Done (s1, [])"
  | s1 vv st departed created client1 s2 valid client2 where
      "refresh_own_version_vector ops self = Done (s1, vv)" "needs_gc (rp_wrapper s1) = Done True"
      "get_stable (wr_version_matrix (rp_wrapper s1)) = Done (Some st, departed)"
      "run_state (write_membership_descriptor os (epoch_descriptor s1)) client = (created, client1)"
      "validate_gc_client os (membership_gc_counters_by_pid (oc_membership_descriptors client))
        (epoch_descriptor s1) s1 client1 = (s2, valid, client2)"
proof -
  obtain s1 vv due now departed where s1: "refresh_own_version_vector ops self = Done (s1, vv)"
    "needs_gc (rp_wrapper s1) = Done due" "get_stable (wr_version_matrix (rp_wrapper s1)) = Done (now, departed)"
    using assms by (auto simp: init_gc_client_def exec_simps needs_gc_def split: prod.splits)
  show thesis
  proof (cases "due \<and> now \<noteq> None")
    case False
    then have idle: "\<not> due \<or> now = None" by blast
    have "self' = s1" "client' = client" using init_gc_idle(2)[OF s1 idle, of c io os ser client] assms by simp_all
    then show thesis using that(1)[OF s1(1)] init_gc_idle(1)[OF s1 idle, of c io] by blast
  next
    case True
    then obtain st where now: "now = Some st" and due by auto
    obtain created client1 where w:
      "run_state (write_membership_descriptor os (epoch_descriptor s1)) client = (created, client1)"
      by (cases "run_state (write_membership_descriptor os (epoch_descriptor s1)) client")
    obtain s2 valid client2 where
      "validate_gc_client os (membership_gc_counters_by_pid (oc_membership_descriptors client))
        (epoch_descriptor s1) s1 client1 = (s2, valid, client2)"
      by (rule prod_cases3)
    from that(2)[OF s1(1) _ _ w this] show thesis using s1(2,3) now \<open>due\<close> by simp
  qed
qed

text \<open>
  Whatever the store answers to the calls of a round, the round made through the client ends as the
  round of \<open>Replica\<close> ends for some answers, and the membership list stays the client's cache.
\<close>

lemma gc_round_on_storage:
  assumes "rp_members self = oc_membership_descriptors client"
    and "init_gc_client ops c io os ser self client = Done (self', client')"
  shows "\<exists>ans fx. init_gc ops c io ans self = Done (self', fx) \<and> rp_members self' = oc_membership_descriptors client'"
  using assms(2)
proof (cases rule: init_gc_client_cases)
  case (idle s1 vv)
  then show ?thesis using refresh_members[OF idle(1)] assms(1) by auto
next
  case (round s1 vv st departed created client1 s2 valid client2)
  have m1: "rp_members s1 = oc_membership_descriptors client" using refresh_members[OF round(1)] assms(1) by simp
  let ?mk = "\<lparr>gm_marker = next_gc_marker (rp_wrapper s1), gm_stable = st, gm_departed_pids = departed\<rparr>"
  have m: "rp_members s1 = oc_membership_descriptors client1" using write_descriptor_cache[OF round(4)] m1 by simp
  note v = round(5)[folded m1]
  note on_client = init_gc_client_due[OF round]
  note on_answers = init_gc_due[OF round(1-3)]
  let ?listed = "fst (run_state (list_membership_descriptors os) client1)"
  obtain relisted where list: "\<And>ans. sa_list ans = ?listed \<Longrightarrow> sa_relist ans = relisted \<Longrightarrow>
      validate_gc_membership ans (membership_gc_counters_by_pid (rp_members s1)) (epoch_descriptor s1) s1 =
        (s2, valid, if valid then [] else [DeleteDescriptor (epoch_descriptor s1)])"
    using validate_on_client(1)[OF v m] by blast
  have m2: "rp_members s2 = oc_membership_descriptors client2" by (rule validate_on_client(2)[OF v m])
  let ?ans = "\<lambda>written deleted. \<lparr>sa_create = create_answer created, sa_list = ?listed, sa_relist = relisted,
    sa_write_persistent = written, sa_delete_ok = deleted\<rparr>"
  show ?thesis
  proof (cases "create_answer created = Some True \<and> valid")
    case False
    then show ?thesis using assms(2) m m2 list[of "?ans True (\<lambda>_. True)"]
      by (intro exI[of _ "?ans True (\<lambda>_. True)"]) (auto simp: on_client on_answers split: if_splits)
  next
    case True
    then obtain completed client3 where c3:
      "complete_gc_client ops c io os ser ?mk s2 client2 = Done (self', completed, client3)"
      "oc_membership_descriptors client' = oc_membership_descriptors client3"
      using assms(2) by (auto simp: on_client exec_simps delete_descriptor_cache)
    obtain written deleted where "\<And>ans. sa_write_persistent ans = written \<Longrightarrow> sa_delete_ok ans = deleted \<Longrightarrow>
        \<exists>fx. complete_local_gc ops c io ans ?mk s2 = Done (self', completed, fx)"
      using complete_on_client(1)[OF c3(1) m2] by blast
    from this[of "?ans written deleted"] obtain fx where
      "complete_local_gc ops c io (?ans written deleted) ?mk s2 = Done (self', completed, fx)"
      by auto
    then show ?thesis using True list[of "?ans written deleted"] complete_on_client(2)[OF c3(1) m2] c3(2)
      by (intro exI[of _ "?ans written deleted"]) (auto simp: on_answers)
  qed
qed


section \<open>The loop on the client is the loop of the replica\<close>

text \<open>An event with the same input, the answers of object storage apart.\<close>

fun same_input :: "('s, 'd, 'x, 'm, 'w) replica_event \<Rightarrow> ('s, 'd, 'x, 'm, 'w) replica_event \<Rightarrow> bool" where
  "same_input (GcTick _) ev' \<longleftrightarrow> (\<exists>ans. ev' = GcTick ans)"
| "same_input (MembershipPolled _ polled) ev' \<longleftrightarrow> (\<exists>payloads. ev' = MembershipPolled payloads polled)"
| "same_input ev ev' \<longleftrightarrow> ev' = ev"

text \<open>A listing that names no shutdown twice.\<close>

fun listing_distinct :: "('s, 'd, 'x, 'm, 'w) replica_event \<Rightarrow> bool" where
  "listing_distinct (MembershipPolled _ (Some members)) \<longleftrightarrow> distinct (filter is_shutdown members)"
| "listing_distinct ev \<longleftrightarrow> True"

lemma commit_members: "commit_delta ops c io delta self = Done self' \<Longrightarrow> rp_members self' = rp_members self"
  by (auto simp: commit_delta_def exec_simps)

lemma merge_payload_members:
  "merge_shutdown_payload ops c io payload self = Done (self', merged) \<Longrightarrow> rp_members self' = rp_members self"
  by (auto simp: merge_shutdown_payload_def Let_def exec_simps refresh_members commit_members
      split: option.splits if_splits dest!: refresh_members commit_members)

lemma handle_delta_members: "handle_delta ops c io delta mk self = Done self' \<Longrightarrow> rp_members self' = rp_members self"
  by (auto simp: handle_delta_def observe_gc_def replica_apply_gc_marker_def exec_simps
      dest!: refresh_members commit_members split: if_splits)

lemma replica_step_members:
  assumes "replica_step ops c io ev self = Done self'" "\<And>ans. ev \<noteq> GcTick ans" "\<And>ps ms. ev \<noteq> MembershipPolled ps ms"
  shows "rp_members self' = rp_members self"
  using assms
  by (cases ev) (auto simp: handle_client_mutation_def handle_version_vector_def pull_delta_def Let_def exec_simps
      dest!: refresh_members handle_delta_members split: sum.splits prod.splits option.splits send_result.splits,
    (metis send_result.exhaust)+)


lemma handle_shutdown_cong:
  "payloads d = payloads' d \<Longrightarrow>
   handle_shutdown_descriptor ops c io payloads d self = handle_shutdown_descriptor ops c io payloads' d self"
  by (simp only: handle_shutdown_descriptor_def)

lemma handle_shutdown_members:
  "handle_shutdown_descriptor ops c io payloads d self = Done self' \<Longrightarrow> rp_members self' = rp_members self"
  by (auto simp: handle_shutdown_descriptor_def Let_def exec_simps dest!: merge_payload_members split: if_splits)

lemma read_payload_cache:
  "run_state (read_membership_descriptor_payload os de d) client = (answer, client') \<Longrightarrow>
   oc_membership_descriptors client' = oc_membership_descriptors client"
  by (auto simp: read_membership_descriptor_payload_def download_run
      split: prod.splits store_reply.splits sum.splits if_splits)

lemma handle_shutdown_client_eq:
  assumes "run_state (read_membership_descriptor_payload os de d) client = (answer, client1)" "rd_final_counter d = Some n"
  shows "handle_shutdown_client ops c io os de d (self, client) =
    exec_map (\<lambda>self'. (self', if should_fetch_departed_replica (rp_wrapper self) (Dot (rd_pid d) n) then client1 else client))
      (handle_shutdown_descriptor ops c io (\<lambda>_. payload_answer answer) d self)"
  by (cases "merge_shutdown_payload ops c io (payload_answer answer) self")
    (auto simp: handle_shutdown_client_def handle_shutdown_descriptor_def assms Let_def)

lemma shutdown_on_client:
  assumes "handle_shutdown_client ops c io os de d (self, client) = Done (self', client')"
  obtains payload where "handle_shutdown_descriptor ops c io (\<lambda>_. payload) d self = Done self'"
    "oc_membership_descriptors client' = oc_membership_descriptors client"
proof -
  obtain answer client1 where r: "run_state (read_membership_descriptor_payload os de d) client = (answer, client1)"
    by (cases "run_state (read_membership_descriptor_payload os de d) client")
  obtain n where n: "rd_final_counter d = Some n"
    using assms by (auto simp: handle_shutdown_client_def exec_simps)
  show thesis using that assms read_payload_cache[OF r]
    unfolding handle_shutdown_client_eq[OF r n] by (auto simp: exec_simps split: if_splits)
qed

lemma exec_fold_cong:
  "(\<And>x s. x \<in> set xs \<Longrightarrow> f x s = g x s) \<Longrightarrow> exec_fold f xs s = exec_fold g xs s"
  by (induction xs arbitrary: s) (auto cong: exec.case_cong intro!: arg_cong2[of _ _ _ _ exec_bind])

lemma shutdown_fold_on_client:
  assumes "distinct ds" "exec_fold (handle_shutdown_client ops c io os de) ds (self, client) = Done (self', client')"
  shows "(\<exists>payloads. exec_fold (handle_shutdown_descriptor ops c io payloads) ds self = Done self') \<and>
    oc_membership_descriptors client' = oc_membership_descriptors client \<and> rp_members self' = rp_members self"
  using assms
proof (induction ds arbitrary: self client)
  case (Cons d ds)
  obtain s1 c1 where s1: "handle_shutdown_client ops c io os de d (self, client) = Done (s1, c1)"
    "exec_fold (handle_shutdown_client ops c io os de) ds (s1, c1) = Done (self', client')"
    using Cons.prems(2) by (auto simp: exec_simps)
  obtain payload where p: "handle_shutdown_descriptor ops c io (\<lambda>_. payload) d self = Done s1"
    "oc_membership_descriptors c1 = oc_membership_descriptors client"
    by (rule shutdown_on_client[OF s1(1)])
  obtain payloads where ps: "exec_fold (handle_shutdown_descriptor ops c io payloads) ds s1 = Done self'"
    "oc_membership_descriptors client' = oc_membership_descriptors c1" "rp_members self' = rp_members s1"
    using Cons.IH[OF _ s1(2)] Cons.prems(1) by auto
  let ?ps = "payloads(d := payload)"
  have "exec_fold (handle_shutdown_descriptor ops c io ?ps) ds s1 = exec_fold (handle_shutdown_descriptor ops c io payloads) ds s1"
    using Cons.prems(1) by (intro exec_fold_cong handle_shutdown_cong) auto
  moreover have "handle_shutdown_descriptor ops c io ?ps d self = Done s1"
    using p(1) handle_shutdown_cong[of ?ps d "\<lambda>_. payload" ops c io self] by simp
  ultimately have "exec_fold (handle_shutdown_descriptor ops c io ?ps) (d # ds) self = Done self'" using ps(1) by simp
  then show ?case using p ps handle_shutdown_members[OF p(1)] by auto
qed simp

lemma poll_on_storage:
  assumes "apply_membership_poll_client ops c io os de polled self client = Done (self', client')"
    and "rp_members self = oc_membership_descriptors client" "listing_distinct (MembershipPolled p polled)"
  shows "\<exists>payloads. apply_membership_poll ops c io payloads polled self = Done self' \<and>
    rp_members self' = oc_membership_descriptors client'"
proof (cases polled)
  case None
  then show ?thesis using assms(1,2)
    by (auto simp: apply_membership_poll_client_def apply_membership_poll_def finish_membership_poll_def)
next
  case (Some members)
  let ?client2 = "snd (run_state (update_membership_cache members) (finish_membership_poll client))"
  obtain net w where e: "enqueue_members (rp_network self) members (rp_wrapper self) = (net, w)" by fastforce
  have c2: "oc_membership_descriptors ?client2 = members" by (simp add: update_membership_cache_def storage_simps)
  have "distinct (filter is_shutdown members)" using assms(3) Some by simp
  note fold = shutdown_fold_on_client[OF this]
  have "self\<lparr>rp_network := net, rp_wrapper := w, rp_members := members\<rparr> =
      self\<lparr>rp_members := members, rp_network := net, rp_wrapper := w\<rparr>"
    by (cases self) simp
  note order = this
  have "exec_fold (handle_shutdown_client ops c io os de) (filter is_shutdown members)
      (self\<lparr>rp_members := members, rp_network := net, rp_wrapper := w\<rparr>, ?client2) = Done (self', client')"
    using assms(1) c2 by (simp add: Some apply_membership_poll_client_def e with_cache_def order)
  from fold[OF this] c2 show ?thesis by (auto simp: Some apply_membership_poll_def e)
qed

lemma step_on_storage:
  assumes "storage_step ops c io os ser de ev (self, client) = Done (self', client')"
    and "rp_members self = oc_membership_descriptors client" "listing_distinct ev"
  shows "\<exists>ev'. same_input ev ev' \<and> replica_step ops c io ev' self = Done self' \<and>
    rp_members self' = oc_membership_descriptors client'"
proof (cases "(\<exists>ans. ev = GcTick ans) \<or> (\<exists>ps ms. ev = MembershipPolled ps ms)")
  case True
  then show ?thesis
    using assms gc_round_on_storage[OF assms(2)] poll_on_storage[OF _ assms(2)] by (fastforce simp: exec_simps)
next
  case False
  then have step: "storage_step ops c io os ser de ev (self, client) =
      exec_map (\<lambda>self'. (self', client)) (replica_step ops c io ev self)" "same_input ev ev"
    by (cases ev; simp)+
  show ?thesis
    using assms(1,2) step(2) replica_step_members[of ops c io ev self self'] False
    unfolding step(1) by (auto simp: exec_simps)
qed


section \<open>Properties\<close>

text \<open>
  C8: a replica on object storage behaves as the replica of the protocol. Run the event loop through
  the client, on any store that answers, fails and times out as it likes, and with the membership
  list in the client's cache: the run is a run of the loop over the same inputs for some answers
  of object storage, with the same state, journal and markers at the end, and the list the replica
  works with is the cache throughout. What is proved of the loop for all answers (durability,
  totality, the effect of every handler) therefore holds of the replica on its client. (Listings
  that name the same shutdown twice are left out: its state would be read twice, with two answers.)
\<close>

theorem runs_on_storage:
  assumes "rp_members self = oc_membership_descriptors client" "\<forall>ev \<in> set events. listing_distinct ev"
    and "exec_fold (storage_step ops c io os ser de) events (self, client) = Done (self', client')"
  shows "\<exists>events'. list_all2 same_input events events' \<and> exec_fold (replica_step ops c io) events' self = Done self' \<and>
    rp_members self' = oc_membership_descriptors client'"
  using assms
proof (induction events arbitrary: self client)
  case (Cons ev events)
  obtain s1 c1 where s1: "storage_step ops c io os ser de ev (self, client) = Done (s1, c1)"
    "exec_fold (storage_step ops c io os ser de) events (s1, c1) = Done (self', client')"
    using Cons.prems(3) by (auto simp: exec_simps)
  obtain ev' where ev': "same_input ev ev'" "replica_step ops c io ev' self = Done s1"
    "rp_members s1 = oc_membership_descriptors c1"
    using step_on_storage[OF s1(1) Cons.prems(1)] Cons.prems(2) by auto
  obtain events' where "list_all2 same_input events events'"
    "exec_fold (replica_step ops c io) events' s1 = Done self'" "rp_members self' = oc_membership_descriptors client'"
    using Cons.IH[OF ev'(3) _ s1(2)] Cons.prems(2) by auto
  then show ?case using ev' by (intro exI[of _ "ev' # events'"]) simp
qed simp


abbreviation nat_ser :: "nat persistent_replica \<Rightarrow> obj_bytes option" where
  "nat_ser \<equiv> \<lambda>x. Some [of_nat (pr_local_state x)]"

abbreviation nat_de :: "obj_bytes \<Rightarrow> nat option" where
  "nat_de \<equiv> \<lambda>bs. case bs of [b] \<Rightarrow> Some (unat b) | _ \<Rightarrow> None"

abbreviation example_inputs :: "(nat, unit, unit, nat, unit) replica_event list" where
  "example_inputs \<equiv> [ClientMutation 5, GcTick example_answers, MembershipPolled (\<lambda>_. None) (Some [example_leaver])]"

lemma example_storage_run:
  "case exec_fold (storage_step counter_ops total_codec io_ok mem_object_store nat_ser nat_de) example_inputs
     (example_replica, example_client) of
     Panicked _ \<Rightarrow> False
   | Done (self', client') \<Rightarrow> rp_crdt self' = 10 \<and> length (wr_gc_markers (rp_wrapper self')) = 1 \<and>
       oc_membership_descriptors client' = [example_leaver]"
  by code_simp

theorem runs_on_storage_witness:
  "\<exists>self' client' events'. rp_members example_replica = oc_membership_descriptors example_client \<and>
     (\<forall>ev \<in> set example_inputs. listing_distinct ev) \<and>
     exec_fold (storage_step counter_ops total_codec io_ok mem_object_store nat_ser nat_de) example_inputs
       (example_replica, example_client) = Done (self', client') \<and>
     list_all2 same_input example_inputs events' \<and>
     exec_fold (replica_step counter_ops total_codec io_ok) events' example_replica = Done self' \<and>
     rp_crdt self' = 10 \<and> length (wr_gc_markers (rp_wrapper self')) = 1 \<and> rp_members self' = [example_leaver]"
proof -
  let ?run = "exec_fold (storage_step counter_ops total_codec io_ok mem_object_store nat_ser nat_de) example_inputs
    (example_replica, example_client)"
  obtain self' client' where r: "?run = Done (self', client')" "rp_crdt self' = 10"
    "length (wr_gc_markers (rp_wrapper self')) = 1" "oc_membership_descriptors client' = [example_leaver]"
    using example_storage_run by (auto split: exec.splits)
  have h: "rp_members example_replica = oc_membership_descriptors example_client"
    "\<forall>ev \<in> set example_inputs. listing_distinct ev"
    by (simp_all add: example_replica_def client_new_def)
  show ?thesis using h r runs_on_storage[OF h r(1)] by metis
qed

end
