(* ===== verification/Storage_Protocol.thy ===== *)
theory Storage_Protocol
  imports Replica_Storage
begin

text \<open>
  What the store means for the protocol, on top of \<open>Replica_Storage\<close>: overlapping collection rounds,
  the way of a final state from a leaving replica to one that stays, the persistent state that a
  newcomer starts from, and the descriptors that a round deletes.
\<close>

section \<open>A departure through the directory\<close>

lemma shutdown_is_effect:
  "replica_shutdown ops self = (fst (shutdown_client ops os ser self client),
     [CreateShutdownDescriptor (final_descriptor ops self) (rp_crdt self)])"
  by (simp add: replica_shutdown_def shutdown_client_def write_shutdown_descriptor_def final_descriptor_def Let_def
      split: prod.splits)

lemma read_payload_error_keeps:
  assumes "run_state (read_membership_descriptor_payload os de d) client = (Inl e, client1)" "rd_final_counter d = Some n"
  shows "\<exists>client'. handle_shutdown_client ops c io os de d (self, client) = Done (self, client')"
  unfolding handle_shutdown_client_eq[OF assms]
  by (simp add: handle_shutdown_descriptor_def assms(2) payload_answer_def merge_shutdown_payload_def Let_def)

text \<open>
  The final state of a leaving replica, from its shutdown through the directory to a replica that
  stays: the descriptor is listed, and once the state is read, exactly that state is merged.
\<close>

lemma departure_handoff:
  assumes store: "store_ok os content loc" "\<forall>x bs. ser x = Some bs \<longrightarrow> de bs = Some x"
    and leaver: "shutdown_client ops os ser leaver a = (leaver', Inr True, a')" "d = final_descriptor ops leaver" "descriptor_ok d"
    and b: "oc_membership_directory_path b = oc_membership_directory_path a" "content (oc_store b) = content (oc_store a')"
      "run_state (fetch_membership_descriptors os) b = (Inr members, b1)"
    and self: "codec_total c" "replica_inv self"
      "hm_get (final_dots (wr_version_matrix (rp_wrapper self))) (rd_pid d) \<noteq> rd_final_counter d"
    and delta: "delta = op_get_delta ops (rp_crdt leaver) (op_get_version_vector ops (rp_crdt self))"
      "op_merge_delta_group ops (rp_crdt self) delta = Done s"
  shows "d \<in> set (filter is_shutdown members)"
    and "\<exists>self' b2. handle_shutdown_client ops c io_ok os de d (self, b1) = Done (self', b2) \<and>
      (case fst (run_state (read_membership_descriptor_payload os de d) b1) of
         Inl _ \<Rightarrow> self' = self
       | Inr _ \<Rightarrow> rp_crdt self' = (if dg_list delta = [] then rp_crdt self else s) \<and>
           hm_get (final_dots (wr_version_matrix (rp_wrapper self'))) (rd_pid d) = rd_final_counter d \<and>
           rn_writer (rp_network self') (rd_pid d) = None)"
proof -
  obtain n where n: "rd_final_counter d = Some n" by (simp add: leaver(2) final_descriptor_def Let_def)
  obtain a1 where a1: "run_state (write_membership_descriptor_payload os ser d (rp_crdt leaver)) a = (Inr True, a1)"
    "oc_store a' = oc_store a1"
    using leaver(1,2) by (auto simp: shutdown_client_def abort_membership_poll_def split: prod.splits)
  obtain bs where "run_state (put_create os (descriptor_path a d) bs) a = (Inr True, a1)"
    using a1(1) by (auto simp: write_membership_descriptor_payload_def upload_data_atomic_create_def split: option.splits)
  from published_created[OF store(1) leaver(3) this] have "d \<in> published (content (oc_store b)) (oc_membership_directory_path b)"
    using b(1,2) a1(2) by simp
  then show "d \<in> set (filter is_shutdown members)"
    using fetch_published(1)[OF store(1) b(3)] n by (simp add: is_shutdown_def)
  obtain answer b2 where r: "run_state (read_membership_descriptor_payload os de d) b1 = (answer, b2)"
    by (cases "run_state (read_membership_descriptor_payload os de d) b1")
  have same: "oc_membership_directory_path b1 = oc_membership_directory_path a" "content (oc_store b1) = content (oc_store a1)"
    using fetch_same_client(1)[OF b(3)] fetch_content[OF store(1) b(3)] b(1,2) a1(2) by (simp_all add: same_client_def)
  have de: "\<forall>bs. ser (rp_crdt leaver) = Some bs \<longrightarrow> de bs = Some (rp_crdt leaver)" using store(2) by blast
  note payload = final_state_round_trip[OF store(1) same(1) a1(1) same(2) de r]
  show "\<exists>self' b2. handle_shutdown_client ops c io_ok os de d (self, b1) = Done (self', b2) \<and>
      (case fst (run_state (read_membership_descriptor_payload os de d) b1) of
         Inl _ \<Rightarrow> self' = self
       | Inr _ \<Rightarrow> rp_crdt self' = (if dg_list delta = [] then rp_crdt self else s) \<and>
           hm_get (final_dots (wr_version_matrix (rp_wrapper self'))) (rd_pid d) = rd_final_counter d \<and>
           rn_writer (rp_network self') (rd_pid d) = None)"
  proof (cases answer)
    case (Inl e)
    then show ?thesis using read_payload_error_keeps[OF r[unfolded Inl] n] r by auto
  next
    case (Inr payload)
    then have "(\<lambda>_. payload_answer answer) d = Some (Some (rp_crdt leaver))"
      using payload by (simp add: payload_answer_def)
    from departed_state_merged[where payloads = "\<lambda>_. payload_answer answer", OF self(1,2) n self(3)[unfolded n] this delta] show ?thesis
      unfolding handle_shutdown_client_eq[OF r n] by (auto simp: r Inr n)
  qed
qed


section \<open>The descriptors a round deletes\<close>

lemma advances_epoch:
  assumes "advances self self'"
  shows "dot_counter (current_gc_marker (rp_wrapper self)) \<le> dot_counter (current_gc_marker (rp_wrapper self'))"
proof (cases "wr_gc_markers (rp_wrapper self) = []")
  case True
  then show ?thesis using assms current_gc_counter_nonneg[of "rp_wrapper self'"]
    by (simp add: advances_def replica_inv_def current_gc_marker_def INITIAL_GC_COUNTER_def)
next
  case False
  then have "last (wr_gc_markers (rp_wrapper self)) \<in> set (wr_gc_markers (rp_wrapper self'))"
    using assms by (auto simp: advances_def dest!: set_mono_prefix)
  then show ?thesis using assms False marker_counters_le_current[of "rp_wrapper self'"]
    by (auto simp: advances_def replica_inv_def current_gc_marker_def last_opt_def marker_counters_def)
qed

lemma complete_effects:
  assumes "complete_local_gc ops c io ans mk self = Done (self', completed, fx)"
  shows "DeleteDescriptor d \<notin> set fx" "DeleteDescriptorsFor p \<in> set fx \<Longrightarrow> p \<in> set (departed_list (gm_departed_pids mk))"
  using assms
  by (auto simp: complete_local_gc_def gc_departed_pids_def Let_def exec_simps split: option.splits if_splits)

text \<open>By itself, a round deletes its claim and the descriptor of the epoch it started from.\<close>

lemma init_gc_deletes:
  assumes "replica_inv self" "dot_counter (current_gc_marker (rp_wrapper self)) < i64_max"
    and "init_gc ops c io ans self = Done (self', fx)"
  shows "DeleteDescriptor d \<in> set fx \<Longrightarrow> dot_counter (current_gc_marker (rp_wrapper self)) \<le> rd_gc_counter d"
    and "DeleteDescriptorsFor (rp_pid self) \<notin> set fx"
proof -
  have inv: "wrapper_inv (rp_wrapper s1) \<and> current_gc_marker (rp_wrapper s1) = current_gc_marker (rp_wrapper self) \<and>
      rp_pid s1 = rp_pid self \<and> hm_get (final_dots (wr_version_matrix (rp_wrapper s1))) (rp_pid s1) = None"
    if "refresh_own_version_vector ops self = Done (s1, vv)" for s1 vv
  proof -
    obtain s1' vv' where "refresh_own_version_vector ops self = Done (s1', vv')" "advances self s1'"
      "wr_gc_markers (rp_wrapper s1') = wr_gc_markers (rp_wrapper self)"
      by (rule refresh_advances[OF assms(1)])
    then show ?thesis using that by (auto simp: advances_def replica_inv_def current_gc_marker_def)
  qed
  have "(DeleteDescriptor d \<in> set fx \<longrightarrow> dot_counter (current_gc_marker (rp_wrapper self)) \<le> rd_gc_counter d) \<and>
      DeleteDescriptorsFor (rp_pid self) \<notin> set fx"
    using assms(3)
  proof (cases rule: init_gc_cases)
    case (aborted s1 vv fx2)
    then show ?thesis using inv[OF aborted(1)] validate_gc_membership_exact(2)[OF aborted(3)] assms(2)
        next_gc_marker_counter[of "rp_wrapper s1"] by auto
  next
    case (collected s1 vv s2 st departed completed fx2 fx3)
    have "rp_pid self \<notin> set (departed_list departed)"
      using own_not_departed[OF collected(4)] inv[OF collected(1)] by metis
    then show ?thesis
      using inv[OF collected(1)] validate_gc_membership_exact(2)[OF collected(5)] complete_effects[OF collected(6)] collected(7)
      by (auto simp: own_descriptor_def)
  qed auto
  then show "DeleteDescriptor d \<in> set fx \<Longrightarrow> dot_counter (current_gc_marker (rp_wrapper self)) \<le> rd_gc_counter d"
    "DeleteDescriptorsFor (rp_pid self) \<notin> set fx"
    by blast+
qed


section \<open>The persistent state between replicas\<close>

lemma persistent_written:
  assumes "store_ok os content loc" "run_state (write_persistent_replica os ser x) client = (True, client')"
  obtains bs where "ser x = Some bs" "content (oc_store client') = (content (oc_store client))(oc_persistent_replica_path client \<mapsto> bs)"
proof -
  obtain bs where bs: "ser x = Some bs"
    using assms(2) by (auto simp: write_persistent_replica_def upload_data_def split: option.splits)
  obtain st reply where o: "os_put os (oc_persistent_replica_path client) bs (oc_store client) = (st, reply)"
    by (cases "os_put os (oc_persistent_replica_path client) bs (oc_store client)")
  have "reply = Replied (Inr ())" "oc_store client' = st"
    using assms(2) bs o
    by (auto simp: write_persistent_replica_def upload_data_def storage_simps split: prod.splits store_reply.splits sum.splits)
  then show thesis using that[OF bs] store_put[OF assms(1)] o by simp
qed

lemma persistent_read:
  assumes "store_ok os content loc" "content (oc_store client) (oc_persistent_replica_path client) = Some bs" "de bs = Some x"
    and "run_state (read_persistent_replica os de) client = (Inr found, client')"
  shows "found = Some x" "content (oc_store client') = content (oc_store client)" "same_client client client'"
proof -
  obtain r where r: "run_state (download_data os de (oc_persistent_replica_path client)) client = (r, client')"
    "missing_as_none r = Inr found"
    using assms(4) by (auto simp: read_persistent_replica_def split: prod.splits)
  note d = download_stored[where de = de, OF assms(1-3) r(1)]
  show "found = Some x"
    using d(1) r(2) by (cases r) (auto simp: missing_as_none_def split: object_storage_error.splits)
  show "content (oc_store client') = content (oc_store client)" "same_client client client'" by (rule d(2,3))+
qed


section \<open>Properties\<close>

text \<open>
  C9: a round that overlaps with another replica's does not collect. If another process has
  published a descriptor that is newer than what this replica has listed of it (it has claimed
  an epoch, or it has just joined), a round started on the old listing ends without touching the
  state, the journal or the markers: the listing behind the claim shows the descriptor. A replica
  thus never collects on a view of the membership that another's claim has overtaken.
\<close>

theorem overlapping_round_aborts:
  assumes "store_ok os content loc" "rp_members self = oc_membership_descriptors client"
    and "d \<in> published (content (oc_store client)) (oc_membership_directory_path client)" "rd_pid d \<noteq> rp_pid self"
    and "\<forall>d' \<in> set (oc_membership_descriptors client). rd_pid d' = rd_pid d \<longrightarrow> rd_gc_counter d' < rd_gc_counter d"
    and "init_gc_client ops c io os ser self client = Done (self', client')"
  shows "rp_crdt self' = rp_crdt self \<and> rp_journal self' = rp_journal self \<and>
    wr_gc_markers (rp_wrapper self') = wr_gc_markers (rp_wrapper self)"
  using assms(6)
proof (cases rule: init_gc_client_cases)
  case (idle s1 vv)
  then show ?thesis using refresh_frame[OF idle(1)] by simp
next
  case (round s1 vv st departed created client1 s2 valid client2)
  note keeps = refresh_frame[OF round(1)]
  have m: "rp_members s1 = oc_membership_descriptors client1"
    using write_descriptor_cache[OF round(4)] keeps assms(2) by simp
  obtain relisted where list: "\<And>ans. sa_list ans = fst (run_state (list_membership_descriptors os) client1) \<Longrightarrow>
      sa_relist ans = relisted \<Longrightarrow>
      validate_gc_membership ans (membership_gc_counters_by_pid (oc_membership_descriptors client)) (epoch_descriptor s1) s1 =
        (s2, valid, if valid then [] else [DeleteDescriptor (epoch_descriptor s1)])"
    using validate_on_client(1)[OF round(5) m] by blast
  note exact = list[of "example_answers\<lparr>sa_list := fst (run_state (list_membership_descriptors os) client1),
    sa_relist := relisted\<rparr>", simplified]
  have "\<not> valid" if c: "create_answer created = Some True"
  proof
    assume valid
    then obtain now where now: "fst (run_state (list_membership_descriptors os) client1) = Some now"
      "membership_quiet (rp_pid s1) (oc_membership_descriptors client) now"
      using validate_gc_membership_exact(1)[OF exact] by auto
    have "created = Inr True" using c by (cases created) auto
    note put = put_create_content[OF assms(1) round(4)[unfolded write_descriptor_run this]]
    have "d \<in> published (content (oc_store client1)) (oc_membership_directory_path client1)"
      using assms(3) put(1,3) by (auto simp: published_def same_client_def)
    moreover obtain client3 where "run_state (fetch_membership_descriptors os) client1 = (Inr now, client3)"
      using now(1) by (auto simp: list_members_run split: prod.splits sum.splits)
    ultimately have "d \<in> set now" using fetch_published(1)[OF assms(1)] by blast
    then show False using now(2) assms(4,5) keeps by (force simp: membership_quiet_def)
  qed
  then show ?thesis
    using assms(6) keeps validate_frame[OF exact] unfolding init_gc_client_due[OF round] by (auto split: if_splits)
qed


abbreviation example_claim :: replica_descriptor where
  "example_claim \<equiv> \<lparr>rd_pid = 8, rd_address = example_addr, rd_gc_counter = 1, rd_final_counter = None\<rparr>"

definition example_late_client :: "mem_store storage_client" where
  "example_late_client = example_client\<lparr>oc_store := [(object_path example_claim ''run1/members/'', [])]\<rparr>"

lemma example_late_round:
  "case init_gc_client counter_ops total_codec io_ok mem_object_store nat_ser example_replica example_late_client of
     Panicked _ \<Rightarrow> False
   | Done (self', client') \<Rightarrow> oc_membership_descriptors client' = [example_claim] \<and>
       oc_store client' = oc_store example_late_client"
  by code_simp

theorem overlapping_round_aborts_witness:
  "store_ok mem_object_store map_of (\<lambda>q. q) \<and> rp_members example_replica = oc_membership_descriptors example_late_client \<and>
   example_claim \<in> published (map_of (oc_store example_late_client)) (oc_membership_directory_path example_late_client) \<and>
   rd_pid example_claim \<noteq> rp_pid example_replica \<and>
   (\<exists>self' client'. init_gc_client counter_ops total_codec io_ok mem_object_store nat_ser example_replica
        example_late_client = Done (self', client') \<and>
      rp_crdt self' = 5 \<and> wr_gc_markers (rp_wrapper self') = [] \<and> oc_store client' = oc_store example_late_client)"
proof -
  have ok: "descriptor_ok example_claim" by code_simp
  have m: "rp_members example_replica = oc_membership_descriptors example_late_client"
    by (simp add: example_late_client_def example_replica_def client_new_def)
  have pub: "example_claim \<in> published (map_of (oc_store example_late_client)) (oc_membership_directory_path example_late_client)"
    by (rule published_insert[OF ok]) (simp add: example_late_client_def client_new_def)
  have other: "rd_pid example_claim \<noteq> rp_pid example_replica" by code_simp
  have old: "\<forall>d' \<in> set (oc_membership_descriptors example_late_client).
      rd_pid d' = rd_pid example_claim \<longrightarrow> rd_gc_counter d' < rd_gc_counter example_claim"
    by (simp add: example_late_client_def client_new_def)
  obtain self' client' where r: "init_gc_client counter_ops total_codec io_ok mem_object_store nat_ser example_replica
      example_late_client = Done (self', client')" "oc_store client' = oc_store example_late_client"
    using example_late_round by (auto split: exec.splits)
  show ?thesis using mem_store_ok m pub other r overlapping_round_aborts[OF mem_store_ok m pub other old r(1)]
    by (auto simp: example_replica_def wrapper_new_def)
qed




definition example_persistent :: "nat persistent_replica" where
  "example_persistent = \<lparr>pr_local_state = 5, pr_crdt_wrapper = wrapper_new 8\<rparr>"

definition persistent_ser :: "nat persistent_replica \<Rightarrow> obj_bytes option" where
  "persistent_ser x = (if x = example_persistent then Some [1] else None)"

definition persistent_de :: "obj_bytes \<Rightarrow> nat persistent_replica option" where
  "persistent_de bs = (if bs = [1] then Some example_persistent else None)"

definition example_stored :: "mem_store storage_client" where
  "example_stored = example_client\<lparr>oc_store := [(''run1/state.json'', [1])]\<rparr>"

lemma example_newcomer:
  "case bootstrap_client counter_ops total_codec io_ok mem_object_store persistent_ser persistent_de example_replica
     example_stored of Panicked _ \<Rightarrow> False | Done _ \<Rightarrow> True"
  by code_simp



text \<open>
  C35: descriptors are left behind. A replica has published the descriptor of its epoch and then
  learns of a later epoch from a peer. No collection round it carries out from then on, whatever
  happens in between, deletes the published descriptor: a round deletes the descriptor of the epoch
  it starts from, which in this case was never published. The directory therefore keeps one stale
  descriptor for every epoch a replica claimed before it observed one, until the replica departs.
\<close>

theorem observed_epoch_leaves_descriptor:
  assumes "codec_total c" "replica_inv self" "rp_pid self \<notin> set (departed_list (gm_departed_pids mk))"
    and "dot_pid (gm_marker mk) = STABLE_REPLICA_PID"
    and "dot_counter (current_gc_marker (rp_wrapper self)) < dot_counter (gm_marker mk)"
  shows "\<exists>self1. observe_gc ops c io_ok mk self = Done self1 \<and>
    (\<forall>self2 ans self3 fx. advances self1 self2 \<longrightarrow> dot_counter (current_gc_marker (rp_wrapper self2)) < i64_max \<longrightarrow>
       init_gc ops c io_ok ans self2 = Done (self3, fx) \<longrightarrow>
       DeleteDescriptor (own_descriptor self) \<notin> set fx \<and> DeleteDescriptorsFor (rp_pid self) \<notin> set fx)"
proof -
  obtain self1 where self1: "replica_apply_gc_marker ops c io_ok mk self = Done self1" "advances self self1"
    "wr_gc_markers (rp_wrapper self1) = wr_gc_markers (rp_wrapper self) @ [mk]"
    by (rule marker_advances[OF assms(1-3,5)])
  have obs: "observe_gc ops c io_ok mk self = Done self1" using self1(1) assms(4,5) by (simp add: observe_gc_def)
  have later: "dot_counter (current_gc_marker (rp_wrapper self)) < dot_counter (current_gc_marker (rp_wrapper self1))"
    using self1(3) assms(5) by (simp add: current_gc_marker_def last_opt_def)
  show ?thesis
  proof (intro exI conjI allI impI, rule obs)
    fix self2 ans self3 fx
    assume a: "advances self1 self2" "dot_counter (current_gc_marker (rp_wrapper self2)) < i64_max"
      "init_gc ops c io_ok ans self2 = Done (self3, fx)"
    have pid: "rp_pid self2 = rp_pid self" using a(1) self1(2) by (simp add: advances_def)
    note deletes = init_gc_deletes[OF advances_inv[OF a(1)] a(2,3)]
    show "DeleteDescriptorsFor (rp_pid self) \<notin> set fx" using deletes(2) pid by simp
    show "DeleteDescriptor (own_descriptor self) \<notin> set fx"
      using deletes(1)[of "own_descriptor self"] later advances_epoch[OF a(1)] by (auto simp: own_descriptor_def)
  qed
qed


theorem observed_epoch_leaves_descriptor_witness:
  "codec_total total_codec \<and> replica_inv example_replica \<and>
   rp_pid example_replica \<notin> set (departed_list (gm_departed_pids example_marker)) \<and>
   (\<exists>self1 self3 fx. observe_gc counter_ops total_codec io_ok example_marker example_replica = Done self1 \<and>
      init_gc counter_ops total_codec io_ok example_answers self1 = Done (self3, fx) \<and>
      DeleteDescriptor (own_descriptor example_replica) \<notin> set fx)"
proof -
  have h: "rp_pid example_replica \<notin> set (departed_list (gm_departed_pids example_marker))"
    "dot_pid (gm_marker example_marker) = STABLE_REPLICA_PID"
    "dot_counter (current_gc_marker (rp_wrapper example_replica)) < dot_counter (gm_marker example_marker)"
    by code_simp+
  obtain self1 where o: "observe_gc counter_ops total_codec io_ok example_marker example_replica = Done self1"
    "advances example_replica self1"
    by (rule observe_gc_advances[OF counter_total(2) example_replica_inv(1) h(1)])
  have "case observe_gc counter_ops total_codec io_ok example_marker example_replica of
      Done s \<Rightarrow> dot_counter (current_gc_marker (rp_wrapper s)) < i64_max | Panicked _ \<Rightarrow> False" by code_simp
  then have epoch: "dot_counter (current_gc_marker (rp_wrapper self1)) < i64_max" using o(1) by simp
  obtain self3 fx where "init_gc counter_ops total_codec io_ok example_answers self1 = Done (self3, fx)"
    by (rule init_gc_advances[OF counter_total(2) advances_inv[OF o(2)] epoch])
  then show ?thesis
    using observed_epoch_leaves_descriptor[OF counter_total(2) example_replica_inv(1) h, of counter_ops] o epoch
      counter_total(2) example_replica_inv(1) h(1) advances_refl[OF advances_inv[OF o(2)]]
    by (metis exec.inject(1))
qed

end
