(* ===== verification/Table_Files.thy ===== *)
theory Table_Files
  imports Composite_View Ztable
begin

text \<open>
  Tables in files (\<^verbatim>\<open>to_file\<close>, \<^verbatim>\<open>from_file\<close> and \<^verbatim>\<open>export_sorted_view\<close> of
  \<^verbatim>\<open>src/src/db/composite_view.rs\<close> and \<^verbatim>\<open>src/src/db/ztable.rs\<close>). The JSON library is a parameter: the pieces
  it writes one after the other, and what it reads back. The file system holds the bytes of each
  file; a disk takes only so many bytes of a file. The buffered writer is the standard library's:
  it passes its buffer on when a piece does not fit, and once more when it is dropped, where an
  error has nobody to go to.
\<close>

section \<open>Files\<close>

type_synonym file_bytes = "8 word list"
type_synonym file_system = "string \<Rightarrow> file_bytes option"

datatype table_error = OpenError | WriteError | SerializeError | DeserializeError

text \<open>Whether the file can be created or opened, and how many bytes of it the disk takes.\<close>

record file_env =
  fe_open :: bool
  fe_room :: nat

text \<open>\<open>write_all\<close> to a file: the bytes that fit are written, and the rest is an error.\<close>

definition file_write_all :: "nat \<Rightarrow> file_bytes \<Rightarrow> file_bytes \<Rightarrow> file_bytes \<times> bool" where
  "file_write_all room content bytes =
     (content @ take (room - length content) bytes, length content + length bytes \<le> room)"


section \<open>The buffered writer\<close>

record buf_writer =
  bw_file :: file_bytes
  bw_buffer :: file_bytes

definition flush_buf :: "nat \<Rightarrow> buf_writer \<Rightarrow> buf_writer \<times> bool" where
  "flush_buf room w =
     (case file_write_all room (bw_file w) (bw_buffer w) of
        (file, ok) \<Rightarrow> (\<lparr>bw_file = file, bw_buffer = drop (length file - length (bw_file w)) (bw_buffer w)\<rparr>, ok))"

definition buf_write_all :: "nat \<Rightarrow> nat \<Rightarrow> file_bytes \<Rightarrow> buf_writer \<Rightarrow> buf_writer \<times> bool" where
  "buf_write_all capacity room bytes w =
     (let spare = capacity - length (bw_buffer w)
      in if length bytes < spare then (w\<lparr>bw_buffer := bw_buffer w @ bytes\<rparr>, True)
         else
           (case (if spare < length bytes then flush_buf room w else (w, True)) of
              (w1, False) \<Rightarrow> (w1, False)
            | (w1, True) \<Rightarrow>
                if capacity \<le> length bytes then
                  (case file_write_all room (bw_file w1) bytes of (file, ok) \<Rightarrow> (w1\<lparr>bw_file := file\<rparr>, ok))
                else (w1\<lparr>bw_buffer := bw_buffer w1 @ bytes\<rparr>, True)))"

text \<open>The pieces one after the other, up to the first that cannot be written.\<close>

fun write_pieces :: "nat \<Rightarrow> nat \<Rightarrow> file_bytes list \<Rightarrow> buf_writer \<Rightarrow> buf_writer \<times> bool" where
  "write_pieces capacity room [] w = (w, True)"
| "write_pieces capacity room (piece # pieces) w =
     (case buf_write_all capacity room piece w of
        (w1, True) \<Rightarrow> write_pieces capacity room pieces w1
      | (w1, False) \<Rightarrow> (w1, False))"

text \<open>
  \<open>to_file\<close>: the serializer may give up after some pieces; the writer is dropped on every way out.
\<close>

definition json_to_file ::
  "nat \<Rightarrow> file_env \<Rightarrow> file_bytes list \<times> bool \<Rightarrow> string \<Rightarrow> file_system \<Rightarrow> file_system \<times> (table_error + unit)" where
  "json_to_file capacity env serialized path fs =
     (if \<not> fe_open env then (fs, Inl OpenError)
      else
        (case write_pieces capacity (fe_room env) (fst serialized) \<lparr>bw_file = [], bw_buffer = []\<rparr> of
           (w, written) \<Rightarrow>
             (fs(path \<mapsto> bw_file (fst (flush_buf (fe_room env) w))),
              if \<not> written then Inl WriteError else if \<not> snd serialized then Inl SerializeError else Inr ())))"

definition json_from_file ::
  "bool \<Rightarrow> (file_bytes \<Rightarrow> 'j option) \<Rightarrow> string \<Rightarrow> file_system \<Rightarrow> table_error + 'j" where
  "json_from_file opens de path fs =
     (if \<not> opens then Inl OpenError
      else case fs path of
        None \<Rightarrow> Inl OpenError
      | Some bytes \<Rightarrow> (case de bytes of None \<Rightarrow> Inl DeserializeError | Some j \<Rightarrow> Inr j))"


section \<open>What is written\<close>

definition hs_collect :: "'a list \<Rightarrow> 'a hashset" where
  "hs_collect xs = fold (\<lambda>x s. hs_insert s x) xs hm_new"

definition bs_collect :: "'a::linorder list \<Rightarrow> 'a btree_set" where
  "bs_collect xs = fold (\<lambda>x s. bs_insert s x) xs bt_new"

text \<open>The fields of a composite view as the serializer gets them, maps and sets as sequences.\<close>

record ('k, 'v) cv_json =
  cj_key_to_value :: "(('k \<times> 'k) \<times> 'v) list"
  cj_key_s_index :: "('k \<times> 'k list) list"
  cj_key_u_index :: "('k \<times> 'k list) list"
  cj_value_index :: "('k \<times> ('v \<times> 'k) list) list"

definition cv_serialize :: "('k::linorder, 'v::linorder) composite_view \<Rightarrow> ('k, 'v) cv_json" where
  "cv_serialize self =
     \<lparr>cj_key_to_value = tuple_vec_serialize (cv_key_to_value self),
      cj_key_s_index = map (\<lambda>(k, s). (k, hs_iter s)) (hm_iter (cv_key_s_index self)),
      cj_key_u_index = map (\<lambda>(k, s). (k, hs_iter s)) (hm_iter (cv_key_u_index self)),
      cj_value_index = map (\<lambda>(k, s). (k, bs_iter s)) (hm_iter (cv_value_index self))\<rparr>"

definition cv_deserialize :: "('k::linorder, 'v::linorder) cv_json \<Rightarrow> ('k, 'v) composite_view" where
  "cv_deserialize j =
     \<lparr>cv_key_to_value = tuple_vec_deserialize (cj_key_to_value j),
      cv_key_s_index = hm_collect (map (\<lambda>(k, xs). (k, hs_collect xs)) (cj_key_s_index j)),
      cv_key_u_index = hm_collect (map (\<lambda>(k, xs). (k, hs_collect xs)) (cj_key_u_index j)),
      cv_value_index = hm_collect (map (\<lambda>(k, xs). (k, bs_collect xs)) (cj_value_index j))\<rparr>"

definition cv_to_file ::
  "nat \<Rightarrow> file_env \<Rightarrow> (('k::linorder, 'v::linorder) cv_json \<Rightarrow> file_bytes list \<times> bool) \<Rightarrow>
   ('k, 'v) composite_view \<Rightarrow> string \<Rightarrow> file_system \<Rightarrow> file_system \<times> (table_error + unit)" where
  "cv_to_file capacity env pretty self = json_to_file capacity env (pretty (cv_serialize self))"

definition cv_from_file ::
  "bool \<Rightarrow> (file_bytes \<Rightarrow> ('k::linorder, 'v::linorder) cv_json option) \<Rightarrow> string \<Rightarrow> file_system \<Rightarrow>
   table_error + ('k, 'v) composite_view" where
  "cv_from_file opens de path fs =
     (case json_from_file opens de path fs of Inl e \<Rightarrow> Inl e | Inr j \<Rightarrow> Inr (cv_deserialize j))"

text \<open>\<open>export_sorted_view\<close> writes its rows to the file without a buffer.\<close>

fun write_unbuffered :: "nat \<Rightarrow> file_bytes list \<Rightarrow> file_bytes \<Rightarrow> file_bytes \<times> bool" where
  "write_unbuffered room [] file = (file, True)"
| "write_unbuffered room (piece # pieces) file =
     (case file_write_all room file piece of
        (file1, True) \<Rightarrow> write_unbuffered room pieces file1
      | (file1, False) \<Rightarrow> (file1, False))"

definition export_sorted_view ::
  "file_env \<Rightarrow> (('k \<times> 'k \<times> 'v) list \<Rightarrow> file_bytes list \<times> bool) \<Rightarrow> ('k::linorder, 'v::linorder) composite_view \<Rightarrow>
   string \<Rightarrow> file_system \<Rightarrow> file_system \<times> (table_error + unit)" where
  "export_sorted_view env pretty self path fs =
     (let entries = cv_sorted_entries self
      in if \<not> fe_open env then (fs, Inl OpenError)
         else
           (case pretty entries of (pieces, complete) \<Rightarrow>
             (case write_unbuffered (fe_room env) pieces [] of (file, written) \<Rightarrow>
               (fs(path \<mapsto> file),
                if \<not> written then Inl WriteError else if \<not> complete then Inl SerializeError else Inr ()))))"

definition zt_serialize :: "('k, 'v) ztable \<Rightarrow> ('k \<times> weight \<times> 'v) list list" where
  "zt_serialize self = map hm_iter (shards self)"

definition zt_deserialize :: "('k \<times> weight \<times> 'v) list list \<Rightarrow> ('k, 'v) ztable" where
  "zt_deserialize j = \<lparr>shards = map hm_collect j\<rparr>"

definition zt_to_file ::
  "nat \<Rightarrow> file_env \<Rightarrow> (('k \<times> weight \<times> 'v) list list \<Rightarrow> file_bytes list \<times> bool) \<Rightarrow> ('k, 'v) ztable \<Rightarrow> string \<Rightarrow>
   file_system \<Rightarrow> file_system \<times> (table_error + unit)" where
  "zt_to_file capacity env pretty self = json_to_file capacity env (pretty (zt_serialize self))"

definition zt_from_file ::
  "bool \<Rightarrow> (file_bytes \<Rightarrow> ('k \<times> weight \<times> 'v) list list option) \<Rightarrow> string \<Rightarrow> file_system \<Rightarrow>
   table_error + ('k, 'v) ztable" where
  "zt_from_file opens de path fs =
     (case json_from_file opens de path fs of Inl e \<Rightarrow> Inl e | Inr j \<Rightarrow> Inr (zt_deserialize j))"


section \<open>The writer\<close>

lemma flush_buf_fits:
  assumes "length (bw_file w) + length (bw_buffer w) \<le> room"
  shows "flush_buf room w = (\<lparr>bw_file = bw_file w @ bw_buffer w, bw_buffer = []\<rparr>, True)"
  using assms by (simp add: flush_buf_def file_write_all_def)

text \<open>With room on the disk nothing is lost: the file and the buffer together are what was written.\<close>

lemma buf_write_all_fits:
  assumes "length (bw_file w) + length (bw_buffer w) + length bytes \<le> room"
  shows "\<exists>w'. buf_write_all capacity room bytes w = (w', True) \<and>
    bw_file w' @ bw_buffer w' = bw_file w @ bw_buffer w @ bytes"
proof -
  have flush: "flush_buf room w = (\<lparr>bw_file = bw_file w @ bw_buffer w, bw_buffer = []\<rparr>, True)"
    using assms by (intro flush_buf_fits) simp
  show ?thesis
  proof (cases "capacity - length (bw_buffer w) < length bytes")
    case True
    then show ?thesis using assms
      by (cases "capacity \<le> length bytes") (simp_all add: buf_write_all_def Let_def flush file_write_all_def)
  next
    case False
    have "bw_buffer w = []" if "capacity \<le> length bytes" "bytes \<noteq> []"
      using False that by (cases "bw_buffer w"; cases bytes) auto
    then show ?thesis using False assms
      by (cases "capacity \<le> length bytes"; cases "bytes = []") (auto simp: buf_write_all_def Let_def file_write_all_def)
  qed
qed

lemma write_pieces_fit:
  assumes "length (bw_file w) + length (bw_buffer w) + length (concat pieces) \<le> room"
  shows "\<exists>w'. write_pieces capacity room pieces w = (w', True) \<and>
    bw_file w' @ bw_buffer w' = bw_file w @ bw_buffer w @ concat pieces"
  using assms
proof (induction pieces arbitrary: w)
  case (Cons piece pieces)
  obtain w1 where w1: "buf_write_all capacity room piece w = (w1, True)"
    "bw_file w1 @ bw_buffer w1 = bw_file w @ bw_buffer w @ piece"
    using buf_write_all_fits[of w piece room capacity] Cons.prems by auto
  have "length (bw_file w1) + length (bw_buffer w1) = length (bw_file w) + length (bw_buffer w) + length piece"
    using arg_cong[OF w1(2), of length] by simp
  then show ?case using Cons.IH[of w1] Cons.prems w1 by auto
qed simp

lemma json_to_file_fits:
  assumes "fe_open env" "length (concat pieces) \<le> fe_room env"
  shows "json_to_file capacity env (pieces, True) path fs = (fs(path \<mapsto> concat pieces), Inr ())"
proof -
  obtain w where w: "write_pieces capacity (fe_room env) pieces \<lparr>bw_file = [], bw_buffer = []\<rparr> = (w, True)"
    "bw_file w @ bw_buffer w = concat pieces"
    using write_pieces_fit[of "\<lparr>bw_file = [], bw_buffer = []\<rparr>" pieces "fe_room env" capacity] assms(2) by auto
  have "length (bw_file w) + length (bw_buffer w) \<le> fe_room env"
    using arg_cong[OF w(2), of length] assms(2) by simp
  then show ?thesis using w assms(1) by (simp add: json_to_file_def flush_buf_fits)
qed

text \<open>What is smaller than the buffer only reaches the disk when the writer is dropped.\<close>

lemma write_pieces_buffered:
  assumes "length (bw_buffer w) + length (concat pieces) < capacity"
  shows "write_pieces capacity room pieces w = (w\<lparr>bw_buffer := bw_buffer w @ concat pieces\<rparr>, True)"
  using assms
proof (induction pieces arbitrary: w)
  case (Cons piece pieces)
  have "length piece < capacity - length (bw_buffer w)" using Cons.prems by (simp add: less_diff_conv)
  then have "buf_write_all capacity room piece w = (w\<lparr>bw_buffer := bw_buffer w @ piece\<rparr>, True)"
    by (simp add: buf_write_all_def Let_def)
  then show ?case using Cons.IH[of "w\<lparr>bw_buffer := bw_buffer w @ piece\<rparr>"] Cons.prems by simp
qed simp

text \<open>Without a buffer success means that everything was written.\<close>

lemma write_unbuffered_all:
  assumes "length content \<le> room"
  shows "snd (write_unbuffered room pieces content) \<longleftrightarrow> length (content @ concat pieces) \<le> room"
    and "snd (write_unbuffered room pieces content) \<Longrightarrow> fst (write_unbuffered room pieces content) = content @ concat pieces"
proof -
  have "(snd (write_unbuffered room pieces content) \<longleftrightarrow> length (content @ concat pieces) \<le> room) \<and>
    (snd (write_unbuffered room pieces content) \<longrightarrow> fst (write_unbuffered room pieces content) = content @ concat pieces)"
    using assms
  proof (induction pieces arbitrary: content)
    case (Cons piece pieces)
    then show ?case using Cons.IH[of "content @ piece"]
      by (cases "length content + length piece \<le> room") (auto simp: file_write_all_def)
  qed simp
  then show "snd (write_unbuffered room pieces content) \<longleftrightarrow> length (content @ concat pieces) \<le> room"
    "snd (write_unbuffered room pieces content) \<Longrightarrow> fst (write_unbuffered room pieces content) = content @ concat pieces"
    by auto
qed


section \<open>Reading back\<close>

lemma hs_contains_collect [simp]: "hs_contains (hs_collect xs) x \<longleftrightarrow> x \<in> set xs"
proof -
  have "hs_contains (fold (\<lambda>x s. hs_insert s x) xs s) x \<longleftrightarrow> x \<in> set xs \<or> hs_contains s x" for s
    by (induction xs arbitrary: s) auto
  then show ?thesis by (simp add: hs_collect_def)
qed

lemma bs_contains_collect [simp]: "bs_contains (bs_collect xs) x \<longleftrightarrow> x \<in> set xs"
proof -
  have "bs_contains (fold (\<lambda>x s. bs_insert s x) xs s) x \<longleftrightarrow> x \<in> set xs \<or> bs_contains s x" for s
    by (induction xs arbitrary: s) auto
  then show ?thesis by (simp add: bs_collect_def)
qed

lemma map_of_map_snd: "map_of (map (\<lambda>(k, v). (k, f v)) kvs) k = map_option f (map_of kvs k)"
  by (induction kvs) auto

lemma hm_get_recollect:
  "hm_get (hm_collect (map (\<lambda>(k, y). (k, g y)) (map (\<lambda>(k, v). (k, f v)) (hm_iter m)))) k = map_option (g \<circ> f) (hm_get m k)"
proof -
  have "map (\<lambda>(k, y). (k, g y)) (map (\<lambda>(k, v). (k, f v)) (hm_iter m)) = map (\<lambda>(k, v). (k, (g \<circ> f) v)) (hm_iter m)"
    by (simp add: split_beta)
  moreover have "distinct (map fst (map (\<lambda>(k, v). (k, (g \<circ> f) v)) (hm_iter m)))"
    using distinct_hm_iter[of m] by (simp add: comp_def split_beta)
  ultimately show ?thesis by (simp only: hm_get_collect map_of_map_snd hm_get_iter[symmetric])
qed

text \<open>An index whose sets were written out and collected again is exact for the same relation.\<close>

lemma hh_mirrors_recollect:
  assumes "hh.mirrors m R"
  shows "hh.mirrors (hm_collect (map (\<lambda>(k, xs). (k, hs_collect xs)) (map (\<lambda>(k, s). (k, hs_iter s)) (hm_iter m)))) R"
proof (rule hh.mirrorsI)
  fix a
  assume "hm_get (hm_collect (map (\<lambda>(k, xs). (k, hs_collect xs)) (map (\<lambda>(k, s). (k, hs_iter s)) (hm_iter m)))) a = None"
  then show "\<forall>b. \<not> R a b" using hh.mirrorsD(1)[OF assms, of a] unfolding hm_get_recollect by simp
next
  fix a s
  assume "hm_get (hm_collect (map (\<lambda>(k, xs). (k, hs_collect xs)) (map (\<lambda>(k, s). (k, hs_iter s)) (hm_iter m)))) a = Some s"
  then obtain s0 where "hm_get m a = Some s0" "s = hs_collect (hs_iter s0)"
    unfolding hm_get_recollect by auto
  then show "(\<exists>b. R a b) \<and> (\<forall>b. hs_contains s b \<longleftrightarrow> R a b)"
    using hh.mirrorsD(1)[OF assms, of a] hh.mirrorsD(2)[OF assms, of a s0] by simp
qed

lemma hb_mirrors_recollect:
  assumes "hb.mirrors m R"
  shows "hb.mirrors (hm_collect (map (\<lambda>(k, xs). (k, bs_collect xs)) (map (\<lambda>(k, s). (k, bs_iter s)) (hm_iter m)))) R"
proof (rule hb.mirrorsI)
  fix a
  assume "hm_get (hm_collect (map (\<lambda>(k, xs). (k, bs_collect xs)) (map (\<lambda>(k, s). (k, bs_iter s)) (hm_iter m)))) a = None"
  then show "\<forall>b. \<not> R a b" using hb.mirrorsD(1)[OF assms, of a] unfolding hm_get_recollect by simp
next
  fix a s
  assume "hm_get (hm_collect (map (\<lambda>(k, xs). (k, bs_collect xs)) (map (\<lambda>(k, s). (k, bs_iter s)) (hm_iter m)))) a = Some s"
  then obtain s0 where "hm_get m a = Some s0" "s = bs_collect (bs_iter s0)"
    unfolding hm_get_recollect by auto
  then show "(\<exists>b. R a b) \<and> (\<forall>b. bs_contains s b \<longleftrightarrow> R a b)"
    using hb.mirrorsD(1)[OF assms, of a] hb.mirrorsD(2)[OF assms, of a s0] by simp
qed

lemma cv_recollected:
  shows "cv_get_value (cv_deserialize (cv_serialize c)) s u = cv_get_value c s u"
    and "cv_inv c \<Longrightarrow> cv_inv (cv_deserialize (cv_serialize c))"
proof -
  have get: "cv_get_value (cv_deserialize (cv_serialize c)) s u = cv_get_value c s u" for s u
    using tuple_vec_round_trip[of "cv_key_to_value c"]
    by (simp add: cv_get_value_def cv_deserialize_def cv_serialize_def hm_eq_iff)
  then show "cv_get_value (cv_deserialize (cv_serialize c)) s u = cv_get_value c s u" .
  show "cv_inv (cv_deserialize (cv_serialize c))" if "cv_inv c"
    using that unfolding cv_inv_def get
    by (simp add: cv_deserialize_def cv_serialize_def hh_mirrors_recollect hb_mirrors_recollect del: map_map)
qed

text \<open>A table that was collected again has the rows it had, in the same shards.\<close>

lemma zt_recollected:
  "ztable_row hash (zt_deserialize (zt_serialize t)) k = ztable_row hash t k"
  "ztable_wf hash t \<Longrightarrow> ztable_wf hash (zt_deserialize (zt_serialize t))"
  "shard_count (zt_deserialize (zt_serialize t)) = shard_count t"
proof -
  let ?t = "zt_deserialize (zt_serialize t)"
  have len: "length (shards ?t) = length (shards t)" by (simp add: zt_deserialize_def zt_serialize_def)
  have idx: "shard_index hash ?t k = shard_index hash t k" for k by (simp add: shard_index_def len)
  have get: "hm_get (shards ?t ! i) k = hm_get (shards t ! i) k" if "i < length (shards t)" for i k
    using that by (simp add: zt_deserialize_def zt_serialize_def hm_get_iter[symmetric])
  show "ztable_row hash ?t k = ztable_row hash t k"
  proof (cases "shards t")
    case Nil
    then show ?thesis by (simp add: zt_deserialize_def zt_serialize_def ztable_row_def shard_def shard_index_def)
  next
    case (Cons m ms)
    then have "shard_index hash t k < length (shards t)" by (intro shard_index_bound) simp
    then show ?thesis by (simp add: ztable_row_def shard_def idx get)
  qed
  show "ztable_wf hash ?t" if "ztable_wf hash t"
    using that len by (auto simp: ztable_wf_def idx get)
  show "shard_count ?t = shard_count t" by (simp add: shard_count_def len)
qed


section \<open>Properties\<close>

text \<open>
  C29: tables survive a round trip through a file. When the disk has room for it, \<open>to_file\<close> reports
  success, whatever the capacity of the writer's buffer and the pieces the serializer writes, other
  files are left alone, and \<open>from_file\<close> returns a table with the same rows: a composite view with
  exact indexes, a weighted table with every row in its shard.
\<close>

theorem table_file_round_trip:
  assumes "fe_open env" "cv_inv c" "ztable_wf hash t"
    and "pretty_c (cv_serialize c) = (pieces_c, True)" "length (concat pieces_c) \<le> fe_room env"
    and "de_c (concat pieces_c) = Some (cv_serialize c)"
    and "pretty_t (zt_serialize t) = (pieces_t, True)" "length (concat pieces_t) \<le> fe_room env"
    and "de_t (concat pieces_t) = Some (zt_serialize t)"
  shows "(\<exists>fs' c'. cv_to_file capacity env pretty_c c path fs = (fs', Inr ()) \<and> cv_from_file True de_c path fs' = Inr c' \<and>
      cv_inv c' \<and> (\<forall>s u. cv_get_value c' s u = cv_get_value c s u) \<and> (\<forall>q. q \<noteq> path \<longrightarrow> fs' q = fs q)) \<and>
    (\<exists>fs' t'. zt_to_file capacity env pretty_t t path fs = (fs', Inr ()) \<and> zt_from_file True de_t path fs' = Inr t' \<and>
      ztable_wf hash t' \<and> (\<forall>k. ztable_row hash t' k = ztable_row hash t k) \<and> shard_count t' = shard_count t \<and>
      (\<forall>q. q \<noteq> path \<longrightarrow> fs' q = fs q))"
  using json_to_file_fits[OF assms(1,5), of capacity path fs] json_to_file_fits[OF assms(1,8), of capacity path fs]
    assms
  by (simp add: cv_recollected zt_recollected cv_to_file_def cv_from_file_def zt_to_file_def zt_from_file_def json_from_file_def)

abbreviation one_piece :: "'j \<Rightarrow> file_bytes list \<times> bool" where
  "one_piece \<equiv> \<lambda>_. ([[123], [125]], True)"

theorem table_file_round_trip_witness:
  "cv_inv example_composite \<and> ztable_wf of_nat example_table \<and>
   (\<exists>fs' c'. cv_to_file 8192 \<lparr>fe_open = True, fe_room = 100\<rparr> one_piece example_composite ''v'' (\<lambda>_. None) = (fs', Inr ()) \<and>
      cv_from_file True (\<lambda>_. Some (cv_serialize example_composite)) ''v'' fs' = Inr c' \<and> cv_inv c') \<and>
   (\<exists>fs' t'. zt_to_file 8192 \<lparr>fe_open = True, fe_room = 100\<rparr> one_piece example_table ''v'' (\<lambda>_. None) = (fs', Inr ()) \<and>
      zt_from_file True (\<lambda>_. Some (zt_serialize example_table)) ''v'' fs' = Inr t' \<and>
      (\<forall>k. ztable_row of_nat t' k = ztable_row of_nat example_table k))"
proof -
  have "fe_open \<lparr>fe_open = True, fe_room = 100\<rparr>" "length (concat [[123], [125 :: 8 word]]) \<le> fe_room \<lparr>fe_open = True, fe_room = 100\<rparr>"
    by simp_all
  note h = this
  note r = table_file_round_trip[where pretty_c = one_piece and pretty_t = one_piece and de_c = "\<lambda>_. Some (cv_serialize example_composite)"
      and de_t = "\<lambda>_. Some (zt_serialize example_table)" and capacity = 8192 and path = "''v''" and fs = "\<lambda>_. None",
      OF h(1) example_composite_inv example_table_wf refl h(2) refl refl h(2) refl]
  from r[THEN conjunct1] obtain fs1 c' where 1:
    "cv_to_file 8192 \<lparr>fe_open = True, fe_room = 100\<rparr> one_piece example_composite ''v'' (\<lambda>_. None) = (fs1, Inr ())"
    "cv_from_file True (\<lambda>_. Some (cv_serialize example_composite)) ''v'' fs1 = Inr c'" "cv_inv c'"
    by (elim exE conjE)
  from r[THEN conjunct2] obtain fs2 t' where 2:
    "zt_to_file 8192 \<lparr>fe_open = True, fe_room = 100\<rparr> one_piece example_table ''v'' (\<lambda>_. None) = (fs2, Inr ())"
    "zt_from_file True (\<lambda>_. Some (zt_serialize example_table)) ''v'' fs2 = Inr t'"
    "\<forall>k. ztable_row of_nat t' k = ztable_row of_nat example_table k"
    by (elim exE conjE)
  show ?thesis by (intro conjI exI) (rule example_composite_inv example_table_wf 1 2)+
qed

text \<open>
  C40: a table can be lost while \<open>to_file\<close> reports success. As long as the text fits the buffer of
  the writer, it is written when the writer is dropped, and the error of that write is discarded:
  the result is success although the file ends where the disk was full. The export of the
  sorted rows, which has no buffer, reports success exactly when all of its text was written.
\<close>

theorem to_file_hides_write_errors:
  assumes "fe_open env" "pretty (cv_serialize c) = (pieces, True)" "length (concat pieces) < capacity"
  shows "cv_to_file capacity env pretty c path fs = (fs(path \<mapsto> take (fe_room env) (concat pieces)), Inr ()) \<and>
    (\<forall>rows. pretty_rows (cv_sorted_entries c) = (rows, True) \<longrightarrow>
      (snd (export_sorted_view env pretty_rows c path fs) = Inr () \<longleftrightarrow> length (concat rows) \<le> fe_room env) \<and>
      (length (concat rows) \<le> fe_room env \<longrightarrow>
        fst (export_sorted_view env pretty_rows c path fs) path = Some (concat rows)))"
proof -
  let ?w = "\<lparr>bw_file = [], bw_buffer = concat pieces\<rparr>"
  have "write_pieces capacity (fe_room env) pieces \<lparr>bw_file = [], bw_buffer = []\<rparr> = (?w, True)"
    using write_pieces_buffered[of "\<lparr>bw_file = [], bw_buffer = []\<rparr>" pieces capacity] assms(3) by simp
  then have "cv_to_file capacity env pretty c path fs = (fs(path \<mapsto> take (fe_room env) (concat pieces)), Inr ())"
    using assms(1,2) by (simp add: cv_to_file_def json_to_file_def flush_buf_def file_write_all_def)
  moreover have "snd (export_sorted_view env pretty_rows c path fs) = Inr () \<longleftrightarrow> length (concat rows) \<le> fe_room env"
    "length (concat rows) \<le> fe_room env \<longrightarrow>
        fst (export_sorted_view env pretty_rows c path fs) path = Some (concat rows)"
    if "pretty_rows (cv_sorted_entries c) = (rows, True)" for rows
    using assms(1) that write_unbuffered_all[of "[]" "fe_room env" rows]
    by (auto simp: export_sorted_view_def split: prod.splits)
  ultimately show ?thesis by blast
qed

theorem to_file_hides_write_errors_witness:
  "cv_to_file 8192 \<lparr>fe_open = True, fe_room = 1\<rparr> one_piece example_composite ''v'' (\<lambda>_. None) =
     ((\<lambda>_. None)(''v'' \<mapsto> [123]), Inr ())"
  using to_file_hides_write_errors[of "\<lparr>fe_open = True, fe_room = 1\<rparr>" one_piece example_composite "[[123], [125]]" 8192
      "''v''" "\<lambda>_. None"]
  by simp

end
