(* ===== verification/Configuration.thy ===== *)
theory Configuration
  imports Descriptor "HOL-Library.Sublist"
begin

text \<open>
  The configuration of a replica (\<^verbatim>\<open>src/src/replica_helpers.rs\<close>, \<^verbatim>\<open>src/src/lib.rs\<close>): what
  is read from the environment, how it is checked, and the runtime configuration made of it. The
  environment is a map from names to values. Strings are taken as ASCII, addresses as IPv4;
  durations are in milliseconds where they are configured so.
\<close>

section \<open>Strings\<close>

type_synonym environment = "string \<Rightarrow> string option"

definition is_space :: "char \<Rightarrow> bool" where
  "is_space c \<longleftrightarrow> (of_char c :: nat) \<in> {9, 10, 11, 12, 13, 32}"

definition trim_start :: "string \<Rightarrow> string" where
  "trim_start s = dropWhile is_space s"

definition trim :: "string \<Rightarrow> string" where
  "trim s = rev (dropWhile is_space (rev (trim_start s)))"

definition to_ascii_lowercase :: "string \<Rightarrow> string" where
  "to_ascii_lowercase s =
     map (\<lambda>c. if 65 \<le> (of_char c :: nat) \<and> (of_char c :: nat) \<le> 90 then char_of ((of_char c :: nat) + 32) else c) s"

text \<open>\<open>from_str\<close> of an unsigned integer of some width: a leading plus sign is accepted.\<close>

definition parse_unsigned :: "int \<Rightarrow> string \<Rightarrow> int option" where
  "parse_unsigned bound s =
     (case parse_digits (case s of c # cs \<Rightarrow> if c = CHR ''+'' then cs else s | [] \<Rightarrow> s) of
        Some n \<Rightarrow> if n < bound then Some n else None
      | None \<Rightarrow> None)"

definition parse_u16 :: "string \<Rightarrow> 16 word option" where
  "parse_u16 s = map_option of_int (parse_unsigned 65536 s)"

definition parse_millis :: "string \<Rightarrow> nat option" where
  "parse_millis s = map_option nat (parse_unsigned 18446744073709551616 s)"

type_synonym ip_addr = "8 word \<times> 8 word \<times> 8 word \<times> 8 word"

definition parse_ip :: "string \<Rightarrow> ip_addr option" where
  "parse_ip s =
     (case split_on CHR ''.'' s of
        [o1, o2, o3, o4] \<Rightarrow>
          Option.bind (parse_octet o1) (\<lambda>b1. Option.bind (parse_octet o2) (\<lambda>b2.
          Option.bind (parse_octet o3) (\<lambda>b3. Option.bind (parse_octet o4) (\<lambda>b4. Some (b1, b2, b3, b4)))))
      | _ \<Rightarrow> None)"

text \<open>
  \<open>str::lines\<close>: a final line without a newline keeps its carriage return, and nothing after the
  last newline is no line.
\<close>

definition strip_cr :: "string \<Rightarrow> string" where
  "strip_cr l = (if suffix [CHR 0x0D] l then butlast l else l)"

definition str_lines :: "string \<Rightarrow> string list" where
  "str_lines s =
     (let ls = split_on CHR 0x0A s
      in map strip_cr (butlast ls) @ (if last ls = [] then [] else [last ls]))"

lemma str_lines_append:
  assumes "CHR 0x0A \<notin> set l"
  shows "str_lines (l @ CHR 0x0A # rest) = strip_cr l # str_lines rest"
  using assms by (simp add: str_lines_def Let_def split_on_append)

lemma str_lines_join:
  assumes "\<And>l. l \<in> set ls \<Longrightarrow> CHR 0x0A \<notin> set l \<and> strip_cr l = l"
  shows "str_lines (concat (map (\<lambda>l. l @ [CHR 0x0A]) ls)) = ls"
  using assms by (induction ls) (simp_all add: str_lines_append, simp add: str_lines_def)


section \<open>Reading variables\<close>

definition env_string :: "environment \<Rightarrow> string \<Rightarrow> string exec" where
  "env_string env name =
     (case env name of Some v \<Rightarrow> Done v | None \<Rightarrow> Panicked (PanicMessage (name @ '' environment variable is required'')))"

definition env_optional_string :: "environment \<Rightarrow> string \<Rightarrow> string option" where
  "env_optional_string env name =
     (case env name of Some v \<Rightarrow> if trim v \<noteq> [] then Some v else None | None \<Rightarrow> None)"

definition env_string_or_default :: "environment \<Rightarrow> string \<Rightarrow> string \<Rightarrow> string" where
  "env_string_or_default env name dflt = (case env name of Some v \<Rightarrow> v | None \<Rightarrow> dflt)"

definition env_path :: "environment \<Rightarrow> string \<Rightarrow> string exec" where
  "env_path env name =
     (case env name of Some v \<Rightarrow> Done v | None \<Rightarrow> Panicked (PanicMessage (name @ '' environment variable is required'')))"

definition env_optional_path :: "environment \<Rightarrow> string \<Rightarrow> string option" where
  "env_optional_path env name =
     (case env name of Some v \<Rightarrow> if trim v \<noteq> [] then Some (trim v) else None | None \<Rightarrow> None)"

definition env_bool :: "environment \<Rightarrow> string \<Rightarrow> bool option exec" where
  "env_bool env name =
     (case env name of
        None \<Rightarrow> Done None
      | Some v \<Rightarrow>
          (let w = to_ascii_lowercase (trim v)
           in if w \<in> {''1'', ''true'', ''yes'', ''on''} then Done (Some True)
              else if w \<in> {''0'', ''false'', ''no'', ''off''} then Done (Some False)
              else Panicked (PanicMessage (name @ '' must be a boolean value''))))"

text \<open>A duration in milliseconds with a default.\<close>

definition env_millis_or :: "environment \<Rightarrow> string \<Rightarrow> nat \<Rightarrow> nat exec" where
  "env_millis_or env name dflt =
     (case env name of
        None \<Rightarrow> Done dflt
      | Some v \<Rightarrow> expect (name @ '' must be an integer'') (parse_millis v))"


section \<open>Addresses\<close>

record server_addr =
  srv_ip :: ip_addr
  srv_http_port :: "16 word"
  srv_internal_port :: "16 word"

definition srv_http :: "server_addr \<Rightarrow> socket_addr" where
  "srv_http self = SocketAddrV4 (srv_ip self) (srv_http_port self)"

definition srv_internal :: "server_addr \<Rightarrow> socket_addr" where
  "srv_internal self = SocketAddrV4 (srv_ip self) (srv_internal_port self)"

definition with_ip :: "server_addr \<Rightarrow> ip_addr \<Rightarrow> server_addr" where
  "with_ip self ip = self\<lparr>srv_ip := ip\<rparr>"

definition server_addr_from_env :: "environment \<Rightarrow> server_addr exec" where
  "server_addr_from_env env =
     (case (env ''GRESSE_ADDR'', env ''GRESSE_HTTP_PORT'', env ''GRESSE_INTERNAL_PORT'') of
        (Some ip, Some http_port, Some internal_port) \<Rightarrow>
          exec_bind (expect ''Failed to parse IP'' (parse_ip ip)) (\<lambda>ip.
          exec_bind (expect ''Failed to parse port'' (parse_u16 http_port)) (\<lambda>http_port.
          exec_bind (expect ''Failed to parse port'' (parse_u16 internal_port)) (\<lambda>internal_port.
            Done \<lparr>srv_ip = ip, srv_http_port = http_port, srv_internal_port = internal_port\<rparr>)))
      | _ \<Rightarrow> Panicked (PanicMessage
          ''GRESSE_ADDR, GRESSE_HTTP_PORT, and GRESSE_INTERNAL_PORT environment variables are required''))"

definition from_args :: "environment \<Rightarrow> server_addr exec" where
  "from_args env = server_addr_from_env env"

text \<open>The additions are checked.\<close>

definition u16_add :: "16 word \<Rightarrow> 16 word \<Rightarrow> 16 word exec" where
  "u16_add a b =
     (if uint a + uint b < 65536 then Done (a + b) else Panicked (PanicMessage ''attempt to add with overflow''))"

definition increment_ports :: "server_addr \<Rightarrow> 16 word \<Rightarrow> server_addr exec" where
  "increment_ports self increment =
     exec_bind (u16_add (srv_http_port self) increment) (\<lambda>http_port.
     exec_bind (u16_add (srv_internal_port self) increment) (\<lambda>internal_port.
       Done \<lparr>srv_ip = srv_ip self, srv_http_port = http_port, srv_internal_port = internal_port\<rparr>))"

definition server_addr_default :: server_addr where
  "server_addr_default = \<lparr>srv_ip = (0, 0, 0, 0), srv_http_port = 9090, srv_internal_port = 8080\<rparr>"


section \<open>Configurations\<close>

record object_storage_config =
  osc_local_dir :: "string option"
  osc_url :: "string option"
  osc_region :: string
  osc_bucket :: string
  osc_access_key :: "string option"
  osc_secret_key :: "string option"
  osc_session_token :: "string option"
  osc_persistent_replica_path :: string
  osc_membership_directory_path :: string
  osc_discovery_interval :: nat

definition object_storage_config_from_env :: "environment \<Rightarrow> object_storage_config exec" where
  "object_storage_config_from_env env =
     exec_bind (env_string env ''GRESSE_PERSISTENT_REPLICA_PATH'') (\<lambda>persistent_replica_path.
     exec_bind (env_string env ''GRESSE_MEMBERSHIP_DIRECTORY_PATH'') (\<lambda>membership_directory_path.
     exec_bind (env_millis_or env ''GRESSE_OBJECT_STORAGE_DISCOVERY_INTERVAL_MS'' 1000) (\<lambda>discovery_interval.
       Done \<lparr>osc_local_dir = env_optional_path env ''GRESSE_OBJECT_STORAGE_LOCAL_DIR'',
             osc_url = env_optional_string env ''GRESSE_OBJECT_STORAGE_URL'',
             osc_region = env_string_or_default env ''GRESSE_OBJECT_STORAGE_REGION'' ''us-east-1'',
             osc_bucket = env_string_or_default env ''GRESSE_OBJECT_STORAGE_BUCKET'' ''gresse'',
             osc_access_key = env_optional_string env ''GRESSE_OBJECT_STORAGE_ACCESS_KEY'',
             osc_secret_key = env_optional_string env ''GRESSE_OBJECT_STORAGE_SECRET_KEY'',
             osc_session_token = env_optional_string env ''GRESSE_OBJECT_STORAGE_SESSION_TOKEN'',
             osc_persistent_replica_path = persistent_replica_path,
             osc_membership_directory_path = membership_directory_path,
             osc_discovery_interval = discovery_interval\<rparr>)))"

record replica_config =
  rc_address :: server_addr
  rc_advertised_address :: server_addr
  rc_sync_interval :: nat
  rc_gc_interval :: nat
  rc_durability_path :: "string option"
  rc_object_storage_config :: object_storage_config

definition DEFAULT_GC_INTERVAL :: nat where
  "DEFAULT_GC_INTERVAL = 60000"

definition replica_config_from_env :: "environment \<Rightarrow> replica_config exec" where
  "replica_config_from_env env =
     exec_bind (env_bool env ''GRESSE_DURABLE'') (\<lambda>durable.
     exec_bind (server_addr_from_env env) (\<lambda>address.
     exec_bind (case env_optional_string env ''GRESSE_ADVERTISE_ADDR'' of
                  Some ip \<Rightarrow> exec_map (with_ip address)
                    (expect ''GRESSE_ADVERTISE_ADDR must be an IP address'' (parse_ip ip))
                | None \<Rightarrow> Done address) (\<lambda>advertised_address.
     exec_bind (if durable = Some True then exec_map Some (env_path env ''GRESSE_DURABILITY_PATH'') else Done None)
       (\<lambda>durability_path.
     exec_bind (env_millis_or env ''GRESSE_SYNC_INTERVAL_MS'' 1000) (\<lambda>sync_interval.
     exec_bind (env_millis_or env ''GRESSE_GC_INTERVAL_MS'' DEFAULT_GC_INTERVAL) (\<lambda>gc_interval.
     exec_bind (object_storage_config_from_env env) (\<lambda>object_storage_config.
       Done \<lparr>rc_address = address, rc_advertised_address = advertised_address, rc_sync_interval = sync_interval,
             rc_gc_interval = gc_interval, rc_durability_path = durability_path,
             rc_object_storage_config = object_storage_config\<rparr>)))))))"

text \<open>
  The runtime configuration. A timer is its period and the time of its next tick; making one
  with period zero panics. \<open>now\<close> is the clock; times are in nanoseconds.
\<close>

record timer =
  tm_period :: nat
  tm_next :: nat

definition interval :: "nat \<Rightarrow> nat \<Rightarrow> timer exec" where
  "interval now period =
     (if period = 0 then Panicked (AssertFailed ''`period` must be non-zero.'')
      else Done \<lparr>tm_period = period, tm_next = now + period\<rparr>)"

record runtime_config =
  rt_address :: server_addr
  rt_advertised_address :: server_addr
  rt_sync_interval :: nat
  rt_gc_base_interval :: nat
  rt_gc_interval :: timer
  rt_membership_poll_interval :: timer

definition runtime_config_new :: "nat \<Rightarrow> replica_config \<Rightarrow> runtime_config exec" where
  "runtime_config_new now config =
     exec_bind (interval now (rc_gc_interval config * 1000000)) (\<lambda>gc_interval.
     exec_bind (interval now (osc_discovery_interval (rc_object_storage_config config) * 1000000)) (\<lambda>poll_interval.
       Done \<lparr>rt_address = rc_address config, rt_advertised_address = rc_advertised_address config,
             rt_sync_interval = rc_sync_interval config * 1000000, rt_gc_base_interval = rc_gc_interval config * 1000000,
             rt_gc_interval = gc_interval, rt_membership_poll_interval = poll_interval\<rparr>))"

definition runtime_address :: "runtime_config \<Rightarrow> server_addr" where
  "runtime_address self = rt_address self"

definition runtime_advertised_address :: "runtime_config \<Rightarrow> server_addr" where
  "runtime_advertised_address self = rt_advertised_address self"

definition runtime_sync_interval :: "runtime_config \<Rightarrow> nat" where
  "runtime_sync_interval self = rt_sync_interval self"

text \<open>The two timers that the loop awaits; waiting for a tick moves the timer on.\<close>

definition timers_mut :: "runtime_config \<Rightarrow> (timer \<Rightarrow> timer) \<Rightarrow> (timer \<Rightarrow> timer) \<Rightarrow> runtime_config" where
  "timers_mut self gc poll =
     self\<lparr>rt_gc_interval := gc (rt_gc_interval self),
          rt_membership_poll_interval := poll (rt_membership_poll_interval self)\<rparr>"

definition reset_gc_interval :: "nat \<Rightarrow> runtime_config \<Rightarrow> runtime_config" where
  "reset_gc_interval now self =
     self\<lparr>rt_gc_interval := (rt_gc_interval self)\<lparr>tm_next := now + tm_period (rt_gc_interval self)\<rparr>\<rparr>"

definition runtime_reschedule_gc :: "(nat \<Rightarrow> nat \<Rightarrow> nat) \<Rightarrow> nat \<Rightarrow> nat \<Rightarrow> runtime_config \<Rightarrow> runtime_config exec" where
  "runtime_reschedule_gc pick now peer_count self =
     exec_map (\<lambda>timer. self\<lparr>rt_gc_interval := timer\<rparr>)
       (interval now (reschedule_gc pick (rt_gc_base_interval self) peer_count))"


section \<open>The life cycle\<close>

text \<open>The two channel ends a replica holds: whether each is still there.\<close>

record lifecycle =
  lc_shutdown_receiver :: bool
  lc_http_shutdown_sender :: bool

definition lifecycle_new :: lifecycle where
  "lifecycle_new = \<lparr>lc_shutdown_receiver = True, lc_http_shutdown_sender = True\<rparr>"

definition take_shutdown_receiver :: "lifecycle \<Rightarrow> lifecycle exec" where
  "take_shutdown_receiver self =
     (if lc_shutdown_receiver self then Done (self\<lparr>lc_shutdown_receiver := False\<rparr>)
      else Panicked (ExpectFailed ''Failed to take shutdown receiver''))"

text \<open>The second result is whether the server is told to stop.\<close>

definition stop_http_server :: "lifecycle \<Rightarrow> lifecycle \<times> bool" where
  "stop_http_server self = (self\<lparr>lc_http_shutdown_sender := False\<rparr>, lc_http_shutdown_sender self)"


text \<open>
  The handle of a replica that runs as a task: whether its shutdown receiver is still there, and
  how the task ends once it was or was not told to (\<open>None\<close> if it does not end). \<open>shutdown\<close> waits for
  the task, however it ends.
\<close>

record 'a replica_handle =
  rh_receiver :: bool
  rh_task :: "bool \<Rightarrow> 'a exec option"

definition handle_shutdown_sender :: "'a replica_handle \<Rightarrow> bool" where
  "handle_shutdown_sender self = rh_receiver self"

definition handle_shutdown :: "'a replica_handle \<Rightarrow> unit option" where
  "handle_shutdown self = map_option (\<lambda>_. ()) (rh_task self (rh_receiver self))"


section \<open>Logging\<close>

text \<open>
  \<^verbatim>\<open>src/src/logging.rs\<close>: the level chosen at build time, and the one initialization that takes
  effect. The logger is what was installed, if anything: the filter it was given, whether in the
  test mode. \<open>try_init\<close> of the library may find another logger in place, then nothing changes.
\<close>

datatype level_filter = LevelTrace | LevelDebug | LevelInfo | LevelWarn | LevelError | LevelOff

definition default_level :: "(string \<Rightarrow> bool) \<Rightarrow> level_filter" where
  "default_level feature =
     (if feature ''log-level-trace'' then LevelTrace
      else if feature ''log-level-debug'' then LevelDebug
      else if feature ''log-level-info'' then LevelInfo
      else if feature ''log-level-warn'' then LevelWarn
      else if feature ''log-level-error'' then LevelError
      else LevelOff)"

datatype log_filter = EnvFilter string | LevelFilter level_filter

record logger =
  lg_called :: bool
  lg_installed :: "(log_filter \<times> bool) option"

definition init_internal :: "(string \<Rightarrow> bool) \<Rightarrow> environment \<Rightarrow> bool \<Rightarrow> logger \<Rightarrow> logger" where
  "init_internal feature env is_test self =
     (if lg_called self then self
      else
        (let builder = (case env ''GRESSE_LOG'' of
               Some v \<Rightarrow> EnvFilter v
             | None \<Rightarrow> LevelFilter (default_level feature))
         in self\<lparr>lg_called := True,
                 lg_installed := (case lg_installed self of None \<Rightarrow> Some (builder, is_test) | Some l \<Rightarrow> Some l)\<rparr>))"

definition log_init :: "(string \<Rightarrow> bool) \<Rightarrow> environment \<Rightarrow> logger \<Rightarrow> logger" where
  "log_init feature env self = init_internal feature env False self"

definition init_for_tests :: "(string \<Rightarrow> bool) \<Rightarrow> environment \<Rightarrow> logger \<Rightarrow> logger" where
  "init_for_tests feature env self = init_internal feature env True self"


section \<open>Properties\<close>

text \<open>The variables a replica refuses to start without, or with a value it cannot read.\<close>

definition readable :: "(string \<Rightarrow> 'a option) \<Rightarrow> string option \<Rightarrow> bool" where
  "readable parse v = (case v of None \<Rightarrow> False | Some s \<Rightarrow> parse s \<noteq> None)"

definition readable_if_set :: "(string \<Rightarrow> 'a option) \<Rightarrow> string option \<Rightarrow> bool" where
  "readable_if_set parse v = (case v of None \<Rightarrow> True | Some s \<Rightarrow> parse s \<noteq> None)"

definition parse_bool :: "string \<Rightarrow> bool option" where
  "parse_bool v =
     (let w = to_ascii_lowercase (trim v)
      in if w \<in> {''1'', ''true'', ''yes'', ''on''} then Some True
         else if w \<in> {''0'', ''false'', ''no'', ''off''} then Some False else None)"

definition durable_wanted :: "environment \<Rightarrow> bool" where
  "durable_wanted env = (Option.bind (env ''GRESSE_DURABLE'') parse_bool = Some True)"

definition environment_ok :: "environment \<Rightarrow> bool" where
  "environment_ok env \<longleftrightarrow>
     readable_if_set parse_bool (env ''GRESSE_DURABLE'') \<and>
     readable parse_ip (env ''GRESSE_ADDR'') \<and>
     readable parse_u16 (env ''GRESSE_HTTP_PORT'') \<and>
     readable parse_u16 (env ''GRESSE_INTERNAL_PORT'') \<and>
     readable_if_set parse_ip (env_optional_string env ''GRESSE_ADVERTISE_ADDR'') \<and>
     (durable_wanted env \<longrightarrow> env ''GRESSE_DURABILITY_PATH'' \<noteq> None) \<and>
     readable_if_set parse_millis (env ''GRESSE_SYNC_INTERVAL_MS'') \<and>
     readable_if_set parse_millis (env ''GRESSE_GC_INTERVAL_MS'') \<and>
     env ''GRESSE_PERSISTENT_REPLICA_PATH'' \<noteq> None \<and>
     env ''GRESSE_MEMBERSHIP_DIRECTORY_PATH'' \<noteq> None \<and>
     readable_if_set parse_millis (env ''GRESSE_OBJECT_STORAGE_DISCOVERY_INTERVAL_MS'')"

lemma env_bool_Done: "env_bool env name = Done b \<longleftrightarrow> (case env name of None \<Rightarrow> b = None | Some v \<Rightarrow> b \<noteq> None \<and> b = parse_bool v)"
  by (auto simp: env_bool_def parse_bool_def Let_def split: option.splits)

lemma env_bool_total: "(\<exists>b. env_bool env name = Done b) \<longleftrightarrow> readable_if_set parse_bool (env name)"
  by (auto simp: env_bool_Done readable_if_set_def split: option.splits)

lemma env_bool_True: "env_bool env ''GRESSE_DURABLE'' = Done b \<Longrightarrow> b = Some True \<longleftrightarrow> durable_wanted env"
  by (auto simp: env_bool_Done durable_wanted_def split: option.splits)

lemma env_string_Done: "env_string env name = Done v \<longleftrightarrow> env name = Some v"
  by (auto simp: env_string_def split: option.splits)

lemma env_path_Done: "env_path env name = Done v \<longleftrightarrow> env name = Some v"
  by (auto simp: env_path_def split: option.splits)

lemma env_millis_or_Done:
  "env_millis_or env name d = Done n \<longleftrightarrow> (case env name of None \<Rightarrow> n = d | Some v \<Rightarrow> parse_millis v = Some n)"
  by (auto simp: env_millis_or_def expect_Done_iff split: option.splits)

lemma env_millis_or_total: "(\<exists>n. env_millis_or env name d = Done n) \<longleftrightarrow> readable_if_set parse_millis (env name)"
  by (auto simp: env_millis_or_Done readable_if_set_def split: option.splits)

lemma server_addr_from_env_Done:
  "server_addr_from_env env = Done a \<longleftrightarrow>
     Option.bind (env ''GRESSE_ADDR'') parse_ip = Some (srv_ip a) \<and>
     Option.bind (env ''GRESSE_HTTP_PORT'') parse_u16 = Some (srv_http_port a) \<and>
     Option.bind (env ''GRESSE_INTERNAL_PORT'') parse_u16 = Some (srv_internal_port a)"
  by (cases a) (auto simp: server_addr_from_env_def exec_simps split: option.splits)

lemma server_addr_from_env_total:
  "(\<exists>a. server_addr_from_env env = Done a) \<longleftrightarrow>
     readable parse_ip (env ''GRESSE_ADDR'') \<and> readable parse_u16 (env ''GRESSE_HTTP_PORT'') \<and>
     readable parse_u16 (env ''GRESSE_INTERNAL_PORT'')"
  by (auto simp: server_addr_from_env_def exec_simps readable_def split: option.splits)

lemma object_storage_config_from_env_total:
  "(\<exists>c. object_storage_config_from_env env = Done c) \<longleftrightarrow>
     env ''GRESSE_PERSISTENT_REPLICA_PATH'' \<noteq> None \<and> env ''GRESSE_MEMBERSHIP_DIRECTORY_PATH'' \<noteq> None \<and>
     readable_if_set parse_millis (env ''GRESSE_OBJECT_STORAGE_DISCOVERY_INTERVAL_MS'')"
  unfolding env_millis_or_total[of _ _ 1000, symmetric]
  by (auto simp: object_storage_config_from_env_def exec_simps env_string_Done)

lemma advertised_total:
  "(\<exists>a. (case env_optional_string env ''GRESSE_ADVERTISE_ADDR'' of
            Some ip \<Rightarrow> exec_map (with_ip address) (expect msg (parse_ip ip)) | None \<Rightarrow> Done address) = Done a) \<longleftrightarrow>
     readable_if_set parse_ip (env_optional_string env ''GRESSE_ADVERTISE_ADDR'')"
  by (auto simp: readable_if_set_def exec_simps split: option.splits)

lemma replica_config_from_env_total:
  "(\<exists>c. replica_config_from_env env = Done c) \<longleftrightarrow> environment_ok env"
proof -
  have dur: "(\<exists>p. (if b = Some True then exec_map Some (env_path env ''GRESSE_DURABILITY_PATH'') else Done None) = Done p) \<longleftrightarrow>
      (durable_wanted env \<longrightarrow> env ''GRESSE_DURABILITY_PATH'' \<noteq> None)"
    if "env_bool env ''GRESSE_DURABLE'' = Done b" for b
    using env_bool_True[OF that] by (auto simp: exec_simps env_path_Done)
  have "(\<exists>c. replica_config_from_env env = Done c) \<longleftrightarrow>
      readable_if_set parse_bool (env ''GRESSE_DURABLE'') \<and>
      (readable parse_ip (env ''GRESSE_ADDR'') \<and> readable parse_u16 (env ''GRESSE_HTTP_PORT'') \<and>
       readable parse_u16 (env ''GRESSE_INTERNAL_PORT'')) \<and>
      readable_if_set parse_ip (env_optional_string env ''GRESSE_ADVERTISE_ADDR'') \<and>
      (durable_wanted env \<longrightarrow> env ''GRESSE_DURABILITY_PATH'' \<noteq> None) \<and>
      readable_if_set parse_millis (env ''GRESSE_SYNC_INTERVAL_MS'') \<and>
      readable_if_set parse_millis (env ''GRESSE_GC_INTERVAL_MS'') \<and>
      (env ''GRESSE_PERSISTENT_REPLICA_PATH'' \<noteq> None \<and> env ''GRESSE_MEMBERSHIP_DIRECTORY_PATH'' \<noteq> None \<and>
       readable_if_set parse_millis (env ''GRESSE_OBJECT_STORAGE_DISCOVERY_INTERVAL_MS'')) \<and> True"
    unfolding replica_config_from_env_def
    by (intro exec_bind_total_iff env_bool_total server_addr_from_env_total advertised_total dur env_millis_or_total
         object_storage_config_from_env_total) simp_all
  then show ?thesis by (simp add: environment_ok_def)
qed

lemma replica_config_from_env_fields:
  assumes "replica_config_from_env env = Done c"
  shows "with_ip (rc_advertised_address c) (srv_ip (rc_address c)) = rc_address c"
    and "env_optional_string env ''GRESSE_ADVERTISE_ADDR'' = None \<Longrightarrow> rc_advertised_address c = rc_address c"
    and "env_optional_string env ''GRESSE_ADVERTISE_ADDR'' = Some ip \<Longrightarrow>
      parse_ip ip = Some (srv_ip (rc_advertised_address c))"
    and "rc_durability_path c = (if durable_wanted env then env ''GRESSE_DURABILITY_PATH'' else None)"
    and "env ''GRESSE_GC_INTERVAL_MS'' = Some v \<Longrightarrow> parse_millis v = Some (rc_gc_interval c)"
    and "env ''GRESSE_GC_INTERVAL_MS'' = None \<Longrightarrow> rc_gc_interval c = DEFAULT_GC_INTERVAL"
    and "env ''GRESSE_SYNC_INTERVAL_MS'' = None \<Longrightarrow> rc_sync_interval c = 1000"
proof -
  from assms obtain d where d: "env_bool env ''GRESSE_DURABLE'' = Done d"
    and adv: "(case env_optional_string env ''GRESSE_ADVERTISE_ADDR'' of
        Some ip \<Rightarrow> exec_map (with_ip (rc_address c)) (expect ''GRESSE_ADVERTISE_ADDR must be an IP address'' (parse_ip ip))
      | None \<Rightarrow> Done (rc_address c)) = Done (rc_advertised_address c)"
    and path: "(if d = Some True then exec_map Some (env_path env ''GRESSE_DURABILITY_PATH'') else Done None) =
      Done (rc_durability_path c)"
    and sync: "env_millis_or env ''GRESSE_SYNC_INTERVAL_MS'' 1000 = Done (rc_sync_interval c)"
    and gc: "env_millis_or env ''GRESSE_GC_INTERVAL_MS'' DEFAULT_GC_INTERVAL = Done (rc_gc_interval c)"
    unfolding replica_config_from_env_def exec_bind_Done_iff
    by - (elim exE conjE, drule exec.inject(1)[THEN iffD1], hypsubst_thin, unfold replica_config.select_convs, blast)
  show "with_ip (rc_advertised_address c) (srv_ip (rc_address c)) = rc_address c"
    using adv by (auto simp: exec_simps with_ip_def split: option.splits)
  show "env_optional_string env ''GRESSE_ADVERTISE_ADDR'' = None \<Longrightarrow> rc_advertised_address c = rc_address c"
    using adv by simp
  show "env_optional_string env ''GRESSE_ADVERTISE_ADDR'' = Some ip \<Longrightarrow>
      parse_ip ip = Some (srv_ip (rc_advertised_address c))"
    using adv by (auto simp: exec_simps with_ip_def)
  show "rc_durability_path c = (if durable_wanted env then env ''GRESSE_DURABILITY_PATH'' else None)"
    using path env_bool_True[OF d] by (auto simp: exec_simps env_path_Done split: if_splits)
  show "env ''GRESSE_GC_INTERVAL_MS'' = Some v \<Longrightarrow> parse_millis v = Some (rc_gc_interval c)"
    "env ''GRESSE_GC_INTERVAL_MS'' = None \<Longrightarrow> rc_gc_interval c = DEFAULT_GC_INTERVAL"
    using gc by (simp_all add: env_millis_or_Done)
  show "env ''GRESSE_SYNC_INTERVAL_MS'' = None \<Longrightarrow> rc_sync_interval c = 1000"
    using sync by (simp add: env_millis_or_Done)
qed

lemma runtime_config_new_total:
  "(\<exists>r. runtime_config_new now c = Done r) \<longleftrightarrow>
     0 < rc_gc_interval c \<and> 0 < osc_discovery_interval (rc_object_storage_config c)"
  by (auto simp: runtime_config_new_def interval_def)

lemma reschedule_gc_pos:
  "(\<And>lower upper. lower \<le> upper \<Longrightarrow> lower \<le> pick lower upper) \<Longrightarrow> 0 < reschedule_gc pick base peers"
proof -
  assume pick: "\<And>lower upper. lower \<le> upper \<Longrightarrow> lower \<le> pick lower upper"
  have "0 < pick (max x 1) (max y (max x 1 + 1))" for x y
    using pick[of "max x 1" "max y (max x 1 + 1)"] by linarith
  then show ?thesis by (simp add: reschedule_gc_def Let_def del: One_nat_def)
qed

text \<open>A minimal environment, as a table.\<close>

definition minimal_environment :: "(string \<times> string) list" where
  "minimal_environment =
     [(''GRESSE_ADDR'', ''0.0.0.0''), (''GRESSE_HTTP_PORT'', ''9090''), (''GRESSE_INTERNAL_PORT'', ''8080''),
      (''GRESSE_PERSISTENT_REPLICA_PATH'', ''state.json''), (''GRESSE_MEMBERSHIP_DIRECTORY_PATH'', ''members'')]"

text \<open>
  Which environments a replica starts with, and the configuration it takes from them. The
  configuration is read exactly when every required variable is set, every numeric, boolean or
  address variable that is set can be read, and a durable replica is given a path; otherwise
  startup panics. The advertised address differs from the bound one at most in its IP and is the
  bound one when none is set; a durability path is used exactly when durability is asked for.
\<close>

theorem configuration_accepted:
  "((\<exists>c. replica_config_from_env env = Done c) \<longleftrightarrow> environment_ok env) \<and>
   (\<forall>c. replica_config_from_env env = Done c \<longrightarrow>
      with_ip (rc_advertised_address c) (srv_ip (rc_address c)) = rc_address c \<and>
      (case env_optional_string env ''GRESSE_ADVERTISE_ADDR'' of
         None \<Rightarrow> rc_advertised_address c = rc_address c
       | Some ip \<Rightarrow> parse_ip ip = Some (srv_ip (rc_advertised_address c))) \<and>
      rc_durability_path c = (if durable_wanted env then env ''GRESSE_DURABILITY_PATH'' else None) \<and>
      (case env ''GRESSE_GC_INTERVAL_MS'' of
         None \<Rightarrow> rc_gc_interval c = DEFAULT_GC_INTERVAL
       | Some v \<Rightarrow> parse_millis v = Some (rc_gc_interval c)))"
  by (simp add: replica_config_from_env_total replica_config_from_env_fields split: option.split)

theorem configuration_accepted_witness:
  "\<exists>c. replica_config_from_env (map_of (minimal_environment @ [(''GRESSE_ADVERTISE_ADDR'', ''10.1.2.3'')])) = Done c \<and>
     srv_ip (rc_advertised_address c) = (10, 1, 2, 3) \<and> rc_durability_path c = None \<and>
     rc_gc_interval c = DEFAULT_GC_INTERVAL"
proof -
  let ?m = "map_of (minimal_environment @ [(''GRESSE_ADVERTISE_ADDR'', ''10.1.2.3'')])"
  have facts: "environment_ok ?m" "env_optional_string ?m ''GRESSE_ADVERTISE_ADDR'' = Some ''10.1.2.3''"
    "parse_ip ''10.1.2.3'' = Some (10, 1, 2, 3)" "\<not> durable_wanted ?m" "?m ''GRESSE_GC_INTERVAL_MS'' = None"
    by code_simp+
  obtain env where env: "env = ?m" by blast
  from facts configuration_accepted[of env] show ?thesis unfolding env[symmetric] by force
qed

text \<open>
  The timers of a replica. The runtime configuration of a replica is made exactly when the
  collection and discovery intervals are not zero; a collection interval of zero, which the
  configuration accepts and rescheduling allows for, panics at startup. From then on
  rescheduling never panics, whatever is drawn, and arms the collection timer for a later time.
\<close>

theorem zero_interval_panics:
  assumes "replica_config_from_env env = Done c"
    and "\<And>lower upper. lower \<le> upper \<Longrightarrow> lower \<le> pick lower upper"
  shows "((\<exists>r. runtime_config_new now c = Done r) \<longleftrightarrow>
      0 < rc_gc_interval c \<and> 0 < osc_discovery_interval (rc_object_storage_config c)) \<and>
    (env ''GRESSE_GC_INTERVAL_MS'' = Some ''0'' \<longrightarrow>
      runtime_config_new now c = Panicked (AssertFailed ''`period` must be non-zero.'') \<and>
      reschedule_gc pick (rc_gc_interval c) peers = 1) \<and>
    (\<exists>r'. runtime_reschedule_gc pick later peers r = Done r' \<and> later < tm_next (rt_gc_interval r') \<and>
      rt_membership_poll_interval r' = rt_membership_poll_interval r)"
proof (intro conjI)
  show "env ''GRESSE_GC_INTERVAL_MS'' = Some ''0'' \<longrightarrow>
      runtime_config_new now c = Panicked (AssertFailed ''`period` must be non-zero.'') \<and>
      reschedule_gc pick (rc_gc_interval c) peers = 1"
  proof
    assume "env ''GRESSE_GC_INTERVAL_MS'' = Some ''0''"
    then have "parse_millis ''0'' = Some (rc_gc_interval c)" by (rule replica_config_from_env_fields(5)[OF assms(1)])
    moreover have "parse_millis ''0'' = Some 0" by code_simp
    ultimately have "rc_gc_interval c = 0" by simp
    then show "runtime_config_new now c = Panicked (AssertFailed ''`period` must be non-zero.'') \<and>
        reschedule_gc pick (rc_gc_interval c) peers = 1"
      by (simp add: runtime_config_new_def interval_def reschedule_gc_def)
  qed
  show "\<exists>r'. runtime_reschedule_gc pick later peers r = Done r' \<and> later < tm_next (rt_gc_interval r') \<and>
      rt_membership_poll_interval r' = rt_membership_poll_interval r"
    using reschedule_gc_pos[of pick, OF assms(2)] by (simp add: runtime_reschedule_gc_def interval_def)
qed (rule runtime_config_new_total)

theorem zero_interval_panics_witness:
  "\<exists>c. replica_config_from_env (map_of (minimal_environment @ [(''GRESSE_GC_INTERVAL_MS'', ''0'')])) = Done c \<and>
     runtime_config_new 5 c = Panicked (AssertFailed ''`period` must be non-zero.'')"
proof -
  let ?env = "map_of (minimal_environment @ [(''GRESSE_GC_INTERVAL_MS'', ''0'')])"
  have "environment_ok ?env" by code_simp
  then obtain c where c: "replica_config_from_env ?env = Done c" using replica_config_from_env_total by blast
  have "?env ''GRESSE_GC_INTERVAL_MS'' = Some ''0''" by code_simp
  with zero_interval_panics[OF c, of "\<lambda>lower upper. lower" 5] c show ?thesis by auto
qed

end
