(* ===== verification/Credentials.thy ===== *)
theory Credentials
  imports Configuration Object_Storage
begin

text \<open>
  How the object storage client is set up (\<^verbatim>\<open>src/src/object_storage.rs\<close>): the choice of the
  backend, the assembly of an S3 client and the credentials it uses, from the configuration, the
  environment or the shared profile files. The S3 client builder and the local store are
  libraries: they are the parameters \<open>sb\<close> and \<open>new_with_prefix\<close>. The environment and the readable
  files are the parameter \<open>host\<close>.
\<close>

section \<open>The host\<close>

record host =
  h_env :: environment
  h_read :: "string \<Rightarrow> string option"
  h_create_dir_all :: "string \<Rightarrow> bool"

text \<open>\<open>PathBuf::join\<close>.\<close>

definition path_join :: "string \<Rightarrow> string \<Rightarrow> string" where
  "path_join a b =
     (if prefix ''/'' b then b else if a = [] \<or> suffix ''/'' a then a @ b else a @ ''/'' @ b)"

definition split_once :: "char \<Rightarrow> string \<Rightarrow> (string \<times> string) option" where
  "split_once c s =
     (if c \<in> set s then Some (takeWhile (\<lambda>x. x \<noteq> c) s, tl (dropWhile (\<lambda>x. x \<noteq> c) s)) else None)"

text \<open>Fallible code that may also panic: the operator \<open>?\<close>.\<close>

definition try_bind :: "('e + 'a) exec \<Rightarrow> ('a \<Rightarrow> ('e + 'b) exec) \<Rightarrow> ('e + 'b) exec" where
  "try_bind m f = exec_bind m (\<lambda>r. case r of Inl e \<Rightarrow> Done (Inl e) | Inr x \<Rightarrow> f x)"


section \<open>Profile files\<close>

type_synonym profiles = "(string, (string, string) hashmap) hashmap"

definition aws_home_dir :: "host \<Rightarrow> string exec" where
  "aws_home_dir host = expect ''HOME environment variable is required'' (h_env host ''HOME'')"

definition default_credentials_path :: "host \<Rightarrow> string exec" where
  "default_credentials_path host = exec_map (\<lambda>home. path_join (path_join home ''.aws'') ''credentials'') (aws_home_dir host)"

definition default_config_path :: "host \<Rightarrow> string exec" where
  "default_config_path host = exec_map (\<lambda>home. path_join (path_join home ''.aws'') ''config'') (aws_home_dir host)"

text \<open>The body of the loop over the lines.\<close>

definition profile_line :: "string \<Rightarrow> profiles \<times> string option \<Rightarrow> profiles \<times> string option" where
  "profile_line line st = (case st of (profiles, current_section) \<Rightarrow>
     (let trimmed = trim line
      in if trimmed = [] \<or> prefix ''#'' trimmed \<or> prefix '';'' trimmed then (profiles, current_section)
         else if prefix ''['' trimmed \<and> suffix '']'' trimmed
           then (let section = trim (butlast (tl trimmed))
                 in (hm_modify_or_insert profiles section id hm_new, Some section))
         else (case current_section of
             None \<Rightarrow> (profiles, current_section)
           | Some section_name \<Rightarrow>
               (case split_once CHR ''='' trimmed of
                  None \<Rightarrow> (profiles, current_section)
                | Some (key, val) \<Rightarrow>
                    (hm_modify_or_insert profiles section_name (\<lambda>m. hm_insert m (trim key) (trim val))
                       (hm_insert hm_new (trim key) (trim val)), current_section)))))"

definition parse_profile_file :: "host \<Rightarrow> string \<Rightarrow> object_storage_error + profiles" where
  "parse_profile_file host path =
     (case h_read host path of
        None \<Rightarrow> Inr hm_new
      | Some raw_contents \<Rightarrow> Inr (fst (fold profile_line (str_lines raw_contents) (hm_new, None))))"

record shared_profile_credentials =
  pc_access_key_id :: string
  pc_secret_access_key :: string
  pc_session_token :: "string option"

text \<open>\<open>Option::or_else\<close>.\<close>

definition or_else :: "'a option \<Rightarrow> 'a option \<Rightarrow> 'a option" where
  "or_else a b = (case a of None \<Rightarrow> b | Some x \<Rightarrow> Some x)"

definition section_credentials :: "(string, string) hashmap option \<Rightarrow> shared_profile_credentials option" where
  "section_credentials credentials_section =
     Option.bind credentials_section (\<lambda>section.
     Option.bind (hm_get section ''aws_access_key_id'') (\<lambda>access_key_id.
     Option.bind (hm_get section ''aws_secret_access_key'') (\<lambda>secret_access_key.
       Some \<lparr>pc_access_key_id = access_key_id, pc_secret_access_key = secret_access_key,
             pc_session_token = hm_get section ''aws_session_token''\<rparr>)))"

definition resolve_profile_credentials ::
  "host \<Rightarrow> object_storage_config \<Rightarrow> (object_storage_error + shared_profile_credentials option) exec" where
  "resolve_profile_credentials host config =
     (let env = h_env host
      in if osc_access_key config \<noteq> None \<or> osc_secret_key config \<noteq> None \<or> osc_session_token config \<noteq> None
         then Done (Inr None)
         else if env ''AWS_ACCESS_KEY_ID'' \<noteq> None \<or> env ''AWS_SECRET_ACCESS_KEY'' \<noteq> None
         then Done (Inr None)
         else
           (let profile_name = (case env ''AWS_PROFILE'' of Some v \<Rightarrow> v | None \<Rightarrow> ''default'')
            in exec_bind (case env ''AWS_SHARED_CREDENTIALS_FILE'' of Some p \<Rightarrow> Done p | None \<Rightarrow> default_credentials_path host)
                 (\<lambda>credentials_path.
               exec_bind (case env ''AWS_CONFIG_FILE'' of Some p \<Rightarrow> Done p | None \<Rightarrow> default_config_path host)
                 (\<lambda>config_path.
               try_bind (Done (parse_profile_file host credentials_path)) (\<lambda>credentials.
               try_bind (Done (parse_profile_file host config_path)) (\<lambda>config_profiles.
                 Done (Inr (section_credentials
                   (or_else (or_else (hm_get credentials profile_name) (hm_get config_profiles profile_name))
                      (hm_get config_profiles (''profile '' @ profile_name)))))))))))"


section \<open>The backend\<close>

record ('b, 's) s3_builder =
  sb_new :: 'b
  sb_from_env :: "environment \<Rightarrow> 'b"
  sb_region :: "string \<Rightarrow> 'b \<Rightarrow> 'b"
  sb_bucket_name :: "string \<Rightarrow> 'b \<Rightarrow> 'b"
  sb_endpoint :: "string \<Rightarrow> 'b \<Rightarrow> 'b"
  sb_allow_http :: "bool \<Rightarrow> 'b \<Rightarrow> 'b"
  sb_access_key_id :: "string \<Rightarrow> 'b \<Rightarrow> 'b"
  sb_secret_access_key :: "string \<Rightarrow> 'b \<Rightarrow> 'b"
  sb_token :: "string \<Rightarrow> 'b \<Rightarrow> 'b"
  sb_client_options :: "nat \<Rightarrow> nat \<Rightarrow> 'b \<Rightarrow> 'b"
  sb_retry :: "nat \<Rightarrow> nat \<Rightarrow> 'b \<Rightarrow> 'b"
  sb_build :: "'b \<Rightarrow> string + 's"

text \<open>Seconds.\<close>

definition OBJECT_STORE_CONNECT_TIMEOUT :: nat where "OBJECT_STORE_CONNECT_TIMEOUT = 3"
definition OBJECT_STORE_REQUEST_TIMEOUT :: nat where "OBJECT_STORE_REQUEST_TIMEOUT = 15"
definition OBJECT_STORE_RETRY_TIMEOUT :: nat where "OBJECT_STORE_RETRY_TIMEOUT = 30"
definition OBJECT_STORE_MAX_RETRIES :: nat where "OBJECT_STORE_MAX_RETRIES = 2"

definition set_if :: "('a \<Rightarrow> 'b \<Rightarrow> 'b) \<Rightarrow> 'a option \<Rightarrow> 'b \<Rightarrow> 'b" where
  "set_if setter v builder = (case v of Some x \<Rightarrow> setter x builder | None \<Rightarrow> builder)"

definition with_profile :: "('b, 's) s3_builder \<Rightarrow> shared_profile_credentials option \<Rightarrow> 'b \<Rightarrow> 'b" where
  "with_profile sb profile builder =
     (case profile of
        None \<Rightarrow> builder
      | Some p \<Rightarrow> set_if (sb_token sb) (pc_session_token p)
          (sb_secret_access_key sb (pc_secret_access_key p) (sb_access_key_id sb (pc_access_key_id p) builder)))"

definition build_bucket ::
  "('b, 's) s3_builder \<Rightarrow> host \<Rightarrow> object_storage_config \<Rightarrow> (object_storage_error + 's) exec" where
  "build_bucket sb host config =
     (let use_explicit_static_credentials = osc_access_key config \<noteq> None \<and> osc_secret_key config \<noteq> None;
          builder = sb_bucket_name sb (osc_bucket config) (sb_region sb (osc_region config)
            (if use_explicit_static_credentials then sb_new sb else sb_from_env sb (h_env host)));
          builder = (case osc_url config of
              Some endpoint \<Rightarrow>
                if trim endpoint \<noteq> []
                then sb_allow_http sb (prefix ''http://'' endpoint) (sb_endpoint sb endpoint builder)
                else builder
            | None \<Rightarrow> builder)
      in try_bind (if \<not> use_explicit_static_credentials
                   then try_bind (resolve_profile_credentials host config) (\<lambda>profile.
                     Done (Inr (with_profile sb profile builder)))
                   else Done (Inr builder)) (\<lambda>builder.
           let builder = set_if (sb_access_key_id sb) (osc_access_key config) builder;
               builder = set_if (sb_secret_access_key sb) (osc_secret_key config) builder;
               builder = set_if (sb_token sb) (osc_session_token config) builder;
               builder = sb_retry sb OBJECT_STORE_MAX_RETRIES OBJECT_STORE_RETRY_TIMEOUT
                 (sb_client_options sb OBJECT_STORE_CONNECT_TIMEOUT OBJECT_STORE_REQUEST_TIMEOUT builder)
           in Done (case sb_build sb builder of Inr store \<Rightarrow> Inr store | Inl error \<Rightarrow> Inl (ConfigurationError error))))"

datatype 's storage_backend =
    S3 (backend_store: 's) (s3_bucket_name: string) (s3_region: string) (s3_endpoint_url: "string option")
  | Local (backend_store: 's) (local_root_dir: string)

definition storage_backend_from_config ::
  "('b, 's) s3_builder \<Rightarrow> (string \<Rightarrow> string + 's) \<Rightarrow> host \<Rightarrow> object_storage_config \<Rightarrow>
   (object_storage_error + 's storage_backend) exec" where
  "storage_backend_from_config sb new_with_prefix host config =
     (case osc_local_dir config of
        Some root_dir \<Rightarrow>
          Done (if \<not> h_create_dir_all host root_dir then Inl IoError
                else (case new_with_prefix root_dir of
                  Inl error \<Rightarrow> Inl (ConfigurationError error)
                | Inr store \<Rightarrow> Inr (Local store root_dir)))
      | None \<Rightarrow>
          try_bind (build_bucket sb host config) (\<lambda>store.
            Done (Inr (S3 store (osc_bucket config) (osc_region config) (osc_url config)))))"

definition client_try_new ::
  "('b, 's) s3_builder \<Rightarrow> (string \<Rightarrow> string + 's) \<Rightarrow> host \<Rightarrow> object_storage_config \<Rightarrow>
   (object_storage_error + 's storage_client) exec" where
  "client_try_new sb new_with_prefix host config =
     try_bind (storage_backend_from_config sb new_with_prefix host config) (\<lambda>backend.
       Done (Inr (client_new (backend_store backend) (osc_persistent_replica_path config) (osc_membership_directory_path config))))"

definition object_storage_client_new ::
  "('b, 's) s3_builder \<Rightarrow> (string \<Rightarrow> string + 's) \<Rightarrow> host \<Rightarrow> object_storage_config \<Rightarrow> 's storage_client exec" where
  "object_storage_client_new sb new_with_prefix host config =
     exec_bind (client_try_new sb new_with_prefix host config) (\<lambda>r. case r of
       Inr client \<Rightarrow> Done client
     | Inl error \<Rightarrow> Panicked (PanicMessage ''Failed to initialize object storage client''))"


section \<open>Trimming\<close>

definition token :: "string \<Rightarrow> bool" where
  "token s \<longleftrightarrow> trim s = s \<and> CHR 0x0A \<notin> set s"

lemma trim_Nil [simp]: "trim [] = []"
  by (simp add: trim_def trim_start_def)

lemma trim_id:
  assumes "\<not> is_space (hd s)" "\<not> is_space (last s)"
  shows "trim s = s"
proof (cases "s = []")
  case False
  then have "dropWhile is_space s = s" using assms by (cases s) auto
  moreover have "dropWhile is_space (rev s) = rev s"
    using assms False by (cases "rev s") (auto simp: hd_rev[symmetric])
  ultimately show ?thesis by (simp add: trim_def trim_start_def)
qed simp

lemma trim_Cons_space: "is_space c \<Longrightarrow> trim (c # s) = trim s"
  by (simp add: trim_def trim_start_def)

lemma trim_snoc_space:
  assumes "is_space c"
  shows "trim (s @ [c]) = trim s"
proof (cases "\<forall>x \<in> set s. is_space x")
  case True
  then show ?thesis using assms by (auto simp: trim_def trim_start_def dropWhile_append dest: set_dropWhileD)
next
  case False
  then show ?thesis using assms by (auto simp: trim_def trim_start_def dropWhile_append)
qed

lemma trim_fixed:
  assumes "trim s = s" "s \<noteq> []"
  shows "\<not> is_space (hd s)" "\<not> is_space (last s)"
proof -
  have len: "length s \<le> length (trim_start s)"
    using length_dropWhile_le[of is_space "rev (trim_start s)"] arg_cong[OF assms(1), of length] by (simp add: trim_def)
  have start: "trim_start s = s"
  proof (rule ccontr)
    assume "trim_start s \<noteq> s"
    then have "length (trim_start s) < length s"
      unfolding trim_start_def by (metis append_Nil dropWhile_eq_drop drop0 length_drop length_dropWhile_le
          le_neq_implies_less takeWhile_dropWhile_id length_append add_cancel_left_left length_0_conv)
    with len show False by simp
  qed
  then show "\<not> is_space (hd s)" using assms(2) hd_dropWhile[of is_space s] by (metis trim_start_def)
  have "dropWhile is_space (rev s) = rev s" using assms(1) start by (metis trim_def rev_rev_ident)
  then show "\<not> is_space (last s)" using assms(2) hd_dropWhile[of is_space "rev s"]
    by (metis hd_rev rev_is_Nil_conv)
qed

lemma is_space_simps [simp]:
  "is_space CHR '' ''" "is_space CHR 0x0D" "\<not> is_space CHR ''=''" "\<not> is_space CHR ''[''" "\<not> is_space CHR '']''"
  by (simp_all add: is_space_def)


section \<open>Reading back a profile file\<close>

definition profile_entry_ok :: "string \<times> string \<Rightarrow> bool" where
  "profile_entry_ok e = (case e of (k, v) \<Rightarrow>
     token k \<and> token v \<and> k \<noteq> [] \<and> CHR ''='' \<notin> set k \<and> hd k \<notin> {CHR ''#'', CHR '';'', CHR ''[''})"

definition profiles_ok :: "(string \<times> (string \<times> string) list) list \<Rightarrow> bool" where
  "profiles_ok ps \<longleftrightarrow> distinct (map fst ps) \<and>
     list_all (\<lambda>(n, es). token n \<and> distinct (map fst es) \<and> list_all profile_entry_ok es) ps"

definition section_lines :: "string \<times> (string \<times> string) list \<Rightarrow> string list" where
  "section_lines p = (case p of (n, es) \<Rightarrow> (''['' @ n @ '']'') # map (\<lambda>(k, v). k @ '' = '' @ v) es)"

definition render_profiles :: "(string \<times> (string \<times> string) list) list \<Rightarrow> string" where
  "render_profiles ps = concat (map (\<lambda>l. l @ [CHR 0x0A]) (concat (map section_lines ps)))"

definition profiles_abs :: "profiles \<Rightarrow> string \<Rightarrow> (string \<Rightarrow> string option) option" where
  "profiles_abs P n = map_option hm_get (hm_get P n)"

lemma section_line:
  assumes "token n"
  shows "profile_line (''['' @ n @ '']'') (P, cur) = (hm_modify_or_insert P n id hm_new, Some n)"
  using assms by (simp add: profile_line_def Let_def trim_id token_def suffix_def butlast_append)

lemma trim_entry:
  assumes "token k" "token v" "k \<noteq> []"
  shows "trim (k @ '' = '' @ v) = k @ '' ='' @ (if v = [] then [] else '' '' @ v)"
proof (cases "v = []")
  case True
  have "trim (k @ '' ='' @ '' '') = trim (k @ '' ='')" using trim_snoc_space[of "CHR '' ''" "k @ '' =''"] by simp
  also have "\<dots> = k @ '' =''" using assms trim_fixed[of k] by (intro trim_id) (simp_all add: token_def)
  finally show ?thesis using True by simp
next
  case False
  then show ?thesis using assms trim_fixed[of k] trim_fixed[of v] by (simp add: trim_id token_def)
qed

lemma split_entry:
  "CHR ''='' \<notin> set k \<Longrightarrow> split_once CHR ''='' (k @ '' ='' @ r) = Some (k @ '' '', r)"
  by (simp add: split_once_def takeWhile_append2 dropWhile_append2 takeWhile_append dropWhile_append)

lemma entry_line:
  assumes "profile_entry_ok (k, v)"
  shows "profile_line (k @ '' = '' @ v) (P, Some n) =
    (hm_modify_or_insert P n (\<lambda>m. hm_insert m k v) (hm_insert hm_new k v), Some n)"
proof -
  from assms have ok: "token k" "token v" "k \<noteq> []" "CHR ''='' \<notin> set k" "hd k \<notin> {CHR ''#'', CHR '';'', CHR ''[''}"
    by (simp_all add: profile_entry_ok_def)
  have key: "trim (k @ '' '') = k" using ok(1) trim_snoc_space[of "CHR '' ''" k] by (simp add: token_def)
  have val: "trim (if v = [] then [] else '' '' @ v) = v" using ok(2) by (simp add: trim_Cons_space token_def)
  have pre: "\<not> prefix [c] (k @ s)" if "hd k \<noteq> c" for c s using that ok(3) by (cases k) auto
  show ?thesis
    unfolding profile_line_def Let_def prod.case trim_entry[OF ok(1-3)] split_entry[OF ok(4)]
    using ok(3,5) by (simp add: pre key val[simplified])
qed

lemma fold_upd: "distinct (map fst es) \<Longrightarrow> fold (\<lambda>(k, v) f. f(k \<mapsto> v)) es f = f ++ map_of es"
proof (induction es arbitrary: f)
  case (Cons e es)
  obtain k v where e: "e = (k, v)" by (cases e)
  have k: "k \<notin> dom (map_of es)" and d: "distinct (map fst es)"
    using Cons.prems by (simp_all add: e dom_map_of_conv_image_fst)
  show ?case
    by (simp only: e fold_simps prod.case Cons.IH[OF d] map_of.simps fst_conv snd_conv map_add_upd
        map_add_upd_left[OF k])
qed simp

lemma fold_entries:
  assumes "list_all profile_entry_ok es" and "hm_get P n = Some m"
  shows "\<exists>P'. fold profile_line (map (\<lambda>(k, v). k @ '' = '' @ v) es) (P, Some n) = (P', Some n) \<and>
    profiles_abs P' = (profiles_abs P)(n \<mapsto> fold (\<lambda>(k, v) f. f(k \<mapsto> v)) es (hm_get m))"
  using assms
proof (induction es arbitrary: P m)
  case Nil
  then show ?case by (auto simp: profiles_abs_def)
next
  case (Cons e es)
  obtain k v where e: "e = (k, v)" by (cases e)
  let ?P = "hm_modify_or_insert P n (\<lambda>m. hm_insert m k v) (hm_insert hm_new k v)"
  have get: "hm_get ?P n = Some (hm_insert m k v)" using Cons.prems by simp
  have upd: "hm_get (hm_insert m k v) = (hm_get m)(k \<mapsto> v)" by (simp add: fun_eq_iff)
  have eq: "(profiles_abs ?P)(n \<mapsto> f) = (profiles_abs P)(n \<mapsto> f)" for f
    by (simp add: profiles_abs_def fun_eq_iff)
  have ok: "profile_entry_ok (k, v)" "list_all profile_entry_ok es" using Cons.prems(1) by (simp_all add: e)
  show ?case using Cons.IH[OF ok(2) get]
    by (simp only: e list.map fold_simps prod.case entry_line[OF ok(1)] upd eq)
qed

lemma fold_section:
  assumes "token n" "list_all profile_entry_ok es" "profiles_abs P n = None"
  shows "\<exists>P'. fold profile_line (section_lines (n, es)) (P, cur) = (P', Some n) \<and>
    profiles_abs P' = (profiles_abs P)(n \<mapsto> fold (\<lambda>(k, v) f. f(k \<mapsto> v)) es Map.empty)"
proof -
  let ?P = "hm_modify_or_insert P n id hm_new"
  have new: "hm_get ?P n = Some hm_new" using assms(3) by (simp add: profiles_abs_def)
  have eq: "(profiles_abs ?P)(n \<mapsto> f) = (profiles_abs P)(n \<mapsto> f)" for f
    by (simp add: profiles_abs_def fun_eq_iff)
  have empty: "hm_get hm_new = Map.empty" by (simp add: fun_eq_iff)
  show ?thesis using fold_entries[OF assms(2) new]
    by (simp only: section_lines_def prod.case fold_simps section_line[OF assms(1)] eq empty)
qed

lemma fold_profiles:
  assumes "profiles_ok ps" and "\<And>n. n \<in> fst ` set ps \<Longrightarrow> profiles_abs P n = None"
  shows "profiles_abs (fst (fold profile_line (concat (map section_lines ps)) (P, cur))) n =
    (case map_of ps n of None \<Rightarrow> profiles_abs P n | Some es \<Rightarrow> Some (map_of es))"
  using assms
proof (induction ps arbitrary: P cur)
  case (Cons p ps)
  obtain n0 es where p: "p = (n0, es)" by (cases p)
  have ok: "token n0" "list_all profile_entry_ok es" "distinct (map fst es)" "profiles_ok ps" "n0 \<notin> fst ` set ps"
    using Cons.prems(1) by (auto simp: profiles_ok_def p)
  obtain P' where P': "fold profile_line (section_lines p) (P, cur) = (P', Some n0)"
    "profiles_abs P' = (profiles_abs P)(n0 \<mapsto> map_of es)"
    using fold_section[OF ok(1,2), of P cur] Cons.prems(2)[of n0] fold_upd[OF ok(3)] by (auto simp: p)
  have "profiles_abs P' n = None" if "n \<in> fst ` set ps" for n
    using that ok(5) Cons.prems(2)[of n] P'(2) by (auto simp: p)
  from Cons.IH[OF ok(4) this, of "Some n0"] P' have
    "profiles_abs (fst (fold profile_line (concat (map section_lines (p # ps))) (P, cur))) n =
      (case map_of ps n of None \<Rightarrow> profiles_abs P' n | Some es \<Rightarrow> Some (map_of es))" by simp
  moreover have "map_of ps n0 = None" using ok(5) by (simp add: map_of_eq_None_iff)
  ultimately show ?case using P'(2) by (cases "n = n0") (simp_all add: p split: option.splits)
qed simp

lemma section_lines_plain:
  assumes "profiles_ok ps" "l \<in> set (concat (map section_lines ps))"
  shows "CHR 0x0A \<notin> set l \<and> strip_cr l = l"
proof -
  from assms obtain n es where "(n, es) \<in> set ps" "l \<in> set (section_lines (n, es))" by auto
  with assms(1) have ok: "token n" "list_all profile_entry_ok es" "l = ''['' @ n @ '']'' \<or> (\<exists>(k, v) \<in> set es. l = k @ '' = '' @ v)"
    by (fastforce simp: profiles_ok_def list_all_iff section_lines_def)+
  from ok(3) show ?thesis
  proof
    assume "l = ''['' @ n @ '']''"
    then show ?thesis using ok(1) by (simp add: token_def strip_cr_def suffix_def)
  next
    assume "\<exists>(k, v) \<in> set es. l = k @ '' = '' @ v"
    then obtain k v where kv: "token k" "token v" "l = k @ '' = '' @ v"
      using ok(2) by (auto simp: list_all_iff profile_entry_ok_def)
    have "last l \<noteq> CHR 0x0D" using kv(2,3) trim_fixed(2)[of v] by (auto simp: token_def)
    then have "strip_cr l = l" by (auto simp: strip_cr_def suffix_def)
    then show ?thesis using kv by (auto simp: token_def)
  qed
qed

text \<open>
  Profile files are read back. A file listing any profiles with distinct names and keys,
  under headers in brackets and one assignment per line, is parsed to exactly these profiles
  with exactly these settings. A file that cannot be read counts as one with no profiles.
\<close>

theorem profile_file_round_trip:
  "(profiles_ok ps \<and> h_read host path = Some (render_profiles ps) \<longrightarrow>
     (\<exists>P. parse_profile_file host path = Inr P \<and>
       (\<forall>n. map_option hm_get (hm_get P n) = map_option map_of (map_of ps n)))) \<and>
   (h_read host path = None \<longrightarrow> parse_profile_file host path = Inr hm_new)"
proof -
  have "map_option hm_get (hm_get (fst (fold profile_line (str_lines (render_profiles ps)) (hm_new, None))) n) =
      map_option map_of (map_of ps n)" if "profiles_ok ps" for n
  proof -
    have "str_lines (render_profiles ps) = concat (map section_lines ps)"
      unfolding render_profiles_def using section_lines_plain[OF that] by (rule str_lines_join)
    then show ?thesis
      using fold_profiles[OF that, of hm_new None n] by (simp add: profiles_abs_def split: option.splits)
  qed
  then show ?thesis by (simp add: parse_profile_file_def)
qed

definition example_profiles :: "(string \<times> (string \<times> string) list) list" where
  "example_profiles =
     [(''default'', [(''aws_access_key_id'', ''abc''), (''aws_secret_access_key'', ''def='')]),
      (''profile dev'', [(''region'', []), (''aws_session_token'', ''ghi'')])]"

definition example_host :: "(string \<times> string) list \<Rightarrow> host" where
  "example_host env =
     \<lparr>h_env = map_of env,
      h_read = (\<lambda>p. if p = ''/root/.aws/credentials'' then Some (render_profiles example_profiles) else None),
      h_create_dir_all = (\<lambda>_. True)\<rparr>"

theorem profile_file_round_trip_witness:
  "\<exists>P m. parse_profile_file (example_host []) ''/root/.aws/credentials'' = Inr P \<and>
     hm_get P ''default'' = Some m \<and> hm_get m ''aws_secret_access_key'' = Some ''def=''"
proof -
  have ok: "profiles_ok example_profiles \<and>
      h_read (example_host []) ''/root/.aws/credentials'' = Some (render_profiles example_profiles)"
    by code_simp
  obtain P where P: "parse_profile_file (example_host []) ''/root/.aws/credentials'' = Inr P"
    and get: "map_option hm_get (hm_get P ''default'') = map_option map_of (map_of example_profiles ''default'')"
    using profile_file_round_trip[of example_profiles "example_host []" "''/root/.aws/credentials''"] ok by blast
  from get obtain m where "hm_get P ''default'' = Some m"
    "hm_get m = map_of [(''aws_access_key_id'', ''abc''), (''aws_secret_access_key'', ''def='')]"
    by (auto simp: example_profiles_def)
  with P show ?thesis by simp
qed


section \<open>Which credentials are used\<close>

text \<open>
  The documented behaviour of the builder: each setter sets its value and keeps the credentials
  it does not name; \<open>creds\<close> reads the access key, the secret and the token off a builder.
\<close>

type_synonym credentials = "string option \<times> string option \<times> string option"

definition builder_ok :: "('b, 's) s3_builder \<Rightarrow> ('b \<Rightarrow> credentials) \<Rightarrow> bool" where
  "builder_ok sb creds \<longleftrightarrow>
     creds (sb_new sb) = (None, None, None) \<and>
     (\<forall>x b. creds (sb_access_key_id sb x b) = (case creds b of (a, s, t) \<Rightarrow> (Some x, s, t)) \<and>
       creds (sb_secret_access_key sb x b) = (case creds b of (a, s, t) \<Rightarrow> (a, Some x, t)) \<and>
       creds (sb_token sb x b) = (case creds b of (a, s, t) \<Rightarrow> (a, s, Some x)) \<and>
       creds (sb_region sb x b) = creds b \<and> creds (sb_bucket_name sb x b) = creds b \<and>
       creds (sb_endpoint sb x b) = creds b) \<and>
     (\<forall>x b. creds (sb_allow_http sb x b) = creds b) \<and>
     (\<forall>x y b. creds (sb_client_options sb x y b) = creds b \<and> creds (sb_retry sb x y b) = creds b)"

definition explicit_credentials :: "object_storage_config \<Rightarrow> bool" where
  "explicit_credentials config \<longleftrightarrow> osc_access_key config \<noteq> None \<and> osc_secret_key config \<noteq> None"

definition effective_credentials :: "credentials \<Rightarrow> object_storage_config \<Rightarrow> shared_profile_credentials option \<Rightarrow> credentials" where
  "effective_credentials env config profile =
     (if explicit_credentials config then (osc_access_key config, osc_secret_key config, osc_session_token config)
      else (case (profile, env) of
          (Some p, (a, s, t)) \<Rightarrow> (Some (pc_access_key_id p), Some (pc_secret_access_key p), or_else (pc_session_token p) t)
        | (None, (a, s, t)) \<Rightarrow> (or_else (osc_access_key config) a, or_else (osc_secret_key config) s,
            or_else (osc_session_token config) t)))"

definition profile_allowed :: "host \<Rightarrow> object_storage_config \<Rightarrow> bool" where
  "profile_allowed host config \<longleftrightarrow>
     osc_access_key config = None \<and> osc_secret_key config = None \<and> osc_session_token config = None \<and>
     h_env host ''AWS_ACCESS_KEY_ID'' = None \<and> h_env host ''AWS_SECRET_ACCESS_KEY'' = None"

lemma try_bind_simps [simp]:
  "try_bind (Done (Inr x)) f = f x" "try_bind (Done (Inl e)) f = Done (Inl e)" "try_bind (Panicked p) f = Panicked p"
  by (simp_all add: try_bind_def)

lemma resolve_profile_guard:
  assumes "resolve_profile_credentials host config = Done (Inr (Some p))"
  shows "profile_allowed host config"
  using assms by (auto simp: resolve_profile_credentials_def profile_allowed_def Let_def split: if_splits)

lemma set_if_creds:
  assumes "builder_ok sb creds"
  shows "creds (set_if (sb_access_key_id sb) v b) = (case creds b of (a, s, t) \<Rightarrow> (or_else v a, s, t))"
    "creds (set_if (sb_secret_access_key sb) v b) = (case creds b of (a, s, t) \<Rightarrow> (a, or_else v s, t))"
    "creds (set_if (sb_token sb) v b) = (case creds b of (a, s, t) \<Rightarrow> (a, s, or_else v t))"
  using assms by (cases v; simp add: builder_ok_def set_if_def or_else_def split: prod.splits)+

lemma parse_profile_file_ok: "\<exists>P. parse_profile_file host path = Inr P"
  by (cases "h_read host path") (simp_all add: parse_profile_file_def)

lemma resolve_never_fails: "resolve_profile_credentials host config \<noteq> Done (Inl e)"
proof -
  have "exec_bind m (\<lambda>p. exec_bind (m' p) (\<lambda>q. try_bind (Done (parse_profile_file host p)) (\<lambda>c.
      try_bind (Done (parse_profile_file host q)) (\<lambda>d. Done (Inr (g c d)))))) \<noteq> Done (Inl e)" for m m'
    and g :: "profiles \<Rightarrow> profiles \<Rightarrow> shared_profile_credentials option"
  proof (cases m)
    case (Done p)
    obtain P where P: "parse_profile_file host p = Inr P" using parse_profile_file_ok by blast
    show ?thesis
    proof (cases "m' p")
      case (Done q)
      obtain Q where "parse_profile_file host q = Inr Q" using parse_profile_file_ok by blast
      with P Done \<open>m = exec.Done p\<close> show ?thesis by simp
    qed (simp add: Done)
  qed simp
  then show ?thesis by (simp add: resolve_profile_credentials_def Let_def)
qed

text \<open>
  The builder in two parts: what precedes the profile, and what follows it.
\<close>

lemma build_bucket_parts:
  assumes "builder_ok sb creds"
  shows "\<exists>b1 finish.
    creds b1 = (if explicit_credentials config then (None, None, None) else creds (sb_from_env sb (h_env host))) \<and>
    (\<forall>b. creds (finish b) = (case creds b of (a, s, t) \<Rightarrow>
       (or_else (osc_access_key config) a, or_else (osc_secret_key config) s, or_else (osc_session_token config) t))) \<and>
    build_bucket sb host config =
      try_bind (if \<not> explicit_credentials config
        then try_bind (resolve_profile_credentials host config) (\<lambda>profile. Done (Inr (with_profile sb profile b1)))
        else Done (Inr b1)) (\<lambda>b. Done (case sb_build sb (finish b) of Inr store \<Rightarrow> Inr store | Inl error \<Rightarrow> Inl (ConfigurationError error)))"
proof -
  define base where "base = sb_bucket_name sb (osc_bucket config) (sb_region sb (osc_region config)
    (if explicit_credentials config then sb_new sb else sb_from_env sb (h_env host)))"
  define b1 where "b1 = (case osc_url config of Some endpoint \<Rightarrow>
      if trim endpoint \<noteq> [] then sb_allow_http sb (prefix ''http://'' endpoint) (sb_endpoint sb endpoint base) else base
    | None \<Rightarrow> base)"
  define finish where "finish b = sb_retry sb OBJECT_STORE_MAX_RETRIES OBJECT_STORE_RETRY_TIMEOUT
    (sb_client_options sb OBJECT_STORE_CONNECT_TIMEOUT OBJECT_STORE_REQUEST_TIMEOUT
    (set_if (sb_token sb) (osc_session_token config) (set_if (sb_secret_access_key sb) (osc_secret_key config)
    (set_if (sb_access_key_id sb) (osc_access_key config) b))))" for b
  have b1: "creds b1 = (if explicit_credentials config then (None, None, None) else creds (sb_from_env sb (h_env host)))"
    using assms by (simp add: b1_def base_def builder_ok_def split: option.split)
  have fin: "creds (finish b) = (case creds b of (a, s, t) \<Rightarrow>
      (or_else (osc_access_key config) a, or_else (osc_secret_key config) s, or_else (osc_session_token config) t))" for b
  proof -
    have "creds (finish b) = creds (set_if (sb_token sb) (osc_session_token config)
      (set_if (sb_secret_access_key sb) (osc_secret_key config) (set_if (sb_access_key_id sb) (osc_access_key config) b)))"
      using assms by (simp add: finish_def builder_ok_def)
    then show ?thesis by (simp add: set_if_creds[OF assms] split: prod.split)
  qed
  have bucket: "build_bucket sb host config =
      try_bind (if \<not> explicit_credentials config
        then try_bind (resolve_profile_credentials host config) (\<lambda>profile. Done (Inr (with_profile sb profile b1)))
        else Done (Inr b1)) (\<lambda>b. Done (case sb_build sb (finish b) of Inr store \<Rightarrow> Inr store | Inl error \<Rightarrow> Inl (ConfigurationError error)))"
    unfolding build_bucket_def Let_def b1_def base_def finish_def explicit_credentials_def ..
  show ?thesis using b1 fin bucket by blast
qed


text \<open>A builder that keeps what it is given.\<close>

definition plain_builder :: "(credentials, credentials) s3_builder" where
  "plain_builder =
     \<lparr>sb_new = (None, None, None),
      sb_from_env = (\<lambda>env. (env ''AWS_ACCESS_KEY_ID'', env ''AWS_SECRET_ACCESS_KEY'', env ''AWS_SESSION_TOKEN'')),
      sb_region = (\<lambda>_ b. b), sb_bucket_name = (\<lambda>_ b. b), sb_endpoint = (\<lambda>_ b. b), sb_allow_http = (\<lambda>_ b. b),
      sb_access_key_id = (\<lambda>x (a, s, t). (Some x, s, t)), sb_secret_access_key = (\<lambda>x (a, s, t). (a, Some x, t)),
      sb_token = (\<lambda>x (a, s, t). (a, s, Some x)), sb_client_options = (\<lambda>_ _ b. b), sb_retry = (\<lambda>_ _ b. b),
      sb_build = Inr\<rparr>"

definition example_storage_config :: object_storage_config where
  "example_storage_config =
     \<lparr>osc_local_dir = None, osc_url = Some ''http://localhost:9000'', osc_region = ''eu-north-1'', osc_bucket = ''gresse'',
      osc_access_key = None, osc_secret_key = None, osc_session_token = None,
      osc_persistent_replica_path = ''state.json'', osc_membership_directory_path = ''members'', osc_discovery_interval = 1000\<rparr>"


end
