(* ===== verification/Http.thy ===== *)
theory Http
  imports Replica_Protocol Orset
begin

text \<open>
  The HTTP interface: the server that answers client requests (\<^verbatim>\<open>src/src/http_server.rs\<close>) on top
  of the replica's data plane, and the client with its bounded retries
  (\<^verbatim>\<open>src/src/http_client.rs\<close>). The HTTP library is the parameters \<open>send_request\<close> and \<open>valid\<close>, the
  encoding of requests and responses the parameters \<open>de\<close> and \<open>ser\<close>; a body that cannot be
  received is \<open>None\<close>. Bodies are taken as ASCII.
\<close>

section \<open>Data\<close>

datatype http_error = SerdeJson | Hyper | HyperHttp

record http_request =
  hr_uri :: string
  hr_version :: string
  hr_headers :: "(string \<times> string) list"
  hr_body :: string


section \<open>The server\<close>

definition client_req_from_incoming ::
  "(string \<Rightarrow> ('m, 'q) client_request option) \<Rightarrow> string option \<Rightarrow> http_error + ('m, 'q) client_request" where
  "client_req_from_incoming de incoming =
     (case incoming of
        None \<Rightarrow> Inl Hyper
      | Some bytes \<Rightarrow> (case de bytes of None \<Rightarrow> Inl SerdeJson | Some request \<Rightarrow> Inr request))"

text \<open>
  The handler of one request: the state it leaves and the response, an error, or a panic, which
  ends the task of the connection. A mutation that could not be journaled leaves the journal as
  the failed write left it.
\<close>

definition handle_request ::
  "('s, 'd, 'x, 'q, 'm, 'r) crdt_ops \<Rightarrow> ('v, 's, 'd, 'x, 'm) codec \<Rightarrow>
   (string \<Rightarrow> ('m, 'q) client_request option) \<Rightarrow> ('r \<Rightarrow> string option) \<Rightarrow> io_outcome \<Rightarrow> string option \<Rightarrow>
   ('s, 'w) replica \<Rightarrow> ('s, 'w) replica \<times> (http_error + string) exec" where
  "handle_request ops c de ser io incoming self =
     (case client_req_from_incoming de incoming of
        Inl e \<Rightarrow> (self, Done (Inl e))
      | Inr (Query arg) \<Rightarrow> (self, exec_map Inr (unwrap (ser (op_query ops (rp_crdt self) arg))))
      | Inr (Mutation mutation) \<Rightarrow>
          (case handle_client_mutation ops c io mutation self of
             Done (self', response) \<Rightarrow> (self', exec_map Inr (unwrap (ser response)))
           | Panicked p \<Rightarrow> (self\<lparr>rp_journal := fst (append_mutation c io mutation (rp_journal self))\<rparr>, Panicked p)))"

text \<open>
  The server: whether it still accepts connections, the connections being served, and the
  responses sent. A connection whose request is answered by an error or ends in a panic is
  closed. A shutdown ends the loop that accepts connections; connections that are open go on. \<open>bound\<close> is whether the
  listener could be bound.
\<close>

record ('s, 'w) http_server =
  hs_replica :: "('s, 'w) replica"
  hs_listening :: bool
  hs_open :: "nat list"
  hs_sent :: "(nat \<times> string) list"

datatype http_event = Accepted nat | AcceptError | Request nat io_outcome "string option" | ShutdownSignal

definition launch_http_server :: "unit option \<Rightarrow> ('s, 'w) replica \<Rightarrow> ('s, 'w) http_server exec" where
  "launch_http_server bound self =
     exec_bind (expect ''Failed to bind to http address'' bound) (\<lambda>_.
       Done \<lparr>hs_replica = self, hs_listening = True, hs_open = [], hs_sent = []\<rparr>)"

definition handle_http_connection ::
  "('s, 'd, 'x, 'q, 'm, 'r) crdt_ops \<Rightarrow> ('v, 's, 'd, 'x, 'm) codec \<Rightarrow>
   (string \<Rightarrow> ('m, 'q) client_request option) \<Rightarrow> ('r \<Rightarrow> string option) \<Rightarrow> nat \<Rightarrow> io_outcome \<Rightarrow> string option \<Rightarrow>
   ('s, 'w) http_server \<Rightarrow> ('s, 'w) http_server" where
  "handle_http_connection ops c de ser conn io incoming srv =
     (case handle_request ops c de ser io incoming (hs_replica srv) of
        (self, Done (Inr body)) \<Rightarrow> srv\<lparr>hs_replica := self, hs_sent := hs_sent srv @ [(conn, body)]\<rparr>
      | (self, _) \<Rightarrow> srv\<lparr>hs_replica := self, hs_open := filter (\<lambda>x. x \<noteq> conn) (hs_open srv)\<rparr>)"

fun http_server_loop ::
  "('s, 'd, 'x, 'q, 'm, 'r) crdt_ops \<Rightarrow> ('v, 's, 'd, 'x, 'm) codec \<Rightarrow>
   (string \<Rightarrow> ('m, 'q) client_request option) \<Rightarrow> ('r \<Rightarrow> string option) \<Rightarrow> http_event \<Rightarrow>
   ('s, 'w) http_server \<Rightarrow> ('s, 'w) http_server" where
  "http_server_loop ops c de ser (Accepted conn) srv =
     (if hs_listening srv then srv\<lparr>hs_open := conn # hs_open srv\<rparr> else srv)"
| "http_server_loop ops c de ser AcceptError srv = srv"
| "http_server_loop ops c de ser (Request conn io incoming) srv =
     (if conn \<in> set (hs_open srv) then handle_http_connection ops c de ser conn io incoming srv else srv)"
| "http_server_loop ops c de ser ShutdownSignal srv = srv\<lparr>hs_listening := False\<rparr>"


section \<open>The client\<close>

record 'st http_client =
  hc_sender :: 'st
  hc_host :: string
  hc_uri :: string

text \<open>
  The construction of a client: \<open>connected\<close> is the stream, if the server could be reached, and
  \<open>handshake\<close> the library's handshake on it.
\<close>

definition http_client_new ::
  "'c option \<Rightarrow> ('c \<Rightarrow> 'st option) \<Rightarrow> string \<Rightarrow> string \<Rightarrow> 'st http_client exec" where
  "http_client_new connected handshake host uri =
     (case connected of
        None \<Rightarrow> Panicked (PanicMessage ''Failed to connect to server'')
      | Some stream \<Rightarrow>
          exec_map (\<lambda>sender. \<lparr>hc_sender = sender, hc_host = host, hc_uri = uri\<rparr>) (unwrap (handshake stream)))"

definition MAX_RETRIES :: nat where
  "MAX_RETRIES = 10"

definition build_http_request ::
  "('a \<Rightarrow> string option) \<Rightarrow> (http_request \<Rightarrow> bool) \<Rightarrow> string \<Rightarrow> string \<Rightarrow> 'a \<Rightarrow> http_error + http_request" where
  "build_http_request ser valid host uri request =
     (case ser request of
        None \<Rightarrow> Inl SerdeJson
      | Some body \<Rightarrow>
          (let content_length = show_digits (int (length body));
               req = \<lparr>hr_uri = uri, hr_version = ''HTTP/1.1'',
                      hr_headers = [(''host'', host), (''user-agent'', ''curl/8.6.0''), (''content-length'', content_length),
                                    (''content-type'', ''application/json''), (''accept'', ''*/*'')],
                      hr_body = body\<rparr>
           in if valid req then Inr req else Inl HyperHttp))"

text \<open>
  The loop of \<open>send\<close>. The connection's state is \<open>st\<close>; a request that is answered has a body, which
  may fail to arrive.
\<close>

function send_attempt ::
  "(http_request \<Rightarrow> 'st \<Rightarrow> 'st \<times> string option option) \<Rightarrow> (string \<Rightarrow> 'b option) \<Rightarrow> http_request \<Rightarrow> nat \<Rightarrow> 'st \<Rightarrow>
   'st \<times> (http_error + 'b) exec" where
  "send_attempt send_request de req i st =
     (if MAX_RETRIES \<le> i then (st, Panicked (PanicMessage ''internal error: entered unreachable code: Unreachable code''))
      else (case send_request req st of
          (st', Some None) \<Rightarrow> (st', Done (Inl Hyper))
        | (st', Some (Some bytes)) \<Rightarrow> (st', exec_map Inr (expect ''deserialization'' (de bytes)))
        | (st', None) \<Rightarrow>
            if i = MAX_RETRIES - 1 then (st', Done (Inl Hyper)) else send_attempt send_request de req (i + 1) st'))"
  by pat_completeness auto

termination
  by (relation "measure (\<lambda>(_, _, _, i, _). MAX_RETRIES - i)") auto

declare send_attempt.simps [simp del]

definition http_send ::
  "(http_request \<Rightarrow> 'st \<Rightarrow> 'st \<times> string option option) \<Rightarrow> ('a \<Rightarrow> string option) \<Rightarrow> (string \<Rightarrow> 'b option) \<Rightarrow>
   (http_request \<Rightarrow> bool) \<Rightarrow> 'a \<Rightarrow> 'st http_client \<Rightarrow> 'st http_client \<times> (http_error + 'b) exec" where
  "http_send send_request ser de valid request self =
     (case build_http_request ser valid (hc_host self) (hc_uri self) request of
        Inl e \<Rightarrow> (self, Done (Inl e))
      | Inr req \<Rightarrow>
          (case send_attempt send_request de req 0 (hc_sender self) of
             (sender, result) \<Rightarrow> (self\<lparr>hc_sender := sender\<rparr>, result)))"


section \<open>The retry loop\<close>

text \<open>The state of the connection after some attempts.\<close>

definition after :: "(http_request \<Rightarrow> 'st \<Rightarrow> 'st \<times> string option option) \<Rightarrow> http_request \<Rightarrow> nat \<Rightarrow> 'st \<Rightarrow> 'st" where
  "after send_request req n = (\<lambda>st. fst (send_request req st)) ^^ n"

definition reply :: "(http_request \<Rightarrow> 'st \<Rightarrow> 'st \<times> string option option) \<Rightarrow> http_request \<Rightarrow> nat \<Rightarrow> 'st \<Rightarrow> string option option" where
  "reply send_request req n st = snd (send_request req (after send_request req n st))"

definition answer :: "(string \<Rightarrow> 'b option) \<Rightarrow> string option \<Rightarrow> (http_error + 'b) exec" where
  "answer de body = (case body of None \<Rightarrow> Done (Inl Hyper) | Some bytes \<Rightarrow> exec_map Inr (expect ''deserialization'' (de bytes)))"

lemma after_Suc: "after send_request req (Suc n) st = after send_request req n (fst (send_request req st))"
  by (simp only: after_def funpow_Suc_right o_apply)

lemma reply_Suc: "reply send_request req (Suc n) st = reply send_request req n (fst (send_request req st))"
  by (simp add: reply_def after_Suc)

lemma send_attempt_loop:
  assumes "i + n = MAX_RETRIES" "0 < n"
  shows "\<exists>k < n. (\<forall>j < k. reply send_request req j st = None) \<and>
    (case reply send_request req k st of
       Some body \<Rightarrow> send_attempt send_request de req i st = (after send_request req (Suc k) st, answer de body)
     | None \<Rightarrow> Suc k = n \<and> send_attempt send_request de req i st = (after send_request req n st, Done (Inl Hyper)))"
  using assms
proof (induction n arbitrary: i st)
  case (Suc n)
  obtain st' r where s: "send_request req st = (st', r)" by (cases "send_request req st")
  have first: "reply send_request req 0 st = r" "after send_request req (Suc 0) st = st'"
    by (simp_all add: reply_def after_def s)
  have i: "\<not> MAX_RETRIES \<le> i" using Suc.prems by simp
  show ?case
  proof (cases r)
    case (Some body)
    then have "send_attempt send_request de req i st = (st', answer de body)"
      using i by (subst send_attempt.simps) (simp add: s answer_def split: option.split)
    then show ?thesis using Some first by (intro exI[of _ 0]) simp
  next
    case None
    show ?thesis
    proof (cases n)
      case 0
      then have "i = MAX_RETRIES - 1" using Suc.prems by simp
      then have "send_attempt send_request de req i st = (st', Done (Inl Hyper))"
        using i by (subst send_attempt.simps) (simp add: s None)
      then show ?thesis using None first 0 by (intro exI[of _ 0]) simp
    next
      case (Suc m)
      have step: "send_attempt send_request de req i st = send_attempt send_request de req (i + 1) st'"
      proof -
        have "i \<noteq> MAX_RETRIES - 1" using Suc Suc.prems by simp
        then show ?thesis using i by (subst send_attempt.simps) (simp add: s None)
      qed
      obtain k where k: "k < n" "\<forall>j < k. reply send_request req j st' = None"
        "case reply send_request req k st' of
           Some body \<Rightarrow> send_attempt send_request de req (i + 1) st' = (after send_request req (Suc k) st', answer de body)
         | None \<Rightarrow> Suc k = n \<and> send_attempt send_request de req (i + 1) st' = (after send_request req n st', Done (Inl Hyper))"
        using Suc.IH[of "i + 1" st'] Suc.prems Suc by auto
      have tail: "reply send_request req (Suc j) st = reply send_request req j st'"
        "after send_request req (Suc j) st = after send_request req j st'" for j
        by (simp_all add: reply_Suc after_Suc s)
      have "\<forall>j < Suc k. reply send_request req j st = None"
        using k(2) first(1) None by (auto simp: less_Suc_eq_0_disj tail)
      then show ?thesis using k(1,3) by (intro exI[of _ "Suc k"]) (simp add: tail step split: option.splits)
    qed
  qed
qed simp


section \<open>Serving requests\<close>

lemma handle_request_durable:
  assumes "codec_exact c" "ops_total ops" "durable_inv ops c self"
  shows "durable_inv ops c (fst (handle_request ops c de ser io_ok incoming self)) \<and>
    rp_pid (fst (handle_request ops c de ser io_ok incoming self)) = rp_pid self"
proof (cases "client_req_from_incoming de incoming")
  case (Inr request)
  then show ?thesis
  proof (cases request)
    case (Mutation m)
    obtain jd r where jd: "append_mutation c io_ok m (rp_journal self) = (jd, r)"
      by (cases "append_mutation c io_ok m (rp_journal self)")
    obtain s resp where s: "op_mutate ops (rp_crdt self) m = Done (s, resp)"
      using assms(2) unfolding ops_total_def by blast
    show ?thesis
    proof (cases r)
      case (Inl e)
      then have "jd = rp_journal self"
        using jd by (auto simp: append_mutation_def append_record_locked_def io_ok_def Let_def
            split: prod.splits if_splits option.splits)
      then show ?thesis using assms(3) Inr Mutation jd Inl by (simp add: handle_request_def handle_client_mutation_def)
    next
      case (Inr u)
      then have "handle_client_mutation ops c io_ok m self = Done (self\<lparr>rp_journal := jd, rp_crdt := s\<rparr>, resp)"
        by (simp add: handle_client_mutation_def jd s)
      with mutation_durable[OF assms(1,3) this] Mutation \<open>client_req_from_incoming de incoming = Inr request\<close>
      show ?thesis by (simp add: handle_request_def)
    qed
  qed (simp add: handle_request_def assms(3))
qed (simp add: handle_request_def assms(3))

definition event_io_ok :: "http_event \<Rightarrow> bool" where
  "event_io_ok ev = (case ev of Request _ io _ \<Rightarrow> io = io_ok | _ \<Rightarrow> True)"

lemma http_server_loop_durable:
  assumes "codec_exact c" "ops_total ops" "durable_inv ops c (hs_replica srv)" "event_io_ok ev"
  shows "durable_inv ops c (hs_replica (http_server_loop ops c de ser ev srv)) \<and>
    rp_pid (hs_replica (http_server_loop ops c de ser ev srv)) = rp_pid (hs_replica srv)"
proof (cases ev)
  case (Request conn io incoming)
  then have "io = io_ok" using assms(4) by (simp add: event_io_ok_def)
  with handle_request_durable[OF assms(1-3), of de ser incoming] assms(3) Request show ?thesis
    by (auto simp: handle_http_connection_def split: prod.splits exec.splits sum.splits)
qed (use assms(3) in simp_all)

lemma http_server_run_durable:
  assumes "codec_exact c" "ops_total ops" "durable_inv ops c (hs_replica srv)" "list_all event_io_ok events"
  shows "durable_inv ops c (hs_replica (fold (http_server_loop ops c de ser) events srv)) \<and>
    rp_pid (hs_replica (fold (http_server_loop ops c de ser) events srv)) = rp_pid (hs_replica srv)"
  using assms(3,4)
proof (induction events arbitrary: srv)
  case (Cons ev events)
  then show ?case using http_server_loop_durable[OF assms(1,2) Cons.prems(1), of ev de ser] by simp
qed simp


section \<open>Replicas of the set for closed examples\<close>

definition unit_codec :: "(unit, nat orset, nat or_set_delta, unit, nat or_set_mutation) codec" where
  "unit_codec =
     \<lparr>js_to_vec = (\<lambda>_. []), js_from_slice = (\<lambda>_. None), js_snapshot_to = (\<lambda>_. None), js_snapshot_from = (\<lambda>_. None),
      js_delta_to = (\<lambda>_. Some ()), js_delta_from = (\<lambda>_. None), js_mutation_to = (\<lambda>_. Some ()),
      js_mutation_from = (\<lambda>_. None), js_marker_to = (\<lambda>_. Some ()), js_marker_from = (\<lambda>_. None)\<rparr>"

definition set_replica :: "pid \<Rightarrow> pid \<Rightarrow> nat orset \<Rightarrow> (nat orset, unit) replica" where
  "set_replica p peer s = \<lparr>rp_crdt = s, rp_wrapper = wrapper_new p, rp_pid = p, rp_address = example_addr,
     rp_network = add_writer (rn_new p) peer (), rp_journal = (journal_disabled, fresh_disk), rp_members = []\<rparr>"

lemma unit_codec_total: "codec_total unit_codec"
proof -
  have "entry_payload unit_codec e \<noteq> None" for e by (cases e) (simp_all add: unit_codec_def)
  then show ?thesis by (simp add: codec_total_def)
qed

lemma set_replica_inv: "p \<noteq> STABLE_REPLICA_PID \<Longrightarrow> replica_inv (set_replica p peer s)"
  using wrapper_inv_new[of p]
  by (simp add: replica_inv_def set_replica_def wrapper_own_pid_def)
    (simp add: wrapper_new_def vm_new_def Let_def)


section \<open>Properties\<close>

text \<open>
  What a request does, on every branch. A body that does not arrive or is not a request is
  answered by an error and changes nothing; a query is answered from the current state and
  changes nothing; a mutation is answered only after its record is in the journal and the CRDT
  has applied it, and when the journal refuses it the CRDT is unchanged and nothing is answered.
\<close>

theorem http_request_outcome:
  "handle_request ops c de ser io incoming self =
    (case Option.bind incoming de of
       None \<Rightarrow> (self, Done (Inl (if incoming = None then Hyper else SerdeJson)))
     | Some (Query q) \<Rightarrow> (self, exec_map Inr (unwrap (ser (op_query ops (rp_crdt self) q))))
     | Some (Mutation m) \<Rightarrow>
         (case append_mutation c io m (rp_journal self) of
            (jd, Inl _) \<Rightarrow> (self\<lparr>rp_journal := jd\<rparr>, Panicked (PanicMessage ''Failed to append durable client mutation''))
          | (jd, Inr _) \<Rightarrow>
              (case op_mutate ops (rp_crdt self) m of
                 Done (s, r) \<Rightarrow> (self\<lparr>rp_journal := jd, rp_crdt := s\<rparr>, exec_map Inr (unwrap (ser r)))
               | Panicked p \<Rightarrow> (self\<lparr>rp_journal := jd\<rparr>, Panicked p))))"
  by (cases incoming)
    (auto simp: handle_request_def client_req_from_incoming_def handle_client_mutation_def
      split: option.splits client_request.splits prod.splits sum.splits exec.splits)

text \<open>
  What the server acknowledged survives a crash. Whatever connections are accepted, whatever
  they send (unreadable bodies included) and whether or not the server is told to stop, a
  process restarted on the journal after any of these events resumes with exactly the state the
  server had answered from, under the same identity.
\<close>

theorem acknowledged_mutations_survive:
  assumes "codec_exact c" "ops_total ops" "durable_inv ops c self" "list_all event_io_ok events"
    and "sa_create ans \<noteq> None" "sa_list ans = Some members"
    and "launch_http_server bound self = Done srv0" "srv = fold (http_server_loop ops c de ser) events srv0"
  shows "\<exists>j self' fx. journal_new c Locked (snd (rp_journal (hs_replica srv))) = Inr j \<and>
    with_config ops c io ans stored p crdt addr (j, snd (rp_journal (hs_replica srv))) = Done (self', fx) \<and>
    rp_pid self' = rp_pid self \<and> rp_crdt self' = op_set_pid ops (rp_crdt (hs_replica srv)) (rp_pid self)"
proof -
  have "hs_replica srv0 = self" using assms(7) by (auto simp: launch_http_server_def exec_simps)
  then have "durable_inv ops c (hs_replica srv)" "rp_pid (hs_replica srv) = rp_pid self"
    using http_server_run_durable[OF assms(1,2) _ assms(4), of srv0 de ser] assms(3) by (simp_all add: assms(8))
  then show ?thesis using restart_restores[OF assms(1) _ assms(5,6), of ops "hs_replica srv" io stored p crdt addr] by metis
qed

definition example_de :: "string \<Rightarrow> (nat, unit) client_request option" where
  "example_de s = (if s = ''?'' then Some (Query ()) else map_option (\<lambda>n. Mutation (nat n)) (parse_digits s))"

definition example_requests :: "http_event list" where
  "example_requests = [Accepted 1, Request 1 io_ok (Some ''5''), Accepted 2, Request 2 io_ok (Some ''x''), ShutdownSignal,
     Request 1 io_ok (Some ''2''), Accepted 3, Request 3 io_ok (Some ''9'')]"

theorem acknowledged_mutations_survive_witness:
  "\<exists>self0 fx0 srv0 srv. example_start = Done (self0, fx0) \<and> launch_http_server (Some ()) self0 = Done srv0 \<and>
     srv = fold (http_server_loop counter_ops exact_codec example_de (\<lambda>_. Some ''ok'')) example_requests srv0 \<and>
     rp_crdt (hs_replica srv) = 7 \<and> hs_sent srv = [(1, ''ok''), (1, ''ok'')] \<and>
     (\<exists>j (self' :: (nat, unit) replica) fx. journal_new exact_codec Locked (snd (rp_journal (hs_replica srv))) = Inr j \<and>
        with_config counter_ops exact_codec io_ok example_answers None 9 100 example_addr
          (j, snd (rp_journal (hs_replica srv))) = Done (self', fx) \<and>
        rp_crdt self' = op_set_pid counter_ops (rp_crdt (hs_replica srv)) 7)"
proof -
  let ?run = "\<lambda>self. fold (http_server_loop counter_ops exact_codec example_de (\<lambda>_. Some ''ok'')) example_requests
    \<lparr>hs_replica = self, hs_listening = True, hs_open = [], hs_sent = []\<rparr>"
  have "case example_start of Done (self, fx) \<Rightarrow> rp_crdt (hs_replica (?run self)) = 7 \<and>
      hs_sent (?run self) = [(1, ''ok''), (1, ''ok'')] | Panicked _ \<Rightarrow> False" by code_simp
  then obtain self0 fx0 where run: "example_start = Done (self0, fx0)" "rp_crdt (hs_replica (?run self0)) = 7"
    "hs_sent (?run self0) = [(1, ''ok''), (1, ''ok'')]" by (auto split: exec.splits)
  have pid: "(7 :: pid) \<noteq> STABLE_REPLICA_PID" by (simp add: STABLE_REPLICA_PID_def)
  have start: "durable_inv counter_ops exact_codec self0" "rp_pid self0 = 7"
    using first_start_durable[OF exact_codec_exact _ _ pid _ run(1)[unfolded example_start_def]] by simp_all
  have io: "list_all event_io_ok example_requests" by (simp add: example_requests_def event_io_ok_def)
  have ans: "sa_create example_answers \<noteq> None" "sa_list example_answers = Some []" by (simp_all add: example_answers_def)
  have launch: "launch_http_server (Some ()) self0 =
      Done \<lparr>hs_replica = self0, hs_listening = True, hs_open = [], hs_sent = []\<rparr>" by (simp add: launch_http_server_def)
  obtain srv where srv: "srv = ?run self0" by blast
  obtain j and self' :: "(nat, unit) replica" and fx where r:
    "journal_new exact_codec Locked (snd (rp_journal (hs_replica srv))) = Inr j"
    "with_config counter_ops exact_codec io_ok example_answers None 9 100 example_addr
       (j, snd (rp_journal (hs_replica srv))) = Done (self', fx)"
    "rp_crdt self' = op_set_pid counter_ops (rp_crdt (hs_replica srv)) (rp_pid self0)"
    using acknowledged_mutations_survive[OF exact_codec_exact counter_total(1) start(1) io ans launch srv,
        of io_ok None 9 100 example_addr] by metis
  show ?thesis
    by (intro exI conjI, rule run(1), rule launch, rule srv, rule run(2)[folded srv], rule run(3)[folded srv], rule r(1), rule r(2))
      (rule r(3)[unfolded start(2)])
qed

text \<open>
  C31: the client's retries end. A client exists exactly if the server was reached and the handshake
  succeeded. Sending a request makes at most ten attempts: it returns the answer to the first
  attempt that is answered, reports an error after exactly ten that are not, and never reaches
  the code marked unreachable; a request that cannot be built is not sent.
\<close>

theorem send_bounded:
  "((\<exists>client. http_client_new connected handshake host uri = Done client) \<longleftrightarrow> Option.bind connected handshake \<noteq> None) \<and>
   (case build_http_request ser valid (hc_host self) (hc_uri self) request of
     Inl e \<Rightarrow> http_send send_request ser de valid request self = (self, Done (Inl e))
   | Inr req \<Rightarrow> \<exists>k < 10. list_all (\<lambda>j. reply send_request req j (hc_sender self) = None) [0..<k] \<and>
       (case reply send_request req k (hc_sender self) of
          Some body \<Rightarrow> http_send send_request ser de valid request self =
            (self\<lparr>hc_sender := after send_request req (k + 1) (hc_sender self)\<rparr>, answer de body)
        | None \<Rightarrow> k = 9 \<and> http_send send_request ser de valid request self =
            (self\<lparr>hc_sender := after send_request req 10 (hc_sender self)\<rparr>, Done (Inl Hyper))))"
proof -
  let ?st = "hc_sender self"
  have new: "(\<exists>client. http_client_new connected handshake host uri = Done client) \<longleftrightarrow> Option.bind connected handshake \<noteq> None"
    by (cases connected) (auto simp: http_client_new_def exec_simps)
  show ?thesis
  proof (cases "build_http_request ser valid (hc_host self) (hc_uri self) request")
    case (Inr req)
    obtain k where k: "k < 10" "\<forall>j < k. reply send_request req j ?st = None"
      "case reply send_request req k ?st of
         Some body \<Rightarrow> send_attempt send_request de req 0 ?st = (after send_request req (Suc k) ?st, answer de body)
       | None \<Rightarrow> Suc k = 10 \<and> send_attempt send_request de req 0 ?st = (after send_request req 10 ?st, Done (Inl Hyper))"
      using send_attempt_loop[of 0 10 send_request req ?st de] by (auto simp: MAX_RETRIES_def)
    show ?thesis using new unfolding Inr sum.case http_send_def using k
      by (intro conjI, simp, intro exI[of _ k]) (simp add: list_all_iff split: option.splits)
  qed (use new in \<open>simp add: http_send_def\<close>)
qed

lemma orset_insert_effect:
  assumes "orset_pid s = Some p" "is_i64 (dotset_get (orset_version_vector s) p)"
    "dotset_get (orset_version_vector s) p < i64_max"
  shows "\<exists>s'. orset_mutate s (MutInsert e) = Done (s', Inr Acknowledged) \<and> orset_dots s' e \<noteq> [] \<and>
    hm_get (orset_version_vector s') p = Some (dotset_get (orset_version_vector s) p + 1)"
proof -
  obtain t where t: "increment_and_get (orset_version_vector s) p = Done (t, Dot p (dotset_get (orset_version_vector s) p + 1))"
    "hm_get t p = Some (dotset_get (orset_version_vector s) p + 1)"
    using increment_and_get_total[of "orset_version_vector s" p] i64_add_1[OF assms(2,3)] by auto
  then show ?thesis using assms(1) by (auto simp: orset_mutate_def next_dot_def Let_def)
qed

text \<open>
  C39: the window during shutdown. The final state of a leaving replica is published before the
  HTTP server stops, and open connections are served even after. An insertion acknowledged in
  that window is in no state another replica can learn: the published state does not contain the
  element, the published final counter is below the insertion's dot, and no peer is left to send
  it to.
\<close>

theorem shutdown_window_loses_mutations:
  assumes "replica_shutdown orset_ops self = (self1, fx)" "orset_pid (rp_crdt self) = Some (rp_pid self)"
    and "is_i64 (dotset_get (orset_version_vector (rp_crdt self)) (rp_pid self))"
    and "dotset_get (orset_version_vector (rp_crdt self)) (rp_pid self) < i64_max"
    and "orset_query (rp_crdt self) (QueryContains e) = Inr (RespContains False)"
    and "Option.bind incoming de = Some (Mutation (MutInsert e))"
    and "handle_request orset_ops c de ser io incoming self1 = (self2, Done (Inr body))"
  shows "\<exists>d final n. fx = [CreateShutdownDescriptor d final] \<and>
    orset_query final (QueryContains e) = Inr (RespContains False) \<and>
    orset_query (rp_crdt self2) (QueryContains e) = Inr (RespContains True) \<and>
    rd_final_counter d = Some n \<and> counter_of (orset_version_vector (rp_crdt self2)) (rp_pid self) = Some (n + 1) \<and>
    hm_is_empty (rn_writers (rp_network self2))"
proof -
  let ?n = "dotset_get (orset_version_vector (rp_crdt self)) (rp_pid self)"
  obtain s where s: "orset_mutate (rp_crdt self) (MutInsert e) = Done (s, Inr Acknowledged)" "orset_dots s e \<noteq> []"
    "hm_get (orset_version_vector s) (rp_pid self) = Some (?n + 1)"
    using orset_insert_effect[OF assms(2-4), of e] by blast
  have self1: "self1 = self\<lparr>rp_network := rn_shutdown (rp_network self)\<rparr>" and fx: "fx = write_shutdown_descriptor orset_ops self"
    using assms(1) by (simp_all add: replica_shutdown_def)
  have "client_req_from_incoming de incoming = Inr (Mutation (MutInsert e))"
    using assms(6) by (cases incoming) (simp_all add: client_req_from_incoming_def)
  with assms(7) s(1) have self2: "rp_crdt self2 = s \<and> rp_network self2 = rn_shutdown (rp_network self)"
    by (auto simp: handle_request_def handle_client_mutation_def self1 orset_ops_def
        split: prod.splits sum.splits exec.splits)
  have n: "(case counter_of (orset_version_vector (rp_crdt self)) (rp_pid self) of Some n \<Rightarrow> n | None \<Rightarrow> -1) = ?n"
    by (simp add: counter_of_def dotset_get_def)
  show ?thesis
    using assms(5) self2 s(2,3)
    by (auto simp: fx write_shutdown_descriptor_def Let_def n[unfolded counter_of_def] counter_of_def orset_query_contains orset_ops_def
        rn_shutdown_def simp del: orset_query.simps)
qed

theorem shutdown_window_loses_mutations_witness:
  "\<exists>d final n (self2 :: (nat orset, unit) replica).
     snd (replica_shutdown orset_ops (set_replica 2 1 (orset_set_pid orset_new 2))) = [CreateShutdownDescriptor d final] \<and>
     snd (handle_request orset_ops unit_codec (\<lambda>s. Some (Mutation (MutInsert 7))) (\<lambda>_. Some ''ok'') io_ok (Some ''{}'')
       (fst (replica_shutdown orset_ops (set_replica 2 1 (orset_set_pid orset_new 2))))) = Done (Inr ''ok'') \<and>
     orset_query final (QueryContains 7) = Inr (RespContains False) \<and>
     orset_query (rp_crdt self2) (QueryContains 7) = Inr (RespContains True) \<and> rd_final_counter d = Some n \<and>
     counter_of (orset_version_vector (rp_crdt self2)) 2 = Some (n + 1)"
proof -
  let ?self = "set_replica 2 1 (orset_set_pid orset_new 2)"
  let ?req = "handle_request orset_ops unit_codec (\<lambda>s. Some (Mutation (MutInsert 7))) (\<lambda>_. Some ''ok'') io_ok (Some ''{}'')"
  obtain self1 fx where sh: "replica_shutdown orset_ops ?self = (self1, fx)" by fastforce
  have ok: "snd (?req (fst (replica_shutdown orset_ops ?self))) = Done (Inr ''ok'')" by code_simp
  then obtain self2 where req: "?req self1 = (self2, Done (Inr ''ok''))"
    by (cases "?req self1") (simp add: sh)
  have h: "orset_pid (rp_crdt ?self) = Some (rp_pid ?self)"
    "dotset_get (orset_version_vector (rp_crdt ?self)) (rp_pid ?self) = -1"
    "orset_query (rp_crdt ?self) (QueryContains 7) = Inr (RespContains False)" "rp_pid ?self = 2"
    by (simp_all add: set_replica_def orset_set_pid_def orset_new_def dotset_get_def dotset_new_def)
  have i: "is_i64 (dotset_get (orset_version_vector (rp_crdt ?self)) (rp_pid ?self))"
    "dotset_get (orset_version_vector (rp_crdt ?self)) (rp_pid ?self) < i64_max"
    by (simp_all add: h(2) is_i64_def)
  have d: "Option.bind (Some ''{}'') (\<lambda>s. Some (Mutation (MutInsert 7))) = Some (Mutation (MutInsert (7 :: nat)))" by simp
  from shutdown_window_loses_mutations[OF sh h(1) i h(3) d req] ok sh h(4) show ?thesis by auto
qed

end
