(* ===== verification/Network_Stream.thy ===== *)
theory Network_Stream
  imports Network_Layer Configuration
begin

text \<open>
  Peer connections (\<^verbatim>\<open>src/src/network.rs\<close>): the handshake and the framing of messages on a
  stream, the emulated latency, the loop of the network manager with its connection attempts,
  and the replica's side of the channels. A stream is a list of bytes; the encoding of messages
  is the parameters \<open>ser\<close> and \<open>de\<close>. Which bytes arrive, and what the operating system answers, are
  arguments.
\<close>

section \<open>The handshake\<close>

type_synonym bytes = "8 word list"

primrec be_bytes :: "nat \<Rightarrow> int \<Rightarrow> bytes" where
  "be_bytes 0 x = []"
| "be_bytes (Suc n) x = be_bytes n (x div 256) @ [of_int x]"

definition be_value :: "bytes \<Rightarrow> int" where
  "be_value = foldl (\<lambda>acc b. acc * 256 + uint b) 0"

text \<open>\<open>write_u128\<close> and \<open>read_u128\<close>: sixteen bytes, most significant first; a stream that ends earlier is an error.\<close>

definition write_u128 :: "pid \<Rightarrow> bytes" where
  "write_u128 p = be_bytes 16 (uint p)"

definition read_u128 :: "bytes \<Rightarrow> (pid \<times> bytes) option" where
  "read_u128 bs = (if length bs < 16 then None else Some (of_int (be_value (take 16 bs)), drop 16 bs))"

text \<open>What the operating system does during a handshake.\<close>

record handshake_io =
  hi_write_ok :: bool
  hi_in_time :: bool
  hi_ready :: bool

text \<open>The result with the bytes sent and the bytes left to the reader.\<close>

definition establish_connection ::
  "handshake_io \<Rightarrow> pid \<Rightarrow> pid option \<Rightarrow> 'w \<Rightarrow> bytes \<Rightarrow> 'w connection_result \<times> bytes \<times> bytes" where
  "establish_connection io local_pid expected_pid writer incoming =
     (if \<not> hi_write_ok io then (Failed expected_pid, [], incoming)
      else (case read_u128 incoming of
          None \<Rightarrow> (Failed expected_pid, write_u128 local_pid, incoming)
        | Some (p, rest) \<Rightarrow>
            if \<not> hi_in_time io then (Failed expected_pid, write_u128 local_pid, incoming)
            else if \<not> hi_ready io then (Failed expected_pid, write_u128 local_pid, rest)
            else (Established expected_pid p writer, write_u128 local_pid, rest)))"


section \<open>Messages on a stream\<close>

definition bytes_of :: "string \<Rightarrow> bytes" where
  "bytes_of s = map (\<lambda>c. of_nat (of_char c)) s"

definition chars_of :: "bytes \<Rightarrow> string" where
  "chars_of bs = map (\<lambda>b. char_of (unat b)) bs"

text \<open>A write to a stream succeeds or fails after some of its bytes.\<close>

datatype write_outcome = WriteOk | WriteFails nat

definition send_message :: "('t \<Rightarrow> string option) \<Rightarrow> write_outcome \<Rightarrow> 't \<Rightarrow> (bytes \<times> bool) exec" where
  "send_message ser outcome message =
     exec_bind (unwrap (ser message)) (\<lambda>json.
       let line = bytes_of json @ [10]
       in Done (case outcome of WriteOk \<Rightarrow> (line, True) | WriteFails n \<Rightarrow> (take n line, False)))"

text \<open>The bytes a writer puts on the stream for the messages it takes from its channel.\<close>

fun write_loop :: "('t \<Rightarrow> string option) \<Rightarrow> ('t \<times> write_outcome) list \<Rightarrow> bytes exec" where
  "write_loop ser [] = Done []"
| "write_loop ser ((request, outcome) # rest) =
     exec_bind (send_message ser outcome request) (\<lambda>(bs, ok).
       if ok then exec_map (\<lambda>more. bs @ more) (write_loop ser rest) else Done bs)"

text \<open>
  The messages a reader hands to the replica. A line that is not text ends the reader, a line
  that is not a message is skipped. \<open>closes\<close> is after how many messages the receiver goes away.
\<close>

fun read_lines :: "(string \<Rightarrow> bool) \<Rightarrow> (string \<Rightarrow> 't option) \<Rightarrow> nat option \<Rightarrow> string list \<Rightarrow> 't list" where
  "read_lines utf8 de closes [] = []"
| "read_lines utf8 de closes (line # lines) =
     (if \<not> utf8 line then []
      else (case de line of
          None \<Rightarrow> read_lines utf8 de closes lines
        | Some message \<Rightarrow>
            if closes = Some 0 then [] else message # read_lines utf8 de (map_option (\<lambda>n. n - 1) closes) lines))"

definition read_loop :: "(string \<Rightarrow> bool) \<Rightarrow> (string \<Rightarrow> 't option) \<Rightarrow> nat option \<Rightarrow> bytes \<Rightarrow> 't list" where
  "read_loop utf8 de closes bs = read_lines utf8 de closes (str_lines (chars_of bs))"


section \<open>Emulated latency\<close>

text \<open>Durations in milliseconds.\<close>

record latency_profile =
  base_latency :: nat
  jitter :: nat

definition env_duration_ms :: "environment \<Rightarrow> string \<Rightarrow> nat exec" where
  "env_duration_ms env name =
     (case env name of
        None \<Rightarrow> Done 0
      | Some v \<Rightarrow> (case parse_millis v of
            Some n \<Rightarrow> Done n
          | None \<Rightarrow> Panicked (PanicMessage (name @ '' must be an integer number of milliseconds''))))"

definition latency_from_env :: "environment \<Rightarrow> latency_profile exec" where
  "latency_from_env env =
     exec_bind (env_duration_ms env ''GRESSE_REPLICA_NETWORK_LATENCY_MS'') (\<lambda>b.
     exec_bind (env_duration_ms env ''GRESSE_REPLICA_NETWORK_LATENCY_JITTER_MS'') (\<lambda>j.
       Done \<lparr>base_latency = b, jitter = j\<rparr>))"

definition is_enabled :: "latency_profile \<Rightarrow> bool" where
  "is_enabled self \<longleftrightarrow> base_latency self \<noteq> 0 \<or> jitter self \<noteq> 0"

text \<open>\<open>pick\<close> is the random choice in a closed interval.\<close>

definition sample_delay :: "(nat \<Rightarrow> nat \<Rightarrow> nat) \<Rightarrow> latency_profile \<Rightarrow> nat" where
  "sample_delay pick self =
     (if jitter self = 0 then base_latency self
      else (let base_ms = base_latency self mod 2 ^ 64;
                jitter_ms = jitter self mod 2 ^ 64;
                lower = base_ms - jitter_ms;
                upper = min (base_ms + jitter_ms) (2 ^ 64 - 1)
            in pick lower upper))"

text \<open>The time a writer sleeps before a message.\<close>

definition write_delay :: "(nat \<Rightarrow> nat \<Rightarrow> nat) \<Rightarrow> latency_profile \<Rightarrow> nat" where
  "write_delay pick self = (if is_enabled self then sample_delay pick self else 0)"


section \<open>The replica's side\<close>

text \<open>
  The loop of \<open>poll\<close> over what the two channels deliver, up to the message it returns, with what
  is left. \<open>None\<close> as the result is that it still waits, \<open>Some None\<close> that the channel of messages
  is closed.
\<close>

datatype ('t, 'w) poll_event = RemoteEvent 't | ReplicationClosed | NewWriter pid 'w | WritersClosed

fun recv_replication :: "('t, 'w) poll_event list \<Rightarrow> 't option option \<times> ('t, 'w) poll_event list" where
  "recv_replication [] = (None, [])"
| "recv_replication (RemoteEvent m # es) = (Some (Some m), es)"
| "recv_replication (ReplicationClosed # es) = (Some None, es)"
| "recv_replication (e # es) = recv_replication es"

fun rn_poll ::
  "('t, 'w) poll_event list \<Rightarrow> 'w replica_network \<Rightarrow> 'w replica_network \<times> 't option option \<times> ('t, 'w) poll_event list" where
  "rn_poll [] self = (self, None, [])"
| "rn_poll (RemoteEvent m # es) self = (self, Some (Some m), es)"
| "rn_poll (ReplicationClosed # es) self = (self, Some None, es)"
| "rn_poll (NewWriter p writer # es) self = rn_poll es (add_writer self p writer)"
| "rn_poll (WritersClosed # es) self = (self, recv_replication es)"


section \<open>The loop of the manager\<close>

text \<open>
  The manager waits for the start signal, then serves its channels until it is told to stop. The
  connection attempts that have not reported yet are listed by the peer they dial, \<open>None\<close> for an
  accepted connection, and the connections handed to the replica with their writers.
\<close>

datatype manager_phase = Waiting | Running | Stopped

record 'w manager_run =
  mr_manager :: network_manager
  mr_phase :: manager_phase
  mr_latency :: latency_profile
  mr_attempts :: "pid option list"
  mr_connections :: "(pid \<times> 'w) list"

text \<open>\<open>bound\<close> is whether the listener could be bound.\<close>

definition launch_network_manager ::
  "environment \<Rightarrow> unit option \<Rightarrow> socket_addr \<Rightarrow> pid \<Rightarrow> ('w manager_run \<times> 'w replica_network) exec" where
  "launch_network_manager env bound address p =
     exec_bind (expect ''Failed to bind to internal address'' bound) (\<lambda>_.
     exec_bind (latency_from_env env) (\<lambda>latency_profile.
       Done (\<lparr>mr_manager = manager_new p address, mr_phase = Waiting, mr_latency = latency_profile,
              mr_attempts = [], mr_connections = []\<rparr>, rn_new p)))"

definition spawn_connection_attempt :: "pid option \<Rightarrow> 'w manager_run \<Rightarrow> 'w manager_run" where
  "spawn_connection_attempt expected_pid self = self\<lparr>mr_attempts := expected_pid # mr_attempts self\<rparr>"

fun result_expected :: "'w connection_result \<Rightarrow> pid option" where
  "result_expected (Failed expected_pid) = expected_pid"
| "result_expected (Established expected_pid peer_pid writer) = expected_pid"

inductive manager_step :: "'w manager_run \<Rightarrow> 'w manager_run \<Rightarrow> bool" where
  Start: "mr_phase s = Waiting \<Longrightarrow> manager_step s (s\<lparr>mr_phase := Running\<rparr>)"
| StopEarly: "mr_phase s = Waiting \<Longrightarrow> manager_step s (s\<lparr>mr_phase := Stopped\<rparr>)"
| Accept: "mr_phase s = Running \<Longrightarrow> manager_step s (spawn_connection_attempt None s)"
| AcceptFails: "mr_phase s = Running \<Longrightarrow> manager_step s s"
| Member: "\<lbrakk>mr_phase s = Running; handle_new_member now (mr_manager s) member = (m, dial)\<rbrakk> \<Longrightarrow>
    manager_step s (let s' = s\<lparr>mr_manager := m\<rparr>
      in case dial of Some x \<Rightarrow> spawn_connection_attempt (Some (nmem_pid x)) s' | None \<Rightarrow> s')"
| Result: "\<lbrakk>mr_phase s = Running; result_expected r \<in> set (mr_attempts s);
    handle_connection_result now send_ok (mr_manager s) r = (m, registration)\<rbrakk> \<Longrightarrow>
    manager_step s (s\<lparr>mr_manager := m, mr_attempts := remove1 (result_expected r) (mr_attempts s),
      mr_connections := mr_connections s @ (case registration of Registered p writer \<Rightarrow> [(p, writer)] | _ \<Rightarrow> [])\<rparr>)"
| Stop: "mr_phase s = Running \<Longrightarrow> manager_step s (s\<lparr>mr_phase := Stopped, mr_attempts := []\<rparr>)"


section \<open>Bytes and lines\<close>

lemma length_be_bytes [simp]: "length (be_bytes n x) = n"
  by (induction n arbitrary: x) simp_all

lemma be_value_be_bytes: "0 \<le> x \<Longrightarrow> x < 256 ^ n \<Longrightarrow> be_value (be_bytes n x) = x"
proof (induction n arbitrary: x)
  case 0
  then show ?case by (simp add: be_value_def)
next
  case (Suc n)
  have "be_value (be_bytes n (x div 256)) = x div 256"
  proof (rule Suc.IH)
    have "x div 256 < k" if "x < 256 * k" for k using that by presburger
    then show "x div 256 < 256 ^ n" using Suc.prems(2) by simp
  qed (use Suc.prems(1) in simp)
  moreover have "uint (of_int x :: 8 word) = x mod 256" by (simp add: uint_word_of_int)
  ultimately show ?case by (simp add: be_value_def)
qed

lemma read_write_u128 [simp]: "read_u128 (write_u128 p @ rest) = Some (p, rest)"
proof -
  have "be_value (be_bytes 16 (uint p)) = uint p"
    using uint_lt2p[of p] by (intro be_value_be_bytes) simp_all
  then show ?thesis by (simp add: read_u128_def write_u128_def)
qed

lemma chars_of_bytes_of [simp]: "chars_of (bytes_of s) = s"
proof -
  have "char_of (unat (of_nat (of_char c) :: 8 word)) = c" for c
    using of_char_mod_256[of c] by (simp add: unat_of_nat)
  then show ?thesis by (simp add: chars_of_def bytes_of_def o_def)
qed

lemma chars_of_append [simp]: "chars_of (a @ b) = chars_of a @ chars_of b"
  by (simp add: chars_of_def)

lemma chars_of_newline [simp]: "chars_of (10 # bs) = CHR 0x0A # chars_of bs"
proof -
  have "char_of (unat (10 :: 8 word)) = CHR 0x0A" by code_simp
  then show ?thesis by (simp add: chars_of_def del: unat_numeral)
qed

lemma str_lines_single: "CHR 0x0A \<notin> set s \<Longrightarrow> str_lines s = (if s = [] then [] else [s])"
  by (simp add: str_lines_def Let_def split_on_no_sep)

text \<open>
  What the stream needs of the encoding: messages are single lines of text that read back, and
  nothing that is cut off a message reads as one.
\<close>

definition frames :: "(string \<Rightarrow> bool) \<Rightarrow> ('t \<Rightarrow> string option) \<Rightarrow> (string \<Rightarrow> 't option) \<Rightarrow> bool" where
  "frames utf8 ser de \<longleftrightarrow> (\<forall>m j. ser m = Some j \<longrightarrow> de j = Some m \<and> utf8 j \<and> CHR 0x0A \<notin> set j \<and> strip_cr j = j \<and>
     (\<forall>s. strict_prefix s j \<longrightarrow> utf8 s \<longrightarrow> de s = None))"

lemma framesD:
  assumes "frames utf8 ser de" "ser m = Some j"
  shows "de j = Some m" "utf8 j" "CHR 0x0A \<notin> set j" "strip_cr j = j" "strict_prefix s j \<Longrightarrow> utf8 s \<Longrightarrow> de s = None"
  using assms by (auto simp: frames_def)

lemma read_cut_line:
  assumes "frames utf8 ser de" "ser m = Some j" "prefix s j"
  shows "\<exists>k. read_lines utf8 de None (str_lines s) = take k (m # ms)"
proof -
  have "CHR 0x0A \<notin> set s" using framesD(3)[OF assms(1,2)] assms(3) by (meson set_mono_prefix subsetD)
  then have lines: "str_lines s = (if s = [] then [] else [s])" by (rule str_lines_single)
  show ?thesis
  proof (cases "s = j")
    case True
    then have "read_lines utf8 de None (str_lines s) = take (if s = [] then 0 else 1) (m # ms)"
      using framesD(1,2)[OF assms(1,2)] unfolding lines by (simp add: True)
    then show ?thesis by blast
  next
    case False
    then have "utf8 s \<longrightarrow> de s = None" using framesD(5)[OF assms(1,2), of s] assms(3) by (auto simp: strict_prefix_def)
    then have "read_lines utf8 de None (str_lines s) = take 0 (m # ms)" by (simp add: lines)
    then show ?thesis by blast
  qed
qed

lemma read_whole_line:
  assumes "frames utf8 ser de" "ser m = Some j"
  shows "read_lines utf8 de None (str_lines (j @ CHR 0x0A # rest)) = m # read_lines utf8 de None (str_lines rest)"
  using framesD(1-4)[OF assms] by (simp add: str_lines_append)

lemma chars_of_prefix: "prefix a b \<Longrightarrow> prefix (chars_of a) (chars_of b)"
  by (auto simp: prefix_def chars_of_def)

lemma write_loop_read:
  assumes "frames utf8 ser de" "write_loop ser ws = Done bs" "prefix arrived bs"
  shows "\<exists>k. read_loop utf8 de None arrived = take k (map fst ws)"
  using assms(2,3)
proof (induction ws arbitrary: bs arrived)
  case Nil
  then show ?case by (simp add: read_loop_def chars_of_def str_lines_def)
next
  case (Cons w ws)
  obtain m outcome where w: "w = (m, outcome)" by (cases w)
  obtain j where j: "ser m = Some j"
    using Cons.prems(1) by (auto simp: w send_message_def exec_simps)
  let ?line = "bytes_of j @ [10]"
  obtain more where more: "prefix arrived (?line @ more)" "prefix ?line arrived \<longrightarrow> write_loop ser ws = Done more \<or> arrived = ?line"
  proof (cases outcome)
    case WriteOk
    with Cons.prems that show ?thesis by (auto simp: w send_message_def j exec_simps)
  next
    case (WriteFails n)
    with Cons.prems have "prefix arrived (take n ?line)" by (simp add: w send_message_def j Let_def)
    then have "prefix arrived ?line" using take_is_prefix prefix_order.trans by blast
    then show ?thesis using that[of "[]"] prefix_order.antisym by fastforce
  qed
  show ?case
  proof (cases "prefix ?line arrived")
    case True
    then obtain rest where rest: "arrived = ?line @ rest" by (auto simp: prefix_def)
    have step: "read_loop utf8 de None arrived = m # read_loop utf8 de None rest"
      using read_whole_line[OF assms(1) j] by (simp add: read_loop_def rest)
    show ?thesis
    proof (cases "rest = []")
      case True
      then have "read_loop utf8 de None arrived = take 1 (map fst (w # ws))"
        by (simp add: step w) (simp add: read_loop_def chars_of_def str_lines_def)
      then show ?thesis by blast
    next
      case False
      then have "write_loop ser ws = Done more" "prefix rest more" using more True rest by auto
      from Cons.IH[OF this] obtain k where "read_loop utf8 de None rest = take k (map fst ws)" by blast
      then have "read_loop utf8 de None arrived = take (Suc k) (map fst (w # ws))" by (simp add: step w)
      then show ?thesis by blast
    qed
  next
    case False
    have "prefix arrived ?line" using more(1) False prefix_append[of arrived ?line more] by auto
    with False have "prefix arrived (bytes_of j)" using prefix_snoc[of arrived "bytes_of j" 10] by auto
    then have "prefix (chars_of arrived) j" using chars_of_prefix by fastforce
    then show ?thesis using read_cut_line[OF assms(1) j] by (simp add: read_loop_def w)
  qed
qed

lemma write_loop_all:
  assumes "frames utf8 ser de" "list_all (\<lambda>m. ser m \<noteq> None) ms"
  shows "\<exists>bs. write_loop ser (map (\<lambda>m. (m, WriteOk)) ms) = Done bs \<and> read_loop utf8 de None bs = ms"
  using assms(2)
proof (induction ms)
  case (Cons m ms)
  then obtain j bs where "ser m = Some j" "write_loop ser (map (\<lambda>m. (m, WriteOk)) ms) = Done bs" "read_loop utf8 de None bs = ms"
    by auto
  then show ?case using read_whole_line[OF assms(1), of m j]
    by (simp add: send_message_def read_loop_def)
qed (simp add: read_loop_def chars_of_def str_lines_def)


section \<open>The attempts of the manager\<close>

definition attempts_inv :: "'w manager_run \<Rightarrow> bool" where
  "attempts_inv s \<longleftrightarrow>
     (\<forall>p. count_list (mr_attempts s) (Some p) \<le> 1) \<and>
     (\<forall>p. Some p \<in> set (mr_attempts s) \<longrightarrow>
        hs_contains (connecting_members (mr_manager s)) p \<or> hs_contains (dead_members (mr_manager s)) p) \<and>
     manager_inv (mr_manager s) \<and>
     (mr_phase s = Waiting \<longrightarrow> mr_attempts s = [] \<and> (\<forall>p. \<not> hs_contains (connected_members (mr_manager s)) p)) \<and>
     (mr_phase s = Stopped \<longrightarrow> mr_attempts s = [])"

lemma attempts_inv_launch: "launch_network_manager env bound a p = Done (s, net) \<Longrightarrow> attempts_inv s"
  by (auto simp: launch_network_manager_def exec_simps attempts_inv_def manager_inv_new) (simp add: manager_new_def)

lemma new_member_frame:
  assumes "handle_new_member now m member = (m', dial)"
  shows "hs_contains (connecting_members m) q \<or> hs_contains (dead_members m) q \<Longrightarrow>
      hs_contains (connecting_members m') q \<or> hs_contains (dead_members m') q"
    and "dial = Some x \<Longrightarrow> hs_contains (connecting_members m') (nmem_pid x) \<and>
      \<not> hs_contains (connecting_members m) (nmem_pid x) \<and> \<not> hs_contains (dead_members m) (nmem_pid x)"
  using assms by (auto simp: handle_new_member_def Let_def split: if_splits)

lemma result_frame:
  assumes "handle_connection_result now ok m r = (m', reg)" "result_expected r \<noteq> Some q"
  shows "hs_contains (connecting_members m) q \<or> hs_contains (dead_members m) q \<Longrightarrow>
      hs_contains (connecting_members m') q \<or> hs_contains (dead_members m') q"
  using assms by (cases r) (auto simp: Let_def split: option.splits if_splits)

lemma count_list_remove1: "count_list (remove1 x xs) y = (if x = y then count_list xs y - 1 else count_list xs y)"
  by (induction xs) auto

lemma manager_step_inv: "manager_step s s' \<Longrightarrow> attempts_inv s \<Longrightarrow> attempts_inv s'"
proof (induction rule: manager_step.induct)
  case (Member s now member m dial)
  have inv: "manager_inv m" using manager_inv_new_member[of "mr_manager s" now member] Member by (simp add: attempts_inv_def)
  note frame = new_member_frame[OF Member.hyps(2)]
  show ?case
  proof (cases dial)
    case None
    then show ?thesis using Member.hyps(1) Member.prems inv frame(1) by (auto simp: attempts_inv_def)
  next
    case (Some x)
    then have "Some (nmem_pid x) \<notin> set (mr_attempts s)" using frame(2) Member.prems by (auto simp: attempts_inv_def)
    then have "count_list (mr_attempts s) (Some (nmem_pid x)) = 0" by (simp add: count_list_0_iff)
    then show ?thesis using Some Member.hyps(1) Member.prems inv frame
      by (auto simp: attempts_inv_def spawn_connection_attempt_def)
  qed
next
  case (Result s r now send_ok m registration)
  have inv: "manager_inv m" using manager_inv_result[of "mr_manager s" now send_ok r] Result by (simp add: attempts_inv_def)
  have one: "count_list (mr_attempts s) (Some q) \<le> 1" for q using Result.prems by (simp add: attempts_inv_def)
  have gone: "Some q \<notin> set (remove1 (result_expected r) (mr_attempts s))" if "result_expected r = Some q" for q
    using one[of q] by (simp add: that count_list_0_iff[symmetric] count_list_remove1)
  have rest: "Some q \<in> set (remove1 (result_expected r) (mr_attempts s)) \<Longrightarrow>
      hs_contains (connecting_members m) q \<or> hs_contains (dead_members m) q" for q
    using result_frame[OF Result.hyps(3), of q] gone[of q] Result.prems notin_set_remove1
    unfolding attempts_inv_def by metis
  have "count_list (remove1 (result_expected r) (mr_attempts s)) (Some q) \<le> 1" for q
    using one[of q] by (simp add: count_list_remove1)
  then show ?case using Result.hyps(1) inv rest by (simp add: attempts_inv_def)
qed (auto simp: attempts_inv_def spawn_connection_attempt_def)


section \<open>Properties\<close>

text \<open>
  The two ends of a connection learn who the other is. When both handshakes go through, each
  end reads exactly the identifier the other one sent, whatever follows it on the stream, and
  leaves what follows to its reader; the manager then registers the connection exactly when the
  peer is the one that was dialled, or was accepted, and is neither departed nor connected
  already. A stream that ends within the first sixteen bytes fails the attempt.
\<close>

theorem handshake_identifies:
  assumes "hi_write_ok io" "hi_in_time io" "hi_ready io" "hi_write_ok io'"
    and "establish_connection io' b expected_b writer_b incoming_b = (result_b, sent_b, rest_b)"
  shows "establish_connection io a expected writer (sent_b @ later) = (Established expected b writer, write_u128 a, later) \<and>
    (snd (handle_connection_result now True m (Established expected b writer)) = Registered b writer \<longleftrightarrow>
      (expected = None \<or> expected = Some b) \<and> \<not> hs_contains (dead_members m) b \<and> \<not> hs_contains (connected_members m) b) \<and>
    (length incoming < 16 \<longrightarrow> fst (establish_connection io a expected writer incoming) = Failed expected)"
proof (intro conjI)
  have sent: "sent_b = write_u128 b"
    using assms(4,5) by (auto simp: establish_connection_def split: option.splits if_splits prod.splits)
  then show "establish_connection io a expected writer (sent_b @ later) = (Established expected b writer, write_u128 a, later)"
    using assms(1-3) by (simp add: establish_connection_def)
  show "snd (handle_connection_result now True m (Established expected b writer)) = Registered b writer \<longleftrightarrow>
      (expected = None \<or> expected = Some b) \<and> \<not> hs_contains (dead_members m) b \<and> \<not> hs_contains (connected_members m) b"
    by (auto simp: Let_def split: option.splits)
  show "length incoming < 16 \<longrightarrow> fst (establish_connection io a expected writer incoming) = Failed expected"
    using assms(1) by (simp add: establish_connection_def read_u128_def)
qed

theorem handshake_identifies_witness:
  "establish_connection \<lparr>hi_write_ok = True, hi_in_time = True, hi_ready = True\<rparr> 7 (Some 300) () (write_u128 300 @ [1, 2]) =
     (Established (Some 300) 300 (), write_u128 7, [1, 2])"
proof -
  let ?io = "\<lparr>hi_write_ok = True, hi_in_time = True, hi_ready = True\<rparr>"
  have "establish_connection ?io 300 None () (write_u128 7) = (Established None 7 (), write_u128 300, [])"
    using read_write_u128[of 7 "[]"] by (simp add: establish_connection_def)
  then show ?thesis by (rule handshake_identifies[THEN conjunct1, rotated 4]) simp_all
qed

text \<open>
  C20: what arrives on a stream. Whichever of the writes of a connection succeed, and whatever
  prefix of the written bytes reaches the other end, its reader delivers a prefix of the
  messages in order: none is altered, repeated, reordered or made up, and a message that is cut
  off is not delivered. When all writes succeed and everything arrives, all are delivered.
\<close>

theorem stream_delivers_prefix:
  assumes "frames utf8 ser de"
  shows "(write_loop ser ws = Done bs \<longrightarrow> prefix arrived bs \<longrightarrow>
      (\<exists>k. read_loop utf8 de None arrived = take k (map fst ws))) \<and>
    (list_all (\<lambda>m. ser m \<noteq> None) ms \<longrightarrow>
      (\<exists>bs. write_loop ser (map (\<lambda>m. (m, WriteOk)) ms) = Done bs \<and> read_loop utf8 de None bs = ms))"
  using write_loop_read[OF assms] write_loop_all[OF assms] by blast

text \<open>Numbers in brackets.\<close>

definition example_ser :: "int \<Rightarrow> string option" where
  "example_ser n = (if 0 \<le> n then Some (''['' @ show_digits n @ '']'') else None)"

definition example_msg_de :: "string \<Rightarrow> int option" where
  "example_msg_de s = (if prefix ''['' s \<and> suffix '']'' s then parse_digits (butlast (tl s)) else None)"

lemma example_frames: "frames (\<lambda>_. True) example_ser example_msg_de"
proof -
  have "example_msg_de j = Some m \<and> CHR 0x0A \<notin> set j \<and> strip_cr j = j \<and> (\<forall>s. strict_prefix s j \<longrightarrow> example_msg_de s = None)"
    if "example_ser m = Some j" for m j
  proof -
    have m: "0 \<le> m" and j: "j = ''['' @ show_digits m @ '']''" using that by (auto simp: example_ser_def split: if_splits)
    have "suffix '']'' s \<Longrightarrow> \<not> strict_prefix s j" for s
    proof
      assume s: "suffix '']'' s" "strict_prefix s j"
      then have "prefix s (''['' @ show_digits m)" unfolding j by (metis append_assoc prefix_snoc strict_prefix_def)
      then have "CHR '']'' \<in> set (''['' @ show_digits m)" using s(1) set_mono_prefix by (fastforce simp: suffix_def)
      moreover have "digit_of CHR '']'' = None" by code_simp
      ultimately show False using show_digits_no_sep[OF m] by auto
    qed
    then have "\<forall>s. strict_prefix s j \<longrightarrow> example_msg_de s = None" by (auto simp: example_msg_de_def)
    moreover have "digit_of CHR 0x0A = None" by code_simp
    then have "CHR 0x0A \<notin> set j" using show_digits_no_sep[OF m] by (auto simp: j)
    ultimately show ?thesis using m by (simp add: j example_msg_de_def strip_cr_def suffix_def butlast_append)
  qed
  then show ?thesis by (simp add: frames_def)
qed

theorem stream_delivers_prefix_witness:
  "\<exists>bs k. write_loop example_ser [(17, WriteOk), (4, WriteFails 2), (5, WriteOk)] = Done bs \<and>
     read_loop (\<lambda>_. True) example_msg_de None bs = take k [17, 4, 5]"
proof -
  have "case write_loop example_ser [(17, WriteOk), (4, WriteFails 2), (5, WriteOk)] of Done bs \<Rightarrow> True | Panicked _ \<Rightarrow> False"
    by code_simp
  then obtain bs where bs: "write_loop example_ser [(17, WriteOk), (4, WriteFails 2), (5, WriteOk)] = Done bs"
    by (auto split: exec.splits)
  then show ?thesis
    using stream_delivers_prefix[OF example_frames, of "[(17, WriteOk), (4, WriteFails 2), (5, WriteOk)]" bs bs] by auto
qed

text \<open>
  C22: the manager's attempts. In every state the manager's loop can reach, at most one attempt
  to dial any peer is under way, and none for a peer that is neither being connected nor
  departed; before the start signal nothing is dialled, accepted or connected, and after a stop
  no attempt is left.
\<close>

theorem one_dial_per_peer:
  assumes "launch_network_manager env bound address pid = Done (s0, net)" "manager_step\<^sup>*\<^sup>* s0 s"
  shows "count_list (mr_attempts s) (Some p) \<le> 1 \<and>
    (Some p \<in> set (mr_attempts s) \<longrightarrow>
      hs_contains (connecting_members (mr_manager s)) p \<or> hs_contains (dead_members (mr_manager s)) p) \<and>
    (mr_phase s = Waiting \<longrightarrow> mr_attempts s = [] \<and> \<not> hs_contains (connected_members (mr_manager s)) p) \<and>
    (mr_phase s = Stopped \<longrightarrow> mr_attempts s = [])"
proof -
  have "attempts_inv s"
    using assms(2) attempts_inv_launch[OF assms(1)] by (induction rule: rtranclp_induct) (auto intro: manager_step_inv)
  then show ?thesis by (simp add: attempts_inv_def)
qed

theorem one_dial_per_peer_witness:
  "\<exists>s0 (s :: unit manager_run) net.
     launch_network_manager Map.empty (Some ()) (SocketAddrV4 (10, 0, 0, 1) 80) 1 = Done (s0, net) \<and> manager_step\<^sup>*\<^sup>* s0 s \<and>
     mr_attempts s = [Some 2, None] \<and> count_list (mr_attempts s) (Some 2) \<le> 1"
proof -
  define s0 :: "unit manager_run" where "s0 = \<lparr>mr_manager = manager_new 1 (SocketAddrV4 (10, 0, 0, 1) 80), mr_phase = Waiting,
    mr_latency = \<lparr>base_latency = 0, jitter = 0\<rparr>, mr_attempts = [], mr_connections = []\<rparr>"
  have launch: "launch_network_manager Map.empty (Some ()) (SocketAddrV4 (10, 0, 0, 1) 80) 1 = Done (s0, rn_new 1)"
    by (simp add: launch_network_manager_def latency_from_env_def env_duration_ms_def s0_def)
  let ?s1 = "s0\<lparr>mr_phase := Running\<rparr>"
  let ?s2 = "spawn_connection_attempt None ?s1"
  let ?member = "\<lparr>nmem_pid = 2, nmem_address = SocketAddrV4 (10, 0, 0, 2) 80, nmem_final_counter = None\<rparr>"
  have "snd (handle_new_member 0 (manager_new 1 (SocketAddrV4 (10, 0, 0, 1) 80)) ?member) = Some ?member" by code_simp
  then obtain m where m: "handle_new_member 0 (mr_manager ?s2) ?member = (m, Some ?member)"
    by (cases "handle_new_member 0 (mr_manager ?s2) ?member") (simp add: spawn_connection_attempt_def s0_def)
  let ?s3 = "let s' = ?s2\<lparr>mr_manager := m\<rparr> in case Some ?member of
    Some x \<Rightarrow> spawn_connection_attempt (Some (nmem_pid x)) s' | None \<Rightarrow> s'"
  have a: "manager_step s0 ?s1" by (rule manager_step.Start) (simp add: s0_def)
  have b: "manager_step ?s1 ?s2" by (rule manager_step.Accept) simp
  have c: "manager_step ?s2 ?s3" by (rule manager_step.Member[OF _ m]) (simp add: spawn_connection_attempt_def)
  have r: "manager_step\<^sup>*\<^sup>* s0 ?s3"
    by (rule rtranclp.rtrancl_into_rtrancl[OF rtranclp.rtrancl_into_rtrancl[OF r_into_rtranclp[of manager_step, OF a] b] c])
  have "mr_attempts ?s3 = [Some 2, None]" by (simp add: spawn_connection_attempt_def s0_def)
  then show ?thesis using r launch one_dial_per_peer[OF launch r, of 2] by blast
qed

text \<open>
  The emulated latency. A message is delayed by at most the jitter around the base latency,
  by exactly the base latency without jitter, and not at all when both are zero; the interval
  the generator is asked for is never empty.
\<close>

theorem latency_bounds:
  assumes "\<And>lower upper. lower \<le> upper \<Longrightarrow> lower \<le> pick lower upper \<and> pick lower upper \<le> upper"
    and "base_latency self < 2 ^ 64" "jitter self < 2 ^ 64"
  shows "base_latency self - jitter self \<le> write_delay pick self \<and> write_delay pick self \<le> base_latency self + jitter self \<and>
    (jitter self = 0 \<longrightarrow> write_delay pick self = base_latency self)"
proof -
  let ?lower = "base_latency self - jitter self" and ?upper = "min (base_latency self + jitter self) (2 ^ 64 - 1)"
  have "?lower \<le> ?upper" using assms(2) by auto
  then have pick: "?lower \<le> pick ?lower ?upper" "pick ?lower ?upper \<le> base_latency self + jitter self"
    using assms(1)[of ?lower ?upper] by linarith+
  have mod: "base_latency self mod 2 ^ 64 = base_latency self" "jitter self mod 2 ^ 64 = jitter self"
    using assms(2,3) by (simp_all only: mod_less)
  have eq: "write_delay pick self = (if jitter self = 0 then base_latency self else pick ?lower ?upper)"
    unfolding write_delay_def is_enabled_def sample_delay_def Let_def mod by simp
  show ?thesis unfolding eq using pick by simp
qed

theorem latency_bounds_witness:
  "50 - 20 \<le> write_delay (\<lambda>lower upper. upper) \<lparr>base_latency = 50, jitter = 20\<rparr> \<and>
   write_delay (\<lambda>lower upper. upper) \<lparr>base_latency = 50, jitter = 20\<rparr> \<le> 50 + 20"
  using latency_bounds[of "\<lambda>lower upper. upper" "\<lparr>base_latency = 50, jitter = 20\<rparr>"] by simp

end
