(* ===== verification/Spec2Isabelle.thy ===== *)
theory Spec2Isabelle
  imports Prelude Dots Version_Matrix Dot_Map Crdt Orset Orset_Causality Orset_System Journal Journal_Files
    Containers View Composite_View Ztable Descriptor Network_Layer Replica Replica_Durability Replica_Protocol
    Commit_Gate Commit_Linearization Object_Storage Replica_Storage Storage_Protocol Table_Files
    Configuration Credentials Http Network_Stream
begin

text \<open>
  A verification of Gresse, a runtime that replicates an application's CRDT (\<^verbatim>\<open>src/src\<close>).

  \<^bold>\<open>The program.\<close> A replica keeps a CRDT in memory and serves queries and mutations over HTTP. Every
  mutation and every delta from a peer is written to a journal before it is applied. Replicas find
  each other through descriptors in a directory of object storage, connect by TCP, and pull the
  deltas they miss by sending a version vector. A version matrix records what every replica is
  known to have seen; what all have seen is collected in rounds that are numbered by an epoch and
  agreed on through the membership directory. A replica that leaves publishes its final state.

  \<^bold>\<open>The theories\<close>, in the order of the layers, with what they model and show.

  \<^item> \<open>Prelude\<close>: machine integers, panics as values of \<open>exec\<close>, hash maps as association lists with
    unique keys (their order is the iteration order, over which every theorem quantifies), and the
    map interface \<open>map_api\<close>, interpreted on hash maps and on ordered maps.
  \<^item> \<open>Dots\<close>, \<open>Version_Matrix\<close>, \<open>Dot_Map\<close> (\<^verbatim>\<open>dots.rs\<close>): version vectors (a join of observations, locale
    \<open>observed_join\<close>), the matrix with the exact meaning of the stable frontier and of the departed
    replicas, and the log whose binary searches return exactly the entries a reader misses.
  \<^item> \<open>Crdt\<close> (\<^verbatim>\<open>crdt.rs\<close>): the trait as a record of operations, the wrapper with its collection markers,
    and the contract \<open>identified_crdt\<close> of \<open>set_pid\<close>.
  \<^item> \<open>Orset\<close>, \<open>Orset_Causality\<close>, \<open>Orset_System\<close> (\<^verbatim>\<open>orset.rs\<close>): the observed-remove set. A state is
    related to the causal history it absorbed; a mutation is the merge of its own delta, collection
    is invisible, and replicas with equal version vectors answer alike in every system reached by
    causal pulls, a step relation. The set is an \<open>identified_crdt\<close>.
  \<^item> \<open>Journal\<close> (\<^verbatim>\<open>journal.rs\<close>): the two files as bytes. What was appended is recovered, whatever prefix
    of the last record reached the disk, and whenever a compaction is interrupted.
  \<^item> \<open>Journal_Files\<close> (\<^verbatim>\<open>journal.rs\<close>): the names of the files and the system calls that write them; under
    failing calls and power losses they refine the outcomes the journal is verified against.
  \<^item> \<open>Containers\<close>, \<open>View\<close>, \<open>Composite_View\<close>, \<open>Ztable\<close> (\<^verbatim>\<open>db\<close>): sets, ordered maps and inverted
    indexes (locale \<open>multi_index\<close>, interpreted on the three kinds of index the code uses), the views
    whose indexes every update keeps exact, and the sharded table that behaves as one map.
  \<^item> \<open>Table_Files\<close> (\<^verbatim>\<open>db\<close>): saving a view or a table to a file and reading it back, with the buffer of the
    writer and a disk that may fill up; the round trip, and the error that is not reported.
  \<^item> \<open>Descriptor\<close> (\<^verbatim>\<open>replica_helpers.rs\<close>): membership descriptors and their textual form.
  \<^item> \<open>Network_Layer\<close>, \<open>Network_Stream\<close> (\<^verbatim>\<open>network.rs\<close>): whom to connect to, retries, the handlers and
    the loop of the network manager (a step relation with an invariant on the attempts under way),
    the handshake, the framing of messages and the emulated latency.
  \<^item> \<open>Replica\<close>, \<open>Replica_Durability\<close>, \<open>Replica_Protocol\<close> (\<^verbatim>\<open>replica.rs\<close>): every handler of the event
    loop over an arbitrary CRDT and codec. The journal agrees with the memory after every turn, so a
    restart resumes where the replica stopped; no turn panics over a CRDT that does not; what a
    collection round, a remote delta and a departed replica do.
  \<^item> \<open>Commit_Gate\<close>, \<open>Commit_Linearization\<close> (\<^verbatim>\<open>replica.rs\<close>, \<^verbatim>\<open>http_server.rs\<close>): the same handlers as tasks,
    programs of single accesses to shared state and of operations on the commit gate, which
    interleave with the tasks of client requests (a step relation). The turns above are the tasks
    that run alone; whatever the interleaving, what clients see is a sequential history, a crash
    between any two statements is recovered from, and the gate is never stuck.
  \<^item> \<open>Object_Storage\<close>, \<open>Credentials\<close> (\<^verbatim>\<open>object_storage.rs\<close>): the client, in the state monad, over a store
    that is a parameter with its documented behaviour as the predicate \<open>store_ok\<close>; registration,
    creation of descriptors, final states, background polls; the backend and its credentials.
  \<^item> \<open>Replica_Storage\<close>, \<open>Storage_Protocol\<close> (\<^verbatim>\<open>replica.rs\<close> on \<^verbatim>\<open>object_storage.rs\<close>): the bootstrap, collection
    rounds, membership polls and the shutdown with their calls made through that client. A run on a
    store is a run of the event loop for some answers; rounds that overlap do not collect; a newcomer
    starts from the last state written; a final state reaches those that stay.
  \<^item> \<open>Configuration\<close> (\<^verbatim>\<open>replica_helpers.rs\<close>, \<^verbatim>\<open>lib.rs\<close>, \<^verbatim>\<open>logging.rs\<close>): which environments are accepted, the
    runtime configuration, its timers, addresses and the logger.
  \<^item> \<open>Http\<close> (\<^verbatim>\<open>http_server.rs\<close>, \<^verbatim>\<open>http_client.rs\<close>): requests on top of the replica's mutation handler,
    the server as a fold over its events, the client's bounded retries.
  \<^item> this theory: the set on the runtime, across CRDT, journal, replica, network and object storage.

  \<^bold>\<open>Conventions.\<close> Records, datatypes and operations keep the names of the source, with a prefix where
  two types share a method name. A panic is \<open>Panicked\<close>, an error value \<open>Inl\<close>. Code that is not part
  of the repository (the JSON codec, the object store, the S3 builder, the HTTP library, the hash
  function, random choices) is an argument; what is assumed of it is a named predicate with a
  concrete instance. What other processes and the operating system do (answers of object storage,
  failing writes, bytes that arrive, the clock) are arguments of the operations. The event loop, the
  HTTP server and the network manager interleave freely: theorems quantify over every sequence of
  events, and those of \<open>Commit_Linearization\<close> over every interleaving of statements. No definition uses fuel: loops recurse on their input or on a measure, the retry loop of
  the client on the attempts that are left.

  \<^bold>\<open>Findings.\<close> Some theorems state what the code does where it differs from what it means to do:
  deltas are not sent in causal order, a replica can collect itself, idle replicas keep collecting,
  a failed append spoils the next record, a lost connection is not replaced, mutations are lost in
  a window at startup and in one at shutdown, a collection interval of zero stops the startup, and
  so does a durability path without a directory; saving a table can fail without an error, and
  descriptors of epochs that were overtaken stay in the directory.

  \<^bold>\<open>Not modelled.\<close> Memory allocation and the reference counts of shared objects. A failing disk inside
  an interleaving of tasks: \<open>Commit_Gate\<close> has writes that succeed, failures are those of single
  turns. Interleaving inside the journal, whose operations hold its own mutex, inside the network
  manager's handlers, which await nothing shared, and between the concurrent deletions of a
  collection round, which are made one after the other. IPv6 addresses, and text beyond ASCII in
  configuration files. Log messages. Values of \<open>set_pid\<close> and random identifiers are arguments.
\<close>

section \<open>The set on the runtime\<close>

text \<open>
  A request that carries the epoch misses the same deltas as the plain version vector, since no
  delta is made by the reserved process.
\<close>

lemma set_get_delta_epoch:
  assumes "logs t L" "\<forall>x \<in> set L. dot_pid (delta_dot x) \<noteq> STABLE_REPLICA_PID"
  shows "set (dg_list (orset_get_delta t (set_counter vv STABLE_REPLICA_PID e))) =
    {delta \<in> set L. \<not> dotset_contains vv (delta_dot delta)}"
  using assms(2) by (auto simp: set_get_delta[OF assms(1)] dotset_contains_def)

lemma pull_epoch_absorbs:
  assumes s: "absorbs s L" "logs s L" "causal [] L"
    and t: "absorbs t L'" "logs t L'" "causal [] L'"
    and no_stable: "\<forall>x \<in> set L'. dot_pid (delta_dot x) \<noteq> STABLE_REPLICA_PID"
    and agree: "\<forall>x \<in> set L. \<forall>y \<in> set L'. delta_dot x = delta_dot y \<longrightarrow> x = y"
    and g: "g = orset_get_delta t (set_counter (orset_version_vector s) STABLE_REPLICA_PID e)"
    and causal: "causal L (dg_list g)"
  shows "\<exists>s'. orset_merge_delta_group s (g\<lparr>dg_version_vector := v\<rparr>) = Done s' \<and> absorbs s' (L @ dg_list g) \<and>
    set (L @ dg_list g) = set L \<union> set L'"
proof -
  have "delta \<in> set L" if "delta \<in> set L'" "dotset_contains (orset_version_vector s) (delta_dot delta)" for delta
  proof -
    have "0 \<le> dot_counter (delta_dot delta)" using causal_dots[OF t(3)] that(1) by blast
    with that(2) have "delta_dot delta \<in> delta_dot ` set L" by (simp add: absorbs_contains_iff[OF s(1,3)])
    then show ?thesis using agree that(1) by (metis imageE)
  qed
  then have "set (L @ dg_list g) = set L \<union> set L'"
    using set_get_delta_epoch[OF t(2) no_stable, of "orset_version_vector s" e] g by auto
  then show ?thesis using merge_list_absorbs[OF s causal] by (auto simp: orset_merge_delta_group_def)
qed


text \<open>Two replicas of the set for a closed example: the second has an insertion the first misses.\<close>

abbreviation example_puller :: "(nat orset, unit) replica" where
  "example_puller \<equiv> set_replica 2 1 (orset_set_pid orset_new 2)"

abbreviation example_source :: "(nat orset, unit) replica" where
  "example_source \<equiv> set_replica 1 2 example_writer"



text \<open>A codec for closed examples: insertions and the snapshot of the first start are encodable.\<close>

definition set_start_state :: "nat orset persistent_replica" where
  "set_start_state = \<lparr>pr_local_state = orset_set_pid orset_new 7,
     pr_crdt_wrapper = wrapper_rebind_own_pid (wrapper_new 7) 7 dotset_new\<rparr>"

definition set_codec :: "(nat, nat orset, nat or_set_delta, unit, nat or_set_mutation) codec" where
  "set_codec =
     \<lparr>js_to_vec = js_to_vec counter_codec, js_from_slice = js_from_slice counter_codec,
      js_snapshot_to = (\<lambda>x. if x = set_start_state then Some 0 else None), js_snapshot_from = (\<lambda>_. Some set_start_state),
      js_delta_to = (\<lambda>_. None), js_delta_from = (\<lambda>_. None),
      js_mutation_to = (\<lambda>m. case m of MutInsert e \<Rightarrow> Some e | MutRemove e \<Rightarrow> None), js_mutation_from = (\<lambda>v. Some (MutInsert v)),
      js_marker_to = (\<lambda>_. None), js_marker_from = (\<lambda>_. None)\<rparr>"

lemma set_codec_exact: "codec_exact set_codec"
proof -
  have "entry_payload set_codec e \<noteq> None \<longrightarrow> reload_entry set_codec e = Some e" for e
    by (cases e) (simp_all add: set_codec_def split: or_set_mutation.split)
  moreover have "js_snapshot_to set_codec x \<noteq> None \<longrightarrow> reload_snapshot set_codec x = Some x" for x
    by (simp add: set_codec_def reload_snapshot_def)
  ultimately show ?thesis using counter_codec_ok
    unfolding codec_exact_def codec_ok_def by (auto simp: set_codec_def)
qed

definition set_start :: "((nat orset, unit) replica \<times> nat orset storage_effect list) exec" where
  "set_start = with_config orset_ops set_codec io_ok example_answers (Some None) 7 orset_new example_addr
     (\<lparr>jr_enabled = True, jr_generation = 0\<rparr>, fresh_disk)"

definition set_events :: "(nat orset, nat or_set_delta, unit, nat or_set_mutation, unit) replica_event list" where
  "set_events = [ClientMutation (MutInsert 3), LocalMutation, ClientMutation (MutInsert 1)]"

lemma set_run_done:
  "case exec_bind set_start (\<lambda>(self0, _). replica_run orset_ops set_codec io_ok set_events self0) of
     Done self \<Rightarrow> orset_query (rp_crdt self) QueryElements = Inr (RespElements [1, 3]) | Panicked _ \<Rightarrow> False"
  by code_simp





definition writer_ser :: "nat orset \<Rightarrow> obj_bytes option" where
  "writer_ser x = (if x = example_writer then Some [1] else None)"

definition writer_de :: "obj_bytes \<Rightarrow> nat orset option" where
  "writer_de bs = Some example_writer"

abbreviation example_departure :: replica_descriptor where
  "example_departure \<equiv> \<lparr>rd_pid = 1, rd_address = example_addr, rd_gc_counter = 0, rd_final_counter = Some 0\<rparr>"

definition example_left :: "mem_store storage_client" where
  "example_left = example_client\<lparr>oc_store := [(object_path example_departure ''run1/members/'', [1])]\<rparr>"

lemma example_final_descriptor: "final_descriptor orset_ops example_source = example_departure"
  by code_simp

lemma example_source_state: "rp_crdt example_source = example_writer"
  by (simp add: set_replica_def)

lemma example_handoff_calls:
  "\<exists>leaver' a'. shutdown_client orset_ops mem_object_store writer_ser example_source example_client =
     (leaver', Inr True, a') \<and> oc_store a' = oc_store example_left"
  "\<exists>members. run_state (fetch_membership_descriptors mem_object_store) example_left =
     (Inr members, example_left\<lparr>oc_connection_logged := True\<rparr>)"
  "\<exists>b2. run_state (read_membership_descriptor_payload mem_object_store writer_de example_departure)
     (example_left\<lparr>oc_connection_logged := True\<rparr>) = (Inr (Some example_writer), b2)"
  by (simp_all add: shutdown_client_def example_final_descriptor write_membership_descriptor_payload_def
      upload_data_atomic_create_def put_create_run mem_object_store_def client_new_def descriptor_path_def writer_ser_def
      example_source_state abort_membership_poll_def example_left_def fetch_run list_objects_run
      read_membership_descriptor_payload_def download_run writer_de_def missing_as_none_def)


end
